(* ===== verification/Prelude.thy ===== *)
theory Prelude
  imports Main "HOL-Library.Word" "HOL-Library.List_Lexorder" "HOL-Library.AList"
begin

text \<open>
  Shared vocabulary of the development: Go's byte slices, strings and fixed-width
  integers, the little-endian codec of the standard library's \<open>encoding/binary\<close>, and the
  lemmas on lists, words and association lists that the component theories use.

  \<^item> A \<open>[]byte\<close> and a Go \<open>string\<close> are both lists of 8-bit words. Go compares strings
    bytewise and lexicographically, a proper prefix first; that is the order
    \<open>List_Lexorder\<close> puts on lists.
  \<^item> \<open>uint64\<close>, \<open>uint32\<close> and \<open>uint16\<close> are words of that width; \<open>int64\<close> is a 64-bit word read
    by \<open>sint\<close>, so that Go's wrap-around addition is word addition.
  \<^item> A Go map that is iterated is an association list with distinct keys, in whatever order;
    a map that is only read and written at single keys is a HOL map.
\<close>

unbundle bit_operations_syntax

type_synonym byte = "8 word"
type_synonym bytes = "byte list"
type_synonym uint16 = "16 word"
type_synonym uint32 = "32 word"
type_synonym uint64 = "64 word"
type_synonym int64 = "64 word"

named_theorems codec_simps "lengths and round trips of the byte codecs"
named_theorems engine_simps "what the operations of a storage engine do to its contents"

subsection \<open>String literals\<close>

definition go_string :: "string \<Rightarrow> bytes" where
  "go_string s = map of_char s"

lemma length_go_string [simp]: "length (go_string s) = length s"
  by (simp add: go_string_def)

lemma go_string_append [simp]: "go_string (s @ t) = go_string s @ go_string t"
  by (simp add: go_string_def)

subsection \<open>Little-endian integers (encoding/binary)\<close>

text \<open>
  \<open>binary.LittleEndian.PutUint16/32/64\<close> write the low byte first; \<open>Uint16/32/64\<close> read it
  back. The byte count is an argument, so one pair serves the three widths.
\<close>

primrec le_put :: "nat \<Rightarrow> 'a::len word \<Rightarrow> bytes" where
  "le_put 0 w = []"
| "le_put (Suc n) w = ucast w # le_put n (drop_bit 8 w)"

primrec le_get :: "bytes \<Rightarrow> 'a::len word" where
  "le_get [] = 0"
| "le_get (b # bs) = ucast b OR push_bit 8 (le_get bs)"

text \<open>Unfolding at a numeral, for the evaluation of closed terms.\<close>

lemma le_put_numeral:
  "le_put (numeral n) w = ucast w # le_put (pred_numeral n) (drop_bit 8 w)"
  by (simp add: numeral_eq_Suc)

lemma length_le_put [simp, codec_simps]: "length (le_put n w) = n"
  by (induction n arbitrary: w) auto

lemma le_put_not_Nil [simp]: "le_put n w = [] \<longleftrightarrow> n = 0"
  by (cases n) auto

lemma le_get_put_take: "(le_get (le_put n w) :: 'a::len word) = take_bit (8 * n) w"
proof (induction n arbitrary: w)
  case 0
  then show ?case by simp
next
  case (Suc n)
  show ?case
    by (rule bit_word_eqI) (auto simp: Suc bit_simps)
qed

lemma le_get_put [simp, codec_simps]:
  "LENGTH('a) \<le> 8 * n \<Longrightarrow> (le_get (le_put n w) :: 'a::len word) = w"
  by (simp add: le_get_put_take take_bit_word_eq_self)

lemma le_put_cong_low:
  "take_bit (8 * n) (v :: 'a::len word) = take_bit (8 * n) w \<Longrightarrow> le_put n v = le_put n w"
proof (induction n arbitrary: v w)
  case 0
  then show ?case by simp
next
  case (Suc n)
  have bits: "i < 8 + 8 * n \<Longrightarrow> bit v i = bit w i" for i
    using arg_cong [OF Suc.prems, of "\<lambda>x. bit x i"] by (auto simp: bit_take_bit_iff)
  have "(ucast v :: byte) = ucast w"
  proof (rule bit_word_eqI)
    fix i assume "i < LENGTH(8)"
    then show "bit (ucast v :: byte) i = bit (ucast w :: byte) i"
      using bits [of i] by (simp add: bit_simps)
  qed
  moreover have "take_bit (8 * n) (drop_bit 8 v) = take_bit (8 * n) (drop_bit 8 w)"
  proof (rule bit_word_eqI)
    fix i
    show "bit (take_bit (8 * n) (drop_bit 8 v)) i = bit (take_bit (8 * n) (drop_bit 8 w)) i"
      using bits [of "8 + i"] by (cases "i < 8 * n") (simp_all add: bit_simps)
  qed
  ultimately show ?case using Suc.IH [of "drop_bit 8 v" "drop_bit 8 w"] by simp
qed

lemma le_put_get [simp, codec_simps]:
  "8 * length bs \<le> LENGTH('a) \<Longrightarrow> le_put (length bs) (le_get bs :: 'a::len word) = bs"
proof (induction bs)
  case Nil
  then show ?case by simp
next
  case (Cons b bs)
  let ?w = "ucast b OR push_bit 8 (le_get bs :: 'a word)"
  have "(ucast ?w :: byte) = b"
    using Cons.prems by (intro bit_word_eqI) (auto simp: bit_simps)
  moreover have "le_put (length bs) (drop_bit 8 ?w) = le_put (length bs) (le_get bs :: 'a word)"
    using Cons.prems by (intro le_put_cong_low bit_word_eqI) (auto simp: bit_simps dest: bit_imp_le_length)
  ultimately show ?case using Cons by simp
qed

subsection \<open>Lists\<close>

lemma distinct_concat_nth:
  assumes "\<And>i. i < length xss \<Longrightarrow> distinct (xss ! i)"
    and "\<And>i j. i < j \<Longrightarrow> j < length xss \<Longrightarrow> set (xss ! i) \<inter> set (xss ! j) = {}"
  shows "distinct (concat xss)"
  using assms
proof (induction xss)
  case Nil
  then show ?case by simp
next
  case (Cons xs xss)
  have "distinct (xss ! i)" if "i < length xss" for i
    using Cons.prems(1) [of "Suc i"] that by simp
  moreover have "set (xss ! i) \<inter> set (xss ! j) = {}" if "i < j" "j < length xss" for i j
    using Cons.prems(2) [of "Suc i" "Suc j"] that by simp
  ultimately have "distinct (concat xss)" by (rule Cons.IH)
  moreover have "distinct xs" using Cons.prems(1) [of 0] by simp
  moreover have "set xs \<inter> set ys = {}" if "ys \<in> set xss" for ys
  proof -
    from that obtain j where "j < length xss" "ys = xss ! j" by (auto simp: in_set_conv_nth)
    with Cons.prems(2) [of 0 "Suc j"] show ?thesis by simp
  qed
  ultimately show ?case by auto
qed

lemma find_append:
  "find P (xs @ ys) = (case find P xs of None \<Rightarrow> find P ys | Some x \<Rightarrow> Some x)"
  by (induction xs) auto

lemma update_mem: "(k, v) \<in> set (AList.update k v xs)"
  "k' \<noteq> k \<Longrightarrow> (k', v') \<in> set xs \<Longrightarrow> (k', v') \<in> set (AList.update k v xs)"
  "x \<in> set (AList.update k v xs) \<Longrightarrow> x = (k, v) \<or> x \<in> set xs"
  by (induction xs) (auto split: if_splits)

lemma AList_update_fresh: "k \<notin> set (map fst xs) \<Longrightarrow> AList.update k v xs = xs @ [(k, v)]"
  by (induction xs) auto

lemma sum_list_update_share:
  "i < length xs \<Longrightarrow> sum_list (map f (xs[i := y])) + f (xs ! i) = (sum_list (map f xs) :: 'a::comm_monoid_add) + f y"
  by (induction xs arbitrary: i) (auto simp: ac_simps split: nat.splits)

end
