(* ===== verification/Codec.thy ===== *)
theory Codec
  imports Prelude
begin

text \<open>
  The data types of \<open>src/shared/types.go\<close> and \<open>src/engine/engine.go\<close> and the byte codecs of
  \<open>src/helpers.go\<close> (the same functions appear again in \<open>src/conductor/fsm.go\<close> and in each
  engine): epoch records, 64-bit integers, version keys and the reserved prefix.
\<close>

subsection \<open>Records and constants\<close>

record EpochRecord =
  Epoch :: uint64
  IsCredit :: bool

record ReadEntry =
  rKey :: bytes
  rEpoch :: uint64
  rIsDebit :: bool

record WriteEntry =
  wOp :: byte
  wKey :: bytes
  wValue :: bytes

abbreviation (input) OpSet :: byte where "OpSet \<equiv> 1"
abbreviation (input) OpDelete :: byte where "OpDelete \<equiv> 2"
abbreviation (input) OpCredit :: byte where "OpCredit \<equiv> 3"
abbreviation (input) OpDebit :: byte where "OpDebit \<equiv> 4"

definition valid_op :: "byte \<Rightarrow> bool" where
  "valid_op op \<longleftrightarrow> op \<in> {OpSet, OpDelete, OpCredit, OpDebit}"

datatype SyncPolicy = SyncBatch | SyncFull | SyncNone

text \<open>Go's zero value of \<open>engine.EpochRecord\<close>.\<close>

definition zero_epoch :: EpochRecord where
  "zero_epoch = \<lparr>Epoch = 0, IsCredit = False\<rparr>"

lemma zero_epoch_simps [simp]: "Epoch zero_epoch = 0" "\<not> IsCredit zero_epoch"
  by (simp_all add: zero_epoch_def)

text \<open>A lookup \<open>m[k]\<close> in a Go map of epoch records: the zero value when the key is absent.\<close>

definition epoch_at :: "(bytes \<rightharpoonup> EpochRecord) \<Rightarrow> bytes \<Rightarrow> EpochRecord" where
  "epoch_at m k = (case m k of None \<Rightarrow> zero_epoch | Some er \<Rightarrow> er)"

subsection \<open>The reserved prefix and version keys\<close>

definition dpxPrefixBytes :: bytes where
  "dpxPrefixBytes = go_string ''__dpx:''"

definition verPrefix :: bytes where
  "verPrefix = go_string ''__dpx:ver:''"

definition appliedKey :: bytes where
  "appliedKey = go_string ''__dpx:applied''"

definition isReserved :: "bytes \<Rightarrow> bool" where
  "isReserved key \<longleftrightarrow> length key \<ge> length dpxPrefixBytes
     \<and> take (length dpxPrefixBytes) key = dpxPrefixBytes"

definition versionKey :: "bytes \<Rightarrow> bytes" where
  "versionKey key = verPrefix @ key"

definition rawIterStart :: bytes where
  "rawIterStart = verPrefix"

definition rawIterEnd :: bytes where
  "rawIterEnd = verPrefix @ replicate 16 0xFF"

lemma length_dpxPrefix [simp]: "length dpxPrefixBytes = 6"
  by (simp add: dpxPrefixBytes_def)

lemma length_verPrefix [simp]: "length verPrefix = 10"
  by (simp add: verPrefix_def)

lemma verPrefix_eq: "verPrefix = dpxPrefixBytes @ go_string ''ver:''"
  by (simp add: verPrefix_def dpxPrefixBytes_def go_string_def)

lemma appliedKey_eq: "appliedKey = dpxPrefixBytes @ go_string ''applied''"
  by (simp add: appliedKey_def dpxPrefixBytes_def go_string_def)

lemma isReserved_versionKey [simp]: "isReserved (versionKey k)"
  by (simp add: isReserved_def versionKey_def verPrefix_eq)

lemma isReserved_appliedKey [simp]: "isReserved appliedKey"
  by (simp add: isReserved_def appliedKey_eq)

lemma versionKey_inject [simp]: "versionKey k = versionKey k' \<longleftrightarrow> k = k'"
  by (simp add: versionKey_def)

lemma versionKey_neq_applied [simp]: "versionKey k \<noteq> appliedKey" "appliedKey \<noteq> versionKey k"
  by (auto simp: versionKey_def verPrefix_eq appliedKey_eq go_string_def)

lemma unreserved_neq [simp]:
  "\<not> isReserved k \<Longrightarrow> k \<noteq> versionKey k'" "\<not> isReserved k \<Longrightarrow> versionKey k' \<noteq> k"
  "\<not> isReserved k \<Longrightarrow> k \<noteq> appliedKey" "\<not> isReserved k \<Longrightarrow> appliedKey \<noteq> k"
  by auto

subsection \<open>Epoch records and integers as bytes\<close>

definition encodeEpochRecord :: "EpochRecord \<Rightarrow> bytes" where
  "encodeEpochRecord er = le_put 8 (Epoch er) @ [if IsCredit er then 1 else 0]"

text \<open>
  \<open>conductor/fsm.go\<close> reports a short record to its caller; the engines' variant returns the
  zero record instead.
\<close>

definition decodeEpochRecord :: "bytes \<Rightarrow> EpochRecord option" where
  "decodeEpochRecord b =
     (if length b < 9 then None
      else Some \<lparr>Epoch = le_get (take 8 b), IsCredit = (b ! 8 = 1)\<rparr>)"

definition decodeEpochRecord0 :: "bytes \<Rightarrow> EpochRecord" where
  "decodeEpochRecord0 b =
     (if length b < 9 then zero_epoch
      else \<lparr>Epoch = le_get (take 8 b), IsCredit = (b ! 8 = 1)\<rparr>)"

definition encodeUint64 :: "uint64 \<Rightarrow> bytes" where
  "encodeUint64 v = le_put 8 v"

definition decodeUint64 :: "bytes \<Rightarrow> uint64" where
  "decodeUint64 b = le_get (take 8 b)"

definition encodeInt64 :: "int64 \<Rightarrow> bytes" where
  "encodeInt64 v = le_put 8 v"

definition decodeInt64 :: "bytes \<Rightarrow> int64" where
  "decodeInt64 b = (if length b < 8 then 0 else le_get (take 8 b))"

lemma length_encodes [simp, codec_simps]:
  "length (encodeEpochRecord er) = 9" "length (encodeUint64 v) = 8" "length (encodeInt64 i) = 8"
  by (simp_all add: encodeEpochRecord_def encodeUint64_def encodeInt64_def)

lemma decodeEpochRecord_encode [simp, codec_simps]:
  "decodeEpochRecord (encodeEpochRecord er) = Some er"
  by (simp add: decodeEpochRecord_def encodeEpochRecord_def nth_append)

lemma decodeEpochRecord0_encode [simp, codec_simps]:
  "decodeEpochRecord0 (encodeEpochRecord er) = er"
  by (simp add: decodeEpochRecord0_def encodeEpochRecord_def nth_append)

lemma decodeUint64_encode [simp, codec_simps]: "decodeUint64 (encodeUint64 v) = v"
  by (simp add: decodeUint64_def encodeUint64_def)

lemma decodeInt64_encode [simp, codec_simps]: "decodeInt64 (encodeInt64 v) = v"
  by (simp add: decodeInt64_def encodeInt64_def)

lemma decodeInt64_Nil [simp, codec_simps]: "decodeInt64 [] = 0"
  by (simp add: decodeInt64_def)

lemma decodeEpochRecord0_Nil [simp, codec_simps]: "decodeEpochRecord0 [] = zero_epoch"
  by (simp add: decodeEpochRecord0_def)

text \<open>\<open>mergeInt64\<close>: the int64 addition behind credits and debits.\<close>

definition mergeInt64 :: "bytes \<Rightarrow> bytes \<Rightarrow> bytes" where
  "mergeInt64 base delta = encodeInt64 (decodeInt64 base + decodeInt64 delta)"

lemma decodeInt64_merge [simp, codec_simps]:
  "decodeInt64 (mergeInt64 b d) = decodeInt64 b + decodeInt64 d"
  by (simp add: mergeInt64_def)

lemma mergeInt64_commute: "mergeInt64 (mergeInt64 b d) d' = mergeInt64 (mergeInt64 b d') d"
  by (simp add: mergeInt64_def algebra_simps)

end
