(* ===== verification/Config.thy ===== *)
theory Config
  imports Codec Complex_Main
begin

text \<open>
  Configuration defaults of \<open>src/config.go\<close> and the admission batcher of \<open>src/batcher.go\<close> with
  \<open>clampDuration\<close> of \<open>src/helpers.go\<close>. Durations are nanoseconds. The floating-point settings are rational
  numbers; the delay the batcher computes from them in floating point is an argument of the model, since
  the properties do not depend on it. Fields the code only hands on are left out.
\<close>

subsection \<open>Defaults\<close>

record BatchConfig =
  MaxEntries :: int
  MaxBytes :: int
  MinAge :: int
  MaxAge :: int
  EMAAlpha :: rat
  bcK :: rat

record RetryConfig =
  MaxAttempts :: int
  BaseDelay :: int
  MaxDelay :: int
  Multiplier :: rat

record Config =
  NodeID :: string
  cfgSyncPolicy :: SyncPolicy
  cfgPeers :: "(string \<times> string) list"
  cfgBatch :: BatchConfig
  cfgRetry :: RetryConfig
  ShutdownTimeout :: int

definition or_default :: "'a::zero \<Rightarrow> 'a \<Rightarrow> 'a" where
  "or_default x d = (if x = 0 then d else x)"

definition microsecond :: int where "microsecond = 1000"
definition millisecond :: int where "millisecond = 1000000"
definition second :: int where "second = 1000000000"

definition batch_defaults :: "BatchConfig \<Rightarrow> BatchConfig" where
  "batch_defaults b = \<lparr>MaxEntries = or_default (MaxEntries b) 256, MaxBytes = or_default (MaxBytes b) (4 * 2 ^ 20),
     MinAge = or_default (MinAge b) (10 * microsecond), MaxAge = or_default (MaxAge b) (500 * microsecond),
     EMAAlpha = or_default (EMAAlpha b) (1 / 10), bcK = or_default (bcK b) 8\<rparr>"

definition retry_defaults :: "RetryConfig \<Rightarrow> RetryConfig" where
  "retry_defaults r = \<lparr>MaxAttempts = or_default (MaxAttempts r) 50, BaseDelay = or_default (BaseDelay r) millisecond,
     MaxDelay = or_default (MaxDelay r) (100 * millisecond), Multiplier = or_default (Multiplier r) 2\<rparr>"

definition applyDefaults :: "Config \<Rightarrow> Config" where
  "applyDefaults cfg = cfg\<lparr>NodeID := (if NodeID cfg = [] then ''1'' else NodeID cfg),
     ShutdownTimeout := or_default (ShutdownTimeout cfg) (30 * second),
     cfgBatch := batch_defaults (cfgBatch cfg), cfgRetry := retry_defaults (cfgRetry cfg)\<rparr>"

subsection \<open>The batcher\<close>

definition clampDuration :: "int \<Rightarrow> int \<Rightarrow> int \<Rightarrow> int" where
  "clampDuration d lo hi = (if d < lo then lo else if d > hi then hi else d)"

record Batcher =
  bCfg :: BatchConfig
  inFlight :: int
  inBytes :: int

definition newBatcher :: "BatchConfig \<Rightarrow> Batcher" where
  "newBatcher cfg = \<lparr>bCfg = cfg, inFlight = 0, inBytes = 0\<rparr>"

definition SetConfig :: "Batcher \<Rightarrow> BatchConfig \<Rightarrow> Batcher" where
  "SetConfig b cfg = b\<lparr>bCfg := cfg\<rparr>"

text \<open>
  \<open>Wait\<close>: its two counter updates, its decision, and its deferred end. The configuration and the two
  counters are read one after the other, so the decision gets the states of the batcher at the two reads;
  \<open>raw\<close> is the delay that the moving average gives.
\<close>

datatype wait_decision = ProceedNow | DelayFor int

definition wait_enter :: "Batcher \<Rightarrow> nat \<Rightarrow> Batcher" where
  "wait_enter b n = b\<lparr>inFlight := inFlight b + 1, inBytes := inBytes b + int n\<rparr>"

definition wait_decide :: "BatchConfig \<Rightarrow> Batcher \<Rightarrow> Batcher \<Rightarrow> int \<Rightarrow> wait_decision" where
  "wait_decide cfg b1 b2 raw =
     (if inFlight b1 \<ge> MaxEntries cfg \<or> inBytes b2 \<ge> MaxBytes cfg then ProceedNow
      else DelayFor (clampDuration raw (MinAge cfg) (MaxAge cfg)))"

definition wait_leave :: "Batcher \<Rightarrow> nat \<Rightarrow> Batcher" where
  "wait_leave b n = b\<lparr>inFlight := inFlight b - 1, inBytes := inBytes b - int n\<rparr>"

text \<open>Concurrent callers: the proposals of those inside \<open>Wait\<close>, by size.\<close>

inductive batcher_run :: "BatchConfig \<Rightarrow> Batcher \<Rightarrow> nat list \<Rightarrow> bool" for cfg where
  b_new: "batcher_run cfg (newBatcher cfg) []"
| b_enter: "batcher_run cfg b ns \<Longrightarrow> batcher_run cfg (wait_enter b n) (n # ns)"
| b_leave: "batcher_run cfg b ns \<Longrightarrow> n \<in> set ns \<Longrightarrow> batcher_run cfg (wait_leave b n) (remove1 n ns)"
| b_config: "batcher_run cfg b ns \<Longrightarrow> batcher_run cfg (SetConfig b cfg') ns"

subsection \<open>Properties\<close>

lemma batcher_counts: "batcher_run cfg b ns \<Longrightarrow> inFlight b = int (length ns) \<and> inBytes b = int (sum_list ns)"
proof (induction rule: batcher_run.induct)
  case (b_leave b ns n)
  have "length ns = Suc (length (remove1 n ns))" using b_leave.hyps(2) by (metis One_nat_def Suc_pred length_pos_if_in_set length_remove1)
  moreover have "sum_list ns = n + sum_list (remove1 n ns)" using b_leave.hyps(2) by (rule sum_list_map_remove1 [where f = id, simplified])
  ultimately show ?case using b_leave.IH by (simp add: wait_leave_def)
qed (auto simp: newBatcher_def wait_enter_def SetConfig_def)


definition default_batch :: BatchConfig where
  "default_batch = batch_defaults \<lparr>MaxEntries = 0, MaxBytes = 0, MinAge = 0, MaxAge = 0, EMAAlpha = 0, bcK = 0\<rparr>"


end
