(* ===== verification/Proposal_Codec.thy ===== *)
theory Proposal_Codec
  imports Codec
begin

text \<open>
  The proposal and its wire format (\<open>src/shared/proposal.go\<close>). \<open>Marshal\<close> fills a buffer of a
  precomputed size from left to right, so its result is the concatenation of the pieces it
  writes; \<open>marshal_size\<close> is the size it allocates. \<open>Unmarshal\<close> keeps the source's cursor
  \<open>pos\<close> and its bounds checks, one error constructor per \<open>fmt.Errorf\<close>.
\<close>

record Proposal =
  ReadSet :: "ReadEntry list"
  Writes :: "WriteEntry list"
  TimestampWall :: uint64
  TimestampCounter :: uint16

definition zero_proposal :: Proposal where
  "zero_proposal = \<lparr>ReadSet = [], Writes = [], TimestampWall = 0, TimestampCounter = 0\<rparr>"

definition TimestampIsZero :: "Proposal \<Rightarrow> bool" where
  "TimestampIsZero p \<longleftrightarrow> TimestampWall p = 0 \<and> TimestampCounter p = 0"

subsection \<open>Marshal\<close>

definition marshal_read :: "ReadEntry \<Rightarrow> bytes" where
  "marshal_read re =
     le_put 2 (word_of_nat (length (rKey re)) :: uint16) @ rKey re @ le_put 8 (rEpoch re)
       @ [if rIsDebit re then 1 else 0]"

definition marshal_write :: "WriteEntry \<Rightarrow> bytes" where
  "marshal_write w =
     [wOp w] @ le_put 2 (word_of_nat (length (wKey w)) :: uint16) @ wKey w
       @ le_put 2 (word_of_nat (length (wValue w)) :: uint16) @ wValue w"

definition Marshal :: "Proposal \<Rightarrow> bytes" where
  "Marshal p =
     le_put 8 (TimestampWall p) @ le_put 2 (TimestampCounter p)
       @ le_put 2 (word_of_nat (length (ReadSet p)) :: uint16)
       @ concat (map marshal_read (ReadSet p))
       @ le_put 2 (word_of_nat (length (Writes p)) :: uint16)
       @ concat (map marshal_write (Writes p))"

definition marshal_size :: "Proposal \<Rightarrow> nat" where
  "marshal_size p =
     foldl (\<lambda>size w. size + (1 + 2 + length (wKey w) + 2 + length (wValue w)))
       (foldl (\<lambda>size re. size + (2 + length (rKey re) + 8 + 1)) (8 + 2 + 2) (ReadSet p) + 2)
       (Writes p)"

subsection \<open>Unmarshal\<close>

datatype unmarshal_error =
    ShortBuffer nat
  | TruncReadKeyLen nat nat
  | TruncReadEntry nat nat
  | TruncWritesLen nat
  | TruncWriteOp nat nat
  | TruncWriteKey nat nat
  | TruncWriteValue nat nat

definition minProposalBytes :: nat where
  "minProposalBytes = 14"

definition uint16_at :: "bytes \<Rightarrow> nat \<Rightarrow> nat" where
  "uint16_at data pos = unat (le_get (take 2 (drop pos data)) :: uint16)"

definition uint64_at :: "bytes \<Rightarrow> nat \<Rightarrow> uint64" where
  "uint64_at data pos = le_get (take 8 (drop pos data))"

primrec unmarshal_reads ::
  "bytes \<Rightarrow> nat \<Rightarrow> nat \<Rightarrow> nat \<Rightarrow> unmarshal_error + (ReadEntry list \<times> nat)" where
  "unmarshal_reads data 0 i pos = Inr ([], pos)"
| "unmarshal_reads data (Suc n) i pos =
     (if pos + 2 > length data then Inl (TruncReadKeyLen i pos)
      else let kLen = uint16_at data pos; pos = pos + 2 in
        if pos + kLen + 8 + 1 > length data then Inl (TruncReadEntry i pos)
        else let re = \<lparr>rKey = take kLen (drop pos data), rEpoch = uint64_at data (pos + kLen),
                       rIsDebit = (data ! (pos + kLen + 8) \<noteq> 0)\<rparr> in
          (case unmarshal_reads data n (Suc i) (pos + kLen + 8 + 1) of
             Inl e \<Rightarrow> Inl e
           | Inr (res, pos') \<Rightarrow> Inr (re # res, pos')))"

primrec unmarshal_writes ::
  "bytes \<Rightarrow> nat \<Rightarrow> nat \<Rightarrow> nat \<Rightarrow> unmarshal_error + (WriteEntry list \<times> nat)" where
  "unmarshal_writes data 0 i pos = Inr ([], pos)"
| "unmarshal_writes data (Suc n) i pos =
     (if pos + 1 + 2 > length data then Inl (TruncWriteOp i pos)
      else let op = data ! pos; kLen = uint16_at data (pos + 1); pos = pos + 1 + 2 in
        if pos + kLen + 2 > length data then Inl (TruncWriteKey i pos)
        else let key = take kLen (drop pos data); vLen = uint16_at data (pos + kLen);
                 pos = pos + kLen + 2 in
          if pos + vLen > length data then Inl (TruncWriteValue i pos)
          else let w = \<lparr>wOp = op, wKey = key, wValue = take vLen (drop pos data)\<rparr> in
            (case unmarshal_writes data n (Suc i) (pos + vLen) of
               Inl e \<Rightarrow> Inl e
             | Inr (ws, pos') \<Rightarrow> Inr (w # ws, pos')))"

definition Unmarshal :: "Proposal \<Rightarrow> bytes \<Rightarrow> unmarshal_error + Proposal" where
  "Unmarshal p data =
     (if length data < minProposalBytes then
        (if data = [] then Inr p else Inl (ShortBuffer (length data)))
      else case unmarshal_reads data (uint16_at data 10) 0 12 of
        Inl e \<Rightarrow> Inl e
      | Inr (rs, pos) \<Rightarrow>
          if pos + 2 > length data then Inl (TruncWritesLen pos)
          else (case unmarshal_writes data (uint16_at data pos) 0 (pos + 2) of
            Inl e \<Rightarrow> Inl e
          | Inr (ws, pos') \<Rightarrow>
              Inr \<lparr>ReadSet = rs, Writes = ws, TimestampWall = uint64_at data 0,
                   TimestampCounter = le_get (take 2 (drop 8 data))\<rparr>))"

text \<open>The sizes the 16-bit length fields can carry.\<close>

definition wire_ok :: "Proposal \<Rightarrow> bool" where
  "wire_ok p \<longleftrightarrow> length (ReadSet p) < 65536 \<and> length (Writes p) < 65536
     \<and> (\<forall>re \<in> set (ReadSet p). length (rKey re) < 65536)
     \<and> (\<forall>w \<in> set (Writes p). length (wKey w) < 65536 \<and> length (wValue w) < 65536)"

declare unmarshal_reads.simps(2) [simp del] unmarshal_writes.simps(2) [simp del]

subsection \<open>Reading back what was written\<close>

lemma take_drop_mid: "n = length a \<Longrightarrow> pos = length pre \<Longrightarrow> take n (drop pos (pre @ a @ post)) = a"
  by simp

lemma nth_mid: "pos = length pre \<Longrightarrow> (pre @ x # post) ! pos = x"
  by simp

lemma uint16_at_put:
  "n < 65536 \<Longrightarrow> pos = length pre
    \<Longrightarrow> uint16_at (pre @ le_put 2 (word_of_nat n :: uint16) @ post) pos = n"
  by (simp add: uint16_at_def unat_of_nat)

lemma uint64_at_put: "pos = length pre \<Longrightarrow> uint64_at (pre @ le_put 8 v @ post) pos = v"
  by (simp add: uint64_at_def)

lemma length_marshal_entry [simp, codec_simps]:
  "length (marshal_read re) = 2 + length (rKey re) + 8 + 1"
  "length (marshal_write w) = 1 + 2 + length (wKey w) + 2 + length (wValue w)"
  by (simp_all add: marshal_read_def marshal_write_def)

lemma foldl_add_sum: "foldl (\<lambda>n x. n + f x) (a :: nat) xs = a + sum_list (map f xs)"
  by (induction xs arbitrary: a) auto

lemma length_Marshal: "length (Marshal p) = marshal_size p"
  unfolding marshal_size_def foldl_add_sum
  by (simp add: Marshal_def length_concat o_def)

text \<open>One round of each loop on a buffer that holds the entry at the cursor.\<close>

lemma unmarshal_read_at:
  assumes "length (rKey re) < 65536"
  shows "unmarshal_reads (pre @ marshal_read re @ post) (Suc n) i (length pre) =
    (case unmarshal_reads (pre @ marshal_read re @ post) n (Suc i) (length (pre @ marshal_read re)) of
       Inl e \<Rightarrow> Inl e | Inr (res, pos') \<Rightarrow> Inr (re # res, pos'))"
proof -
  let ?d = "pre @ marshal_read re @ post"
  let ?n = "word_of_nat (length (rKey re)) :: uint16"
  let ?f = "[if rIsDebit re then 1 else 0] @ post"
  have d: "?d = pre @ le_put 2 ?n @ rKey re @ le_put 8 (rEpoch re) @ ?f"
    "?d = (pre @ le_put 2 ?n) @ rKey re @ le_put 8 (rEpoch re) @ ?f"
    "?d = (pre @ le_put 2 ?n @ rKey re) @ le_put 8 (rEpoch re) @ ?f"
    "?d = (pre @ le_put 2 ?n @ rKey re @ le_put 8 (rEpoch re)) @ (if rIsDebit re then 1 else 0) # post"
    by (simp_all add: marshal_read_def)
  have k: "uint16_at ?d (length pre) = length (rKey re)"
    by (subst d(1)) (rule uint16_at_put [OF assms refl])
  have key: "take (length (rKey re)) (drop (length pre + 2) ?d) = rKey re"
    by (subst d(2)) (rule take_drop_mid, simp_all)
  have e: "uint64_at ?d (length pre + 2 + length (rKey re)) = rEpoch re"
    by (subst d(3)) (rule uint64_at_put, simp)
  have b: "?d ! (length pre + 2 + length (rKey re) + 8) = (if rIsDebit re then 1 else 0)"
    by (subst d(4)) (rule nth_mid, simp)
  have pos: "length pre + 2 + length (rKey re) + 8 + 1 = length (pre @ marshal_read re)"
    by simp
  have fits: "\<not> length pre + 2 > length ?d" "\<not> length (pre @ marshal_read re) > length ?d"
    by simp_all
  have re: "\<lparr>rKey = rKey re, rEpoch = rEpoch re,
      rIsDebit = ((if rIsDebit re then 1 else 0 :: byte) \<noteq> 0)\<rparr> = re"
    by (cases re) simp
  show ?thesis
    by (simp only: unmarshal_reads.simps Let_def k key e b pos fits if_False re)
qed

lemma unmarshal_write_at:
  assumes "length (wKey w) < 65536" "length (wValue w) < 65536"
  shows "unmarshal_writes (pre @ marshal_write w @ post) (Suc n) i (length pre) =
    (case unmarshal_writes (pre @ marshal_write w @ post) n (Suc i) (length (pre @ marshal_write w)) of
       Inl e \<Rightarrow> Inl e | Inr (ws, pos') \<Rightarrow> Inr (w # ws, pos'))"
proof -
  let ?d = "pre @ marshal_write w @ post"
  let ?n = "word_of_nat (length (wKey w)) :: uint16"
  let ?m = "word_of_nat (length (wValue w)) :: uint16"
  let ?p = "length pre + 1 + 2"
  have d: "?d = pre @ wOp w # (le_put 2 ?n @ wKey w @ le_put 2 ?m @ wValue w @ post)"
    "?d = (pre @ [wOp w]) @ le_put 2 ?n @ wKey w @ le_put 2 ?m @ wValue w @ post"
    "?d = (pre @ [wOp w] @ le_put 2 ?n) @ wKey w @ le_put 2 ?m @ wValue w @ post"
    "?d = (pre @ [wOp w] @ le_put 2 ?n @ wKey w) @ le_put 2 ?m @ wValue w @ post"
    "?d = (pre @ [wOp w] @ le_put 2 ?n @ wKey w @ le_put 2 ?m) @ wValue w @ post"
    by (simp_all add: marshal_write_def)
  have op: "?d ! length pre = wOp w"
    by (subst d(1)) (rule nth_mid [OF refl])
  have k: "uint16_at ?d (length pre + 1) = length (wKey w)"
    by (subst d(2)) (rule uint16_at_put [OF assms(1)], simp)
  have key: "take (length (wKey w)) (drop ?p ?d) = wKey w"
    by (subst d(3)) (rule take_drop_mid, simp_all)
  have v: "uint16_at ?d (?p + length (wKey w)) = length (wValue w)"
    by (subst d(4)) (rule uint16_at_put [OF assms(2)], simp)
  have val: "take (length (wValue w)) (drop (?p + length (wKey w) + 2) ?d) = wValue w"
    by (subst d(5)) (rule take_drop_mid, simp_all)
  have pos: "?p + length (wKey w) + 2 + length (wValue w) = length (pre @ marshal_write w)"
    by simp
  have fits: "\<not> length pre + 1 + 2 > length ?d" "\<not> ?p + length (wKey w) + 2 > length ?d"
    "\<not> length (pre @ marshal_write w) > length ?d"
    by simp_all
  have w: "\<lparr>wOp = wOp w, wKey = wKey w, wValue = wValue w\<rparr> = w"
    by (cases w) simp
  show ?thesis
    by (simp only: unmarshal_writes.simps Let_def op k key v val pos fits if_False w)
qed

lemma unmarshal_reads_marshal:
  "\<forall>re \<in> set rs. length (rKey re) < 65536 \<Longrightarrow>
   unmarshal_reads (pre @ concat (map marshal_read rs) @ post) (length rs) i (length pre)
    = Inr (rs, length (pre @ concat (map marshal_read rs)))"
proof (induction rs arbitrary: pre i)
  case Nil
  then show ?case by simp
next
  case (Cons re rs)
  have "unmarshal_reads ((pre @ marshal_read re) @ concat (map marshal_read rs) @ post)
      (length rs) (Suc i) (length (pre @ marshal_read re))
    = Inr (rs, length ((pre @ marshal_read re) @ concat (map marshal_read rs)))"
    using Cons.prems by (intro Cons.IH) simp
  then show ?case
    using Cons.prems by (simp add: unmarshal_read_at del: length_append length_marshal_entry)
qed

lemma unmarshal_writes_marshal:
  "\<forall>w \<in> set ws. length (wKey w) < 65536 \<and> length (wValue w) < 65536 \<Longrightarrow>
   unmarshal_writes (pre @ concat (map marshal_write ws) @ post) (length ws) i (length pre)
    = Inr (ws, length (pre @ concat (map marshal_write ws)))"
proof (induction ws arbitrary: pre i)
  case Nil
  then show ?case by simp
next
  case (Cons w ws)
  have "unmarshal_writes ((pre @ marshal_write w) @ concat (map marshal_write ws) @ post)
      (length ws) (Suc i) (length (pre @ marshal_write w))
    = Inr (ws, length ((pre @ marshal_write w) @ concat (map marshal_write ws)))"
    using Cons.prems by (intro Cons.IH) simp
  then show ?case
    using Cons.prems by (simp add: unmarshal_write_at del: length_append length_marshal_entry)
qed

subsection \<open>What a successful decode consumed\<close>

lemma uint_at_append:
  "pos + 2 \<le> length data \<Longrightarrow> uint16_at (data @ ext) pos = uint16_at data pos"
  "pos + 8 \<le> length data \<Longrightarrow> uint64_at (data @ ext) pos = uint64_at data pos"
  by (simp_all add: uint16_at_def uint64_at_def)

lemma unmarshal_reads_ext:
  "unmarshal_reads data n i pos = Inr (rs, pos') \<Longrightarrow> pos \<le> length data \<Longrightarrow>
   unmarshal_reads (data @ ext) n i pos = Inr (rs, pos') \<and> pos' \<le> length data
     \<and> length rs = n \<and> pos' = pos + length (concat (map marshal_read rs))"
proof (induction n arbitrary: i pos rs)
  case 0
  then show ?case by simp
next
  case (Suc n)
  let ?k = "uint16_at data pos"
  let ?p = "pos + 2 + ?k + 8 + 1"
  from Suc.prems(1) have bnd: "pos + 2 \<le> length data" "?p \<le> length data"
    by (auto simp: unmarshal_reads.simps(2) Let_def split: if_splits)
  from Suc.prems(1) bnd obtain re rs' where
    rec: "unmarshal_reads data n (Suc i) ?p = Inr (rs', pos')" and rs: "rs = re # rs'" and
    re: "re = \<lparr>rKey = take ?k (drop (pos + 2) data), rEpoch = uint64_at data (pos + 2 + ?k),
              rIsDebit = (data ! (pos + 2 + ?k + 8) \<noteq> 0)\<rparr>"
    by (auto simp: unmarshal_reads.simps(2) Let_def split: sum.splits)
  have "length (rKey re) = ?k" using bnd by (simp add: re)
  with Suc.IH [OF rec bnd(2)] bnd show ?case
    by (simp add: unmarshal_reads.simps(2) Let_def rs uint_at_append nth_append)
      (simp add: re uint_at_append nth_append)
qed

lemma unmarshal_writes_ext:
  "unmarshal_writes data n i pos = Inr (ws, pos') \<Longrightarrow> pos \<le> length data \<Longrightarrow>
   unmarshal_writes (data @ ext) n i pos = Inr (ws, pos') \<and> pos' \<le> length data
     \<and> length ws = n \<and> pos' = pos + length (concat (map marshal_write ws))"
proof (induction n arbitrary: i pos ws)
  case 0
  then show ?case by simp
next
  case (Suc n)
  let ?k = "uint16_at data (pos + 1)"
  let ?v = "uint16_at data (pos + 1 + 2 + ?k)"
  let ?p = "pos + 1 + 2 + ?k + 2 + ?v"
  from Suc.prems(1) have bnd: "pos + 1 + 2 \<le> length data" "pos + 1 + 2 + ?k + 2 \<le> length data"
    "?p \<le> length data"
    by (auto simp: unmarshal_writes.simps(2) Let_def split: if_splits)
  from Suc.prems(1) bnd obtain w ws' where
    rec: "unmarshal_writes data n (Suc i) ?p = Inr (ws', pos')" and ws: "ws = w # ws'" and
    w: "w = \<lparr>wOp = data ! pos, wKey = take ?k (drop (pos + 1 + 2) data),
             wValue = take ?v (drop (pos + 1 + 2 + ?k + 2) data)\<rparr>"
    by (auto simp: unmarshal_writes.simps(2) Let_def split: sum.splits)
  have "length (wKey w) = ?k" "length (wValue w) = ?v" using bnd by (simp_all add: w)
  with Suc.IH [OF rec bnd(3)] bnd show ?case
    by (simp add: unmarshal_writes.simps(2) Let_def ws uint_at_append nth_append)
      (simp add: w uint_at_append nth_append)
qed

lemma Unmarshal_ext:
  assumes "Unmarshal q data = Inr p" "data \<noteq> []"
  shows "Unmarshal q (data @ ext) = Inr p \<and> marshal_size p \<le> length data"
proof -
  from assms have len: "14 \<le> length data"
    by (auto simp: Unmarshal_def minProposalBytes_def split: if_splits)
  with assms obtain rs pos ws pos' where
    rs: "unmarshal_reads data (uint16_at data 10) 0 12 = Inr (rs, pos)" and
    pos: "pos + 2 \<le> length data" and
    ws: "unmarshal_writes data (uint16_at data pos) 0 (pos + 2) = Inr (ws, pos')" and
    p: "p = \<lparr>ReadSet = rs, Writes = ws, TimestampWall = uint64_at data 0,
          TimestampCounter = le_get (take 2 (drop 8 data))\<rparr>"
    by (auto simp: Unmarshal_def minProposalBytes_def split: sum.splits if_splits)
  have "12 \<le> length data" using len by simp
  note R = unmarshal_reads_ext [OF rs this, of ext] and W = unmarshal_writes_ext [OF ws pos, of ext]
  have "marshal_size p \<le> length data"
    using R W by (simp add: p Marshal_def flip: length_Marshal)
  moreover have "Unmarshal q (data @ ext) = Inr p"
    using len R W pos by (simp add: Unmarshal_def minProposalBytes_def uint_at_append p)
  ultimately show ?thesis by blast
qed

subsection \<open>The wire format round-trips\<close>

lemma Unmarshal_Marshal:
  assumes "wire_ok p"
  shows "Unmarshal q (Marshal p) = Inr p"
proof -
  let ?n = "word_of_nat (length (ReadSet p)) :: uint16"
  let ?m = "word_of_nat (length (Writes p)) :: uint16"
  let ?hd = "le_put 8 (TimestampWall p) @ le_put 2 (TimestampCounter p)"
  let ?R = "concat (map marshal_read (ReadSet p))"
  let ?W = "concat (map marshal_write (Writes p))"
  let ?d = "Marshal p"
  from assms have len: "length (ReadSet p) < 65536" "length (Writes p) < 65536"
    and rk: "\<forall>re \<in> set (ReadSet p). length (rKey re) < 65536"
    and wk: "\<forall>w \<in> set (Writes p). length (wKey w) < 65536 \<and> length (wValue w) < 65536"
    by (simp_all add: wire_ok_def)
  have d: "?d = ?hd @ le_put 2 ?n @ ?R @ le_put 2 ?m @ ?W"
    "?d = (?hd @ le_put 2 ?n) @ ?R @ le_put 2 ?m @ ?W"
    "?d = (?hd @ le_put 2 ?n @ ?R) @ le_put 2 ?m @ ?W"
    "?d = (?hd @ le_put 2 ?n @ ?R @ le_put 2 ?m) @ ?W @ []"
    by (simp_all add: Marshal_def)
  have n: "uint16_at ?d 10 = length (ReadSet p)"
    by (subst d(1)) (rule uint16_at_put [OF len(1)], simp)
  have m: "uint16_at ?d (12 + length ?R) = length (Writes p)"
    by (subst d(3)) (rule uint16_at_put [OF len(2)], simp)
  have R: "unmarshal_reads ?d (length (ReadSet p)) 0 12 = Inr (ReadSet p, 12 + length ?R)"
    using unmarshal_reads_marshal [OF rk, of "?hd @ le_put 2 ?n" "le_put 2 ?m @ ?W" 0]
    by (subst d(2)) simp
  have W: "unmarshal_writes ?d (length (Writes p)) 0 (14 + length ?R)
      = Inr (Writes p, 14 + length ?R + length ?W)"
    using unmarshal_writes_marshal [OF wk, of "?hd @ le_put 2 ?n @ ?R @ le_put 2 ?m" "[]" 0]
    by (subst d(4)) simp
  have h: "uint64_at ?d 0 = TimestampWall p" "le_get (take 2 (drop 8 ?d)) = TimestampCounter p"
    by (simp_all add: uint64_at_def Marshal_def)
  have l: "length ?d = 14 + length ?R + length ?W" by (simp add: Marshal_def)
  then have "?d \<noteq> []" by auto
  with l show ?thesis
    by (simp add: Unmarshal_def minProposalBytes_def n m R W h)
qed

text \<open>
  C39. Decoding what \<open>Marshal\<close> encoded gives the proposal back, whatever the receiver held
  before, and \<open>Marshal\<close> writes exactly the number of bytes it allocated, for every proposal
  whose entry counts, keys and values fit the 16-bit length fields of the wire format.
\<close>

theorem Unmarshal_Marshal_roundtrip:
  "wire_ok p \<Longrightarrow> Unmarshal q (Marshal p) = Inr p \<and> length (Marshal p) = marshal_size p"
  by (simp add: Unmarshal_Marshal length_Marshal)

definition sample_proposal :: Proposal where
  "sample_proposal =
     \<lparr>ReadSet = [\<lparr>rKey = [97], rEpoch = 7, rIsDebit = True\<rparr>],
      Writes = [\<lparr>wOp = OpSet, wKey = [97], wValue = [1, 2]\<rparr>, \<lparr>wOp = OpDelete, wKey = [98], wValue = []\<rparr>],
      TimestampWall = 5, TimestampCounter = 1\<rparr>"

theorem Unmarshal_Marshal_roundtrip_witness:
  "wire_ok sample_proposal
   \<and> Unmarshal zero_proposal (Marshal sample_proposal) = Inr sample_proposal
   \<and> length (Marshal sample_proposal) = marshal_size sample_proposal"
proof -
  have "wire_ok sample_proposal" by (simp add: wire_ok_def sample_proposal_def)
  with Unmarshal_Marshal_roundtrip [OF this, of zero_proposal] show ?thesis by simp
qed

text \<open>
  A truncated message is always rejected: every proper, non-empty prefix of an encoded
  proposal makes \<open>Unmarshal\<close> return an error, never a proposal with missing entries.
\<close>

theorem Unmarshal_truncated_fails:
  assumes "wire_ok p" "0 < n" "n < length (Marshal p)"
  shows "\<exists>e. Unmarshal q (take n (Marshal p)) = Inl e"
proof (cases "Unmarshal q (take n (Marshal p))")
  case (Inl e)
  then show ?thesis by blast
next
  case (Inr p')
  have "take n (Marshal p) \<noteq> []" using assms(2,3) by auto
  with Unmarshal_ext [OF Inr this, of "drop n (Marshal p)"] assms(3)
  have "Unmarshal q (Marshal p) = Inr p'" and size: "marshal_size p' \<le> n"
    by simp_all
  then have "p' = p" using Unmarshal_Marshal [OF assms(1), of q] by simp
  with size assms(3) show ?thesis by (simp add: length_Marshal)
qed

theorem Unmarshal_truncated_fails_witness:
  "\<exists>e. Unmarshal zero_proposal (take 20 (Marshal sample_proposal)) = Inl e"
  by (rule Unmarshal_truncated_fails)
    (simp_all add: wire_ok_def sample_proposal_def length_Marshal marshal_size_def)

text \<open>
  The length fields are truncated silently: a write whose value is 65536 bytes long is
  encoded without complaint and decodes, without an error, to the same write with an empty
  value.
\<close>

theorem Marshal_oversize_value_lost:
  assumes "length k < 65536" "length v = 65536"
  shows "Unmarshal q (Marshal \<lparr>ReadSet = [], Writes = [\<lparr>wOp = OpSet, wKey = k, wValue = v\<rparr>],
             TimestampWall = t, TimestampCounter = c\<rparr>)
       = Inr \<lparr>ReadSet = [], Writes = [\<lparr>wOp = OpSet, wKey = k, wValue = []\<rparr>],
             TimestampWall = t, TimestampCounter = c\<rparr>"
    (is "Unmarshal q (Marshal ?p) = Inr ?p'")
proof -
  have "(word_of_nat (length v) :: uint16) = 0"
    using assms(2) by simp
  then have "Marshal ?p = Marshal ?p' @ v"
    by (simp add: Marshal_def marshal_write_def)
  moreover have "Unmarshal q (Marshal ?p') = Inr ?p'"
    using assms(1) by (intro Unmarshal_Marshal) (simp add: wire_ok_def)
  moreover have "Marshal ?p' \<noteq> []" by (simp add: Marshal_def)
  ultimately show ?thesis using Unmarshal_ext [of q "Marshal ?p'" ?p' v] by simp
qed

theorem Marshal_oversize_value_lost_witness:
  "Unmarshal zero_proposal (Marshal \<lparr>ReadSet = [], Writes = [\<lparr>wOp = OpSet, wKey = [107],
       wValue = replicate 65536 1\<rparr>], TimestampWall = 0, TimestampCounter = 0\<rparr>)
   = Inr \<lparr>ReadSet = [], Writes = [\<lparr>wOp = OpSet, wKey = [107], wValue = []\<rparr>],
       TimestampWall = 0, TimestampCounter = 0\<rparr>"
  by (rule Marshal_oversize_value_lost) (simp, rule length_replicate)

end
