(* ===== verification/Dump.thy ===== *)
theory Dump
  imports Proposal_Codec
begin

text \<open>
  The checkpoint files: \<open>src/engine/memory/dump.go\<close> (also used by the MVCC engine) and
  \<open>src/engine/badger/dump.go\<close>. The encoders iterate over a Go map, in whatever order: the
  model takes the entries as an association list. The two decoders share their loop, which
  keeps the source's cursor and bounds checks.
\<close>

type_synonym data_map = "(bytes \<times> bytes) list"

definition dump_entry :: "bytes \<times> bytes \<Rightarrow> bytes" where
  "dump_entry e = (case e of (k, v) \<Rightarrow>
     le_put 2 (word_of_nat (length k) :: uint16) @ k
       @ le_put 4 (word_of_nat (length v) :: uint32) @ v)"

definition encodeDump :: "data_map \<Rightarrow> uint64 \<Rightarrow> bytes" where
  "encodeDump data applied =
     le_put 8 applied @ le_put 8 (word_of_nat (length data) :: uint64)
       @ concat (map dump_entry data)"

definition dump_size :: "data_map \<Rightarrow> nat" where
  "dump_size data = foldl (\<lambda>size (k, v). size + (2 + length k + 4 + length v)) (8 + 8) data"

datatype dump_error =
    DumpShortHeader nat
  | DumpTruncKeyLen nat
  | DumpTruncKey nat
  | DumpTruncVal nat

definition uint32_at :: "bytes \<Rightarrow> nat \<Rightarrow> nat" where
  "uint32_at buf pos = unat (le_get (take 4 (drop pos buf)) :: uint32)"

primrec decode_entries :: "bytes \<Rightarrow> nat \<Rightarrow> nat \<Rightarrow> nat \<Rightarrow> data_map \<Rightarrow> dump_error + data_map" where
  "decode_entries buf 0 i pos data = Inr data"
| "decode_entries buf (Suc n) i pos data =
     (if pos + 2 > length buf then Inl (DumpTruncKeyLen i)
      else let kLen = uint16_at buf pos; pos1 = pos + 2 in
        if pos1 + kLen + 4 > length buf then Inl (DumpTruncKey i)
        else let k = take kLen (drop pos1 buf); vLen = uint32_at buf (pos1 + kLen);
                 pos2 = pos1 + kLen + 4 in
          if pos2 + vLen > length buf then Inl (DumpTruncVal i)
          else decode_entries buf n (Suc i) (pos2 + vLen)
                 (AList.update k (take vLen (drop pos2 buf)) data))"

definition decodeDump :: "bytes \<Rightarrow> dump_error + (data_map \<times> uint64)" where
  "decodeDump buf =
     (if buf = [] then Inr ([], 0)
      else if length buf < 16 then Inl (DumpShortHeader (length buf))
      else case decode_entries buf (unat (uint64_at buf 8)) 0 16 [] of
        Inl e \<Rightarrow> Inl e
      | Inr data \<Rightarrow> Inr (data, uint64_at buf 0))"

definition badger_encodeDump :: "data_map \<Rightarrow> bytes" where
  "badger_encodeDump data =
     le_put 8 (word_of_nat (length data) :: uint64) @ concat (map dump_entry data)"

definition badger_decodeDump :: "bytes \<Rightarrow> dump_error + data_map" where
  "badger_decodeDump buf =
     (if buf = [] then Inr []
      else if length buf < 8 then Inl (DumpShortHeader (length buf))
      else decode_entries buf (unat (uint64_at buf 0)) 0 8 [])"

text \<open>What the length fields of the format can carry, for a map with distinct keys.\<close>

definition dump_ok :: "data_map \<Rightarrow> bool" where
  "dump_ok data \<longleftrightarrow> distinct (map fst data) \<and> length data < 2 ^ 64
     \<and> (\<forall>(k, v) \<in> set data. length k < 65536 \<and> length v < 2 ^ 32)"

declare decode_entries.simps(2) [simp del]

lemma length_dump_entry [simp, codec_simps]:
  "length (dump_entry (k, v)) = 2 + length k + 4 + length v"
  by (simp add: dump_entry_def)

lemma length_encodeDump: "length (encodeDump data applied) = dump_size data"
proof -
  have "foldl (\<lambda>size (k, v). size + (2 + length k + 4 + length v)) a data
      = a + length (concat (map dump_entry data))" for a
    by (induction data arbitrary: a) (auto simp: dump_entry_def)
  then show ?thesis by (simp add: encodeDump_def dump_size_def)
qed

lemma uint32_at_put:
  "n < 2 ^ 32 \<Longrightarrow> pos = length pre
    \<Longrightarrow> uint32_at (pre @ le_put 4 (word_of_nat n :: uint32) @ post) pos = n"
  by (simp add: uint32_at_def unat_of_nat)

lemma decode_entry_at:
  assumes "length k < 65536" "length v < 2 ^ 32"
  shows "decode_entries (pre @ dump_entry (k, v) @ post) (Suc n) i (length pre) data =
    decode_entries (pre @ dump_entry (k, v) @ post) n (Suc i) (length (pre @ dump_entry (k, v)))
      (AList.update k v data)"
proof -
  let ?b = "pre @ dump_entry (k, v) @ post"
  let ?n = "word_of_nat (length k) :: uint16"
  let ?m = "word_of_nat (length v) :: uint32"
  let ?p = "length pre + 2"
  have b: "?b = pre @ le_put 2 ?n @ k @ le_put 4 ?m @ v @ post"
    "?b = (pre @ le_put 2 ?n) @ k @ le_put 4 ?m @ v @ post"
    "?b = (pre @ le_put 2 ?n @ k) @ le_put 4 ?m @ v @ post"
    "?b = (pre @ le_put 2 ?n @ k @ le_put 4 ?m) @ v @ post"
    by (simp_all add: dump_entry_def)
  have kl: "uint16_at ?b (length pre) = length k"
    by (subst b(1)) (rule uint16_at_put [OF assms(1) refl])
  have key: "take (length k) (drop ?p ?b) = k"
    by (subst b(2)) (rule take_drop_mid, simp_all)
  have vl: "uint32_at ?b (?p + length k) = length v"
    by (subst b(3)) (rule uint32_at_put [OF assms(2)], simp)
  have val: "take (length v) (drop (?p + length k + 4) ?b) = v"
    by (subst b(4)) (rule take_drop_mid, simp_all)
  have pos: "?p + length k + 4 + length v = length (pre @ dump_entry (k, v))"
    by simp
  have fits: "\<not> ?p > length ?b" "\<not> ?p + length k + 4 > length ?b"
    "\<not> length (pre @ dump_entry (k, v)) > length ?b"
    by simp_all
  show ?thesis
    by (simp only: decode_entries.simps(2) Let_def kl key vl val pos fits if_False)
qed

lemma decode_entries_dump:
  "\<forall>(k, v) \<in> set xs. length k < 65536 \<and> length v < 2 ^ 32 \<Longrightarrow>
   distinct (map fst (data @ xs)) \<Longrightarrow>
   decode_entries (pre @ concat (map dump_entry xs)) (length xs) i (length pre) data
     = Inr (data @ xs)"
proof (induction xs arbitrary: pre i data)
  case Nil
  then show ?case by simp
next
  case (Cons e xs)
  obtain k v where e: "e = (k, v)" by (cases e)
  have up: "AList.update k v data = data @ [(k, v)]"
    using Cons.prems(2) by (intro AList_update_fresh) (auto simp: e)
  have "decode_entries ((pre @ dump_entry (k, v)) @ concat (map dump_entry xs)) (length xs) (Suc i)
      (length (pre @ dump_entry (k, v))) (data @ [(k, v)]) = Inr ((data @ [(k, v)]) @ xs)"
    using Cons.prems by (intro Cons.IH) (auto simp: e)
  then show ?case
    using Cons.prems(1)
    by (simp add: e decode_entry_at up del: length_append length_dump_entry)
qed

lemma decodeDump_encode: "dump_ok data \<Longrightarrow> decodeDump (encodeDump data applied) = Inr (data, applied)"
proof -
  assume ok: "dump_ok data"
  let ?h = "le_put 8 applied @ le_put 8 (word_of_nat (length data) :: uint64)"
  let ?b = "encodeDump data applied"
  have b: "?b = ?h @ concat (map dump_entry data)"
    "?b = le_put 8 applied @ le_put 8 (word_of_nat (length data) :: uint64) @ concat (map dump_entry data)"
    by (simp_all add: encodeDump_def)
  have "uint64_at ?b 8 = word_of_nat (length data)"
    by (subst b(2)) (rule uint64_at_put, simp)
  then have n: "unat (uint64_at ?b 8) = length data"
    using ok by (simp add: dump_ok_def unat_of_nat)
  have a: "uint64_at ?b 0 = applied"
    by (simp add: uint64_at_def encodeDump_def)
  have "decode_entries ?b (length data) 0 (length ?h) [] = Inr ([] @ data)"
    using ok by (subst b(1)) (intro decode_entries_dump, auto simp: dump_ok_def)
  moreover have "length ?b \<ge> 16" "?b \<noteq> []" by (simp_all add: encodeDump_def)
  ultimately show ?thesis
    by (simp add: decodeDump_def n a)
qed

lemma badger_decodeDump_encode: "dump_ok data \<Longrightarrow> badger_decodeDump (badger_encodeDump data) = Inr data"
proof -
  assume ok: "dump_ok data"
  let ?h = "le_put 8 (word_of_nat (length data) :: uint64)"
  let ?b = "badger_encodeDump data"
  have "uint64_at ?b 0 = word_of_nat (length data)"
    by (simp add: uint64_at_def badger_encodeDump_def)
  then have n: "unat (uint64_at ?b 0) = length data"
    using ok by (simp add: dump_ok_def unat_of_nat)
  have "decode_entries ?b (length data) 0 (length ?h) [] = Inr ([] @ data)"
    unfolding badger_encodeDump_def
    using ok by (intro decode_entries_dump) (auto simp: dump_ok_def)
  moreover have "length ?b \<ge> 8" "?b \<noteq> []" by (simp_all add: badger_encodeDump_def)
  ultimately show ?thesis
    by (simp add: badger_decodeDump_def n)
qed

lemma decode_entries_past_end:
  "n \<noteq> 0 \<Longrightarrow> pos + 2 > length buf \<Longrightarrow> decode_entries buf n i pos data = Inl (DumpTruncKeyLen i)"
  by (cases n) (simp_all add: decode_entries.simps(2))

text \<open>
  A checkpoint file read back gives exactly the key-value pairs and the applied index
  that were dumped, in the memory engine's format and, without the index, in Badger's; the
  encoder fills exactly the buffer it allocated.
\<close>

theorem dump_roundtrip:
  "dump_ok data \<Longrightarrow>
     decodeDump (encodeDump data applied) = Inr (data, applied)
     \<and> badger_decodeDump (badger_encodeDump data) = Inr data
     \<and> length (encodeDump data applied) = dump_size data"
  by (simp add: decodeDump_encode badger_decodeDump_encode length_encodeDump)

theorem dump_roundtrip_witness:
  "dump_ok [([97], [1, 2]), ([98], [])]
   \<and> decodeDump (encodeDump [([97], [1, 2]), ([98], [])] 9) = Inr ([([97], [1, 2]), ([98], [])], 9)"
proof -
  have "dump_ok [([97], [1, 2]), ([98], [])]" by (simp add: dump_ok_def)
  with dump_roundtrip [OF this, of 9] show ?thesis by blast
qed

text \<open>
  The two dump formats are not interchangeable: Badger's dump of an empty database is
  rejected by the memory engine's decoder as too short, and its dump of a one-entry database
  is misread (the entry count is taken for the applied index) and rejected as truncated.
\<close>

theorem badger_dump_not_memory_dump:
  "decodeDump (badger_encodeDump []) = Inl (DumpShortHeader 8)
   \<and> decodeDump (badger_encodeDump [([97], [1])]) = Inl (DumpTruncKeyLen 0)"
proof -
  have b: "badger_encodeDump [([97], [1])] = [1, 0, 0, 0, 0, 0, 0, 0, 1, 0, 97, 1, 0, 0, 0, 1]"
    by (simp add: badger_encodeDump_def dump_entry_def le_put_numeral)
  have "unat (uint64_at (badger_encodeDump [([97], [1])]) 8) \<noteq> 0"
    by (simp add: b uint64_at_def)
  then show ?thesis
    by (simp add: decodeDump_def badger_encodeDump_def decode_entries_past_end)
qed

end
