(* ===== verification/Engine_Spec.thy ===== *)
theory Engine_Spec
  imports Dump
begin

text \<open>
  The storage interface of \<open>src/engine/engine.go\<close>: the batch a client fills through
  \<open>Set\<close>, \<open>Delete\<close> and \<open>Merge\<close>, the materialised iterator the in-process engines return, and
  the operations of \<open>StorageEngine\<close> and \<open>Snapshot\<close> as a record of functions over an engine
  state \<open>'e\<close> and a snapshot \<open>'s\<close>. What the interface's comments promise is the locale
  \<open>storage_engine\<close>, stated against the abstract contents of a store, a map from keys to
  values; \<open>scanning_engine\<close> adds the promise of \<open>RawIter\<close>. Each engine theory interprets the
  locale it satisfies on its own operations.
\<close>

subsection \<open>Batches and their effect on an abstract store\<close>

datatype batch_call = BSet bytes bytes | BDelete bytes | BMerge bytes bytes

type_synonym batch = "batch_call list"
type_synonym kv = "bytes \<rightharpoonup> bytes"

datatype engine_error = ErrKeyNotFound | BackendError string

primrec call_key :: "batch_call \<Rightarrow> bytes" where
  "call_key (BSet k v) = k"
| "call_key (BDelete k) = k"
| "call_key (BMerge k d) = k"

text \<open>The contents of one key after one call; a merge on an absent key starts from zero.\<close>

primrec call_effect :: "bytes option \<Rightarrow> batch_call \<Rightarrow> bytes option" where
  "call_effect x (BSet k v) = Some v"
| "call_effect x (BDelete k) = None"
| "call_effect x (BMerge k d) = Some (mergeInt64 (case x of None \<Rightarrow> [] | Some b \<Rightarrow> b) d)"

definition kv_call :: "kv \<Rightarrow> batch_call \<Rightarrow> kv" where
  "kv_call m c = m(call_key c := call_effect (m (call_key c)) c)"

definition kv_apply :: "kv \<Rightarrow> batch \<Rightarrow> kv" where
  "kv_apply m b = foldl kv_call m b"

definition kv_result :: "bytes option \<Rightarrow> engine_error + bytes" where
  "kv_result x = (case x of None \<Rightarrow> Inl ErrKeyNotFound | Some v \<Rightarrow> Inr v)"

lemma kv_result_simps [simp]:
  "kv_result None = Inl ErrKeyNotFound" "kv_result (Some v) = Inr v"
  "kv_result a = kv_result b \<longleftrightarrow> a = b"
  by (simp_all add: kv_result_def split: option.splits)

lemma kv_apply_simps [simp]:
  "kv_apply m [] = m" "kv_apply m (c # b) = kv_apply (kv_call m c) b"
  "kv_apply m (b @ b') = kv_apply (kv_apply m b) b'"
  by (simp_all add: kv_apply_def)

lemma kv_call_at: "kv_call m c k = (if call_key c = k then call_effect (m k) c else m k)"
  by (simp add: kv_call_def)

text \<open>A key's contents after a batch depend on that key's contents and calls only.\<close>

lemma kv_apply_key:
  "kv_apply m b k = foldl call_effect (m k) (filter (\<lambda>c. call_key c = k) b)"
  by (induction b arbitrary: m) (simp_all add: kv_call_at)

lemma kv_apply_untouched: "k \<notin> call_key ` set b \<Longrightarrow> kv_apply m b k = m k"
proof -
  assume "k \<notin> call_key ` set b"
  then have "filter (\<lambda>c. call_key c = k) b = []"
    by (auto simp: filter_empty_conv)
  then show ?thesis by (simp add: kv_apply_key)
qed

lemma finite_dom_kv_apply: "finite (dom m) \<Longrightarrow> finite (dom (kv_apply m b))"
proof (induction b arbitrary: m)
  case (Cons c b)
  have "dom (kv_call m c) \<subseteq> insert (call_key c) (dom m)"
    by (auto simp: kv_call_def split: if_splits)
  with Cons show ?case by (auto dest: finite_subset)
qed simp

subsection \<open>Ordered contents\<close>

text \<open>
  Key ranges: a scan over \<open>[start, end)\<close>, where an empty \<open>end\<close> means no upper bound, as in
  every \<open>NewIter\<close> and \<open>RawIter\<close>.
\<close>

definition in_range :: "bytes \<Rightarrow> bytes \<Rightarrow> bytes \<Rightarrow> bool" where
  "in_range start stop k \<longleftrightarrow> \<not> k < start \<and> (stop = [] \<or> \<not> stop \<le> k)"

lemma in_range_all [simp]: "in_range [] [] k"
  by (simp add: in_range_def)

text \<open>The ordered listing of an abstract store that a correct scan returns.\<close>

definition lists_kv :: "data_map \<Rightarrow> kv \<Rightarrow> bool" where
  "lists_kv xs m \<longleftrightarrow> sorted_wrt (<) (map fst xs) \<and> map_of xs = m"

lemma sorted_wrt_less_distinct: "sorted_wrt (<) (xs :: 'a::linorder list) \<Longrightarrow> distinct xs"
  by (induction xs) auto

lemma lists_kv_set: "lists_kv xs m \<Longrightarrow> set xs = {(k, v). m k = Some v}"
  by (auto simp: lists_kv_def sorted_wrt_less_distinct)

lemma lists_kv_unique:
  assumes "lists_kv xs m" "lists_kv ys m"
  shows "xs = ys"
proof -
  have s: "sorted (map fst xs)" "distinct (map fst xs)" "sorted (map fst ys)" "distinct (map fst ys)"
    using assms by (auto simp: lists_kv_def strict_sorted_iff)
  have "set xs = {(k, v). m k = Some v}" "set ys = {(k, v). m k = Some v}"
    using assms by (simp_all add: lists_kv_set)
  moreover from this have "inj_on fst (set xs \<union> set ys)"
    by (auto simp: inj_on_def)
  ultimately show ?thesis
    using s by (auto intro: map_sorted_distinct_set_unique)
qed

definition restrict_kv :: "kv \<Rightarrow> (bytes \<Rightarrow> bool) \<Rightarrow> kv" where
  "restrict_kv m P = (\<lambda>k. if P k then m k else None)"

lemma map_of_filter_key:
  "distinct (map fst xs) \<Longrightarrow> map_of (filter (\<lambda>(k, v). P k) xs) = restrict_kv (map_of xs) P"
proof (induction xs)
  case (Cons e xs)
  then show ?case
    by (cases e) (auto simp: restrict_kv_def fun_eq_iff map_of_eq_None_iff image_iff
        dest: map_of_SomeD)
qed (simp add: restrict_kv_def)

lemma sorted_wrt_filter_key:
  "sorted_wrt (<) (map fst xs) \<Longrightarrow> sorted_wrt (<) (map fst (filter P xs))"
  by (induction xs) auto

lemma lists_kv_filter:
  "lists_kv xs m \<Longrightarrow> lists_kv (filter (\<lambda>(k, v). P k) xs) (restrict_kv m P)"
  by (auto simp: lists_kv_def map_of_filter_key sorted_wrt_less_distinct sorted_wrt_filter_key)

lemma lists_kv_sort:
  assumes "distinct (map fst xs)"
  shows "lists_kv (sort_key fst xs) (map_of xs)"
proof -
  have d: "distinct (map fst (sort_key fst xs))"
    using assms by (simp add: distinct_map)
  then have "map_of (sort_key fst xs) = map_of xs"
    using assms by (auto simp: map_of_inject_set)
  with d show ?thesis by (simp add: lists_kv_def strict_sorted_iff)
qed

lemma lists_kv_sort_set:
  assumes "distinct (map fst xs)" "\<And>k v. (k, v) \<in> set xs \<longleftrightarrow> m k = Some v"
  shows "lists_kv (sort_key fst xs) m"
proof -
  have "map_of xs k = m k" for k
    using assms by (metis map_of_eq_Some_iff not_None_eq)
  then have "map_of xs = m" ..
  with lists_kv_sort [OF assms(1)] show ?thesis by simp
qed

lemma takeWhile_sorted_filter:
  "sorted_wrt (<) (map fst xs) \<Longrightarrow>
   takeWhile (\<lambda>(k, v). \<not> stop \<le> k) xs = filter (\<lambda>(k, v). \<not> (stop :: bytes) \<le> k) xs"
proof (induction xs)
  case (Cons e xs)
  show ?case
  proof (cases "stop \<le> fst e")
    case True
    then have "\<forall>x \<in> set xs. stop \<le> fst x" using Cons.prems by force
    then have "filter (\<lambda>x. \<not> stop \<le> fst x) xs = []"
      by (auto simp: filter_empty_conv)
    with True show ?thesis by (simp add: case_prod_beta)
  next
    case False
    with Cons show ?thesis by (simp add: case_prod_beta)
  qed
qed simp

subsection \<open>Materialised iterators\<close>

text \<open>
  \<open>memIter\<close>, \<open>mvccIter\<close> and \<open>oshodiIter\<close> are the same cursor over a slice of pairs; the
  cursor starts at -1.
\<close>

record memIter =
  it_pairs :: data_map
  it_pos :: int

definition new_iter :: "data_map \<Rightarrow> memIter" where
  "new_iter pairs = \<lparr>it_pairs = pairs, it_pos = -1\<rparr>"

definition it_First :: "memIter \<Rightarrow> bool \<times> memIter" where
  "it_First it = (0 < length (it_pairs it), it\<lparr>it_pos := 0\<rparr>)"

definition it_Next :: "memIter \<Rightarrow> bool \<times> memIter" where
  "it_Next it = (it_pos it + 1 < int (length (it_pairs it)), it\<lparr>it_pos := it_pos it + 1\<rparr>)"

definition it_Prev :: "memIter \<Rightarrow> bool \<times> memIter" where
  "it_Prev it =
     (if it_pos it \<le> 0 then (False, it\<lparr>it_pos := -1\<rparr>)
      else (True, it\<lparr>it_pos := it_pos it - 1\<rparr>))"

definition it_Valid :: "memIter \<Rightarrow> bool" where
  "it_Valid it \<longleftrightarrow> it_pos it \<ge> 0 \<and> it_pos it < int (length (it_pairs it))"

text \<open>\<open>Key\<close> and \<open>Value\<close> return nil, the empty slice, off the ends.\<close>

definition it_Key :: "memIter \<Rightarrow> bytes" where
  "it_Key it = (if it_Valid it then fst (it_pairs it ! nat (it_pos it)) else [])"

definition it_Value :: "memIter \<Rightarrow> bytes" where
  "it_Value it = (if it_Valid it then snd (it_pairs it ! nat (it_pos it)) else [])"

subsection \<open>The interface\<close>

record ('e, 's) StorageEngine =
  eGet :: "'e \<Rightarrow> bytes \<Rightarrow> engine_error + bytes"
  eGetSnapshot :: "'e \<Rightarrow> 's \<times> 'e"
  eApplyBatch :: "'e \<Rightarrow> batch \<Rightarrow> bool \<Rightarrow> engine_error option \<times> 'e"
  eSync :: "'e \<Rightarrow> engine_error option \<times> 'e"
  eCurrentSequence :: "'e \<Rightarrow> uint64"
  eRawIter :: "'e \<Rightarrow> bytes \<Rightarrow> bytes \<Rightarrow> memIter"
  sGet :: "'e \<Rightarrow> 's \<Rightarrow> bytes \<Rightarrow> engine_error + bytes"
  sGetVersion :: "'e \<Rightarrow> 's \<Rightarrow> bytes \<Rightarrow> EpochRecord"
  sNewIter :: "'e \<Rightarrow> 's \<Rightarrow> bytes \<Rightarrow> bytes \<Rightarrow> memIter"
  sSequence :: "'e \<Rightarrow> 's \<Rightarrow> uint64"
  sClose :: "'e \<Rightarrow> 's \<Rightarrow> 'e"

text \<open>The version record a snapshot reports for a key is the one stored under its version key.\<close>

definition stored_version :: "bytes option \<Rightarrow> EpochRecord" where
  "stored_version x = (case x of None \<Rightarrow> zero_epoch | Some v \<Rightarrow> decodeEpochRecord0 v)"

lemma stored_version_simps [simp]:
  "stored_version None = zero_epoch" "stored_version (Some (encodeEpochRecord er)) = er"
  by (simp_all add: stored_version_def)

text \<open>
  The contract. \<open>contents\<close> is the committed store and \<open>view e s\<close> what the snapshot \<open>s\<close> shows
  of the engine state \<open>e\<close>; \<open>live e s\<close> says that \<open>s\<close> was handed out by this engine, and
  \<open>admissible\<close> which batches the engine supports in a state. \<open>readable\<close> says for which keys a read that finds
  nothing reports \<open>ErrKeyNotFound\<close>: a backend may refuse other keys with an error of its own.
\<close>

locale storage_engine =
  fixes E :: "('e, 's) StorageEngine"
    and invar :: "'e \<Rightarrow> bool"
    and contents :: "'e \<Rightarrow> kv"
    and live :: "'e \<Rightarrow> 's \<Rightarrow> bool"
    and view :: "'e \<Rightarrow> 's \<Rightarrow> kv"
    and admissible :: "'e \<Rightarrow> batch \<Rightarrow> bool"
    and readable :: "bytes \<Rightarrow> bool"
  assumes get: "invar e \<Longrightarrow> readable k \<Longrightarrow> eGet E e k = kv_result (contents e k)"
    and snapshot: "invar e \<Longrightarrow> eGetSnapshot E e = (s, e') \<Longrightarrow>
          invar e' \<and> contents e' = contents e \<and> live e' s \<and> view e' s = contents e"
    and snapshot_others: "invar e \<Longrightarrow> eGetSnapshot E e = (s, e') \<Longrightarrow> live e s' \<Longrightarrow>
          live e' s' \<and> view e' s' = view e s'"
    and apply_batch: "invar e \<Longrightarrow> admissible e b \<Longrightarrow> eApplyBatch E e b sync = (None, e') \<Longrightarrow>
          invar e' \<and> contents e' = kv_apply (contents e) b"
    and apply_isolated: "invar e \<Longrightarrow> admissible e b \<Longrightarrow> eApplyBatch E e b sync = (None, e') \<Longrightarrow>
          live e s \<Longrightarrow> live e' s \<and> view e' s = view e s"
    and apply_failed: "invar e \<Longrightarrow> eApplyBatch E e b sync = (Some err, e') \<Longrightarrow>
          invar e' \<and> contents e' = contents e \<and> (\<forall>s. live e s \<longrightarrow> live e' s \<and> view e' s = view e s)"
    and sync: "invar e \<Longrightarrow> eSync E e = (r, e') \<Longrightarrow> invar e' \<and> contents e' = contents e
          \<and> (\<forall>s. live e s \<longrightarrow> live e' s \<and> view e' s = view e s)"
    and snap_get: "invar e \<Longrightarrow> live e s \<Longrightarrow> readable k \<Longrightarrow> sGet E e s k = kv_result (view e s k)"
    and snap_version: "invar e \<Longrightarrow> live e s \<Longrightarrow>
          sGetVersion E e s k = stored_version (view e s (versionKey k))"
    and snap_iter: "invar e \<Longrightarrow> live e s \<Longrightarrow>
          it_pos (sNewIter E e s start stop) = -1 \<and>
          lists_kv (it_pairs (sNewIter E e s start stop))
            (restrict_kv (view e s) (\<lambda>k. in_range start stop k \<and> \<not> isReserved k))"
    and stored_readable: "invar e \<Longrightarrow> live e s \<Longrightarrow> view e s k = Some v \<Longrightarrow> readable k"
begin

text \<open>A read after a write inside one batch, and the frame of a batch.\<close>

lemma get_after_set:
  assumes "invar e" "admissible e (b @ [BSet k v])"
    "eApplyBatch E e (b @ [BSet k v]) sync = (None, e')" "readable k"
  shows "eGet E e' k = Inr v"
  using apply_batch [OF assms(1-3)] get [of e' k] assms(4) by (simp add: kv_call_at)

lemma get_frame:
  assumes "invar e" "admissible e b" "eApplyBatch E e b sync = (None, e')" "k \<notin> call_key ` set b" "readable k"
  shows "eGet E e' k = eGet E e k"
  using apply_batch [OF assms(1-3)] get [of e' k] get [OF assms(1,5)] kv_apply_untouched [OF assms(4)] assms(5)
  by simp

text \<open>A snapshot keeps showing the contents at the time it was taken.\<close>

lemma snapshot_frozen:
  assumes "invar e" "eGetSnapshot E e = (s, e1)" "admissible e1 b" "eApplyBatch E e1 b sync = (None, e2)" "readable k"
  shows "sGet E e2 s k = kv_result (contents e k)"
proof -
  from snapshot [OF assms(1,2)] have 1: "invar e1" "live e1 s" "view e1 s = contents e" by auto
  from apply_batch [OF 1(1) assms(3,4)] apply_isolated [OF 1(1) assms(3,4) 1(2)] 1(3) assms(5)
  show ?thesis by (simp add: snap_get)
qed

end

text \<open>Engines whose \<open>RawIter\<close> also lists the reserved keys.\<close>

locale scanning_engine = storage_engine +
  assumes raw_iter: "invar e \<Longrightarrow>
      it_pos (eRawIter E e start stop) = -1 \<and>
      lists_kv (it_pairs (eRawIter E e start stop)) (restrict_kv (contents e) (in_range start stop))"

text \<open>Engines that support every batch.\<close>

locale total_engine = storage_engine +
  assumes admits: "invar e \<Longrightarrow> admissible e b"
begin

text \<open>What a commit, successful or not, leaves in the store.\<close>

lemma commit_contents:
  assumes "invar e" "eApplyBatch E e b sync = (r, e')"
  shows "invar e'" "contents e' = (if r = None then kv_apply (contents e) b else contents e)"
    "live e s \<Longrightarrow> live e' s \<and> view e' s = view e s"
  using assms apply_batch [OF assms(1) admits [OF assms(1)], of b sync e']
    apply_isolated [OF assms(1) admits [OF assms(1)], of b sync e' s] apply_failed [OF assms(1)]
  by (cases r; auto)+

end

end
