(* ===== verification/FSM.thy ===== *)
theory FSM
  imports Engine_Spec Proposal_Codec
begin

text \<open>
  The replicated state machine of \<open>src/conductor/fsm.go\<close>: optimistic conflict detection against
  the per-key epochs, the translation of a proposal into one engine batch, the application of
  log entries one by one, and the rebuilding of the epochs when a store is opened. The engine is
  a parameter, a \<open>StorageEngine\<close> record and a state of it. Go maps are HOL maps here because
  none of them is iterated. The calls to the clock and to the watchers are kept as traces
  (\<open>observed\<close>, \<open>notified\<close>); telemetry and pooling of buffers are left out.
\<close>

subsection \<open>State\<close>

type_synonym epochs = "bytes \<rightharpoonup> EpochRecord"

record 'e dpxFSM =
  applied :: uint64
  engine :: 'e
  keyEpoch :: epochs
  syncPolicy :: SyncPolicy
  hasWatchers :: bool
  notified :: "WriteEntry list list"
  observed :: "(uint64 \<times> uint16) list"
  skipHLC :: bool

datatype fsm_error =
    CorruptEntry uint64 unmarshal_error
  | UnknownWriteOp byte uint64
  | EngineFailed engine_error
  | SyncFailed uint64 engine_error
  | CorruptVersion bytes nat

record ApplyResult =
  Conflict :: bool
  Err :: "fsm_error option"

definition result_ok :: ApplyResult where
  "result_ok = \<lparr>Conflict = False, Err = None\<rparr>"

definition result_conflict :: ApplyResult where
  "result_conflict = \<lparr>Conflict = True, Err = None\<rparr>"

definition result_err :: "fsm_error \<Rightarrow> ApplyResult" where
  "result_err err = \<lparr>Conflict = False, Err = Some err\<rparr>"

definition accepted :: "ApplyResult \<Rightarrow> bool" where
  "accepted r \<longleftrightarrow> Err r = None \<and> \<not> Conflict r"

lemma accepted_simps [simp]:
  "accepted result_ok" "\<not> accepted result_conflict" "\<not> accepted (result_err err)"
  "result_ok \<noteq> result_conflict" "result_conflict \<noteq> result_ok"
  by (simp_all add: accepted_def result_ok_def result_conflict_def result_err_def)

record Log =
  logCommand :: bool
  logIndex :: uint64
  logData :: bytes

definition newFSM :: "'e \<Rightarrow> SyncPolicy \<Rightarrow> bool \<Rightarrow> 'e dpxFSM" where
  "newFSM eng policy watchers =
     \<lparr>applied = 0, engine = eng, keyEpoch = Map.empty, syncPolicy = policy,
      hasWatchers = watchers, notified = [], observed = [], skipHLC = False\<rparr>"

subsection \<open>Conflict detection\<close>

text \<open>
  The two tests of one read: a later write to the key counts unless a credit meets a debit; a
  write by an earlier proposal of the same batch counts whatever its epoch.
\<close>

definition stale_read :: "epochs \<Rightarrow> ReadEntry \<Rightarrow> bool" where
  "stale_read ke re \<longleftrightarrow>
     (let c = epoch_at ke (rKey re) in Epoch c > rEpoch re \<and> \<not> (IsCredit c \<and> rIsDebit re))"

definition shadowed_read :: "EpochRecord option \<Rightarrow> ReadEntry \<Rightarrow> bool" where
  "shadowed_read s re \<longleftrightarrow>
     (case s of None \<Rightarrow> False | Some er \<Rightarrow> \<not> (IsCredit er \<and> rIsDebit re))"

definition detectConflict :: "epochs \<Rightarrow> Proposal \<Rightarrow> epochs \<Rightarrow> bool" where
  "detectConflict ke p shadow \<longleftrightarrow>
     list_ex (\<lambda>re. stale_read ke re \<or> shadowed_read (shadow (rKey re)) re) (ReadSet p)"

subsection \<open>Applying a proposal\<close>

text \<open>The \<open>switch w.Op\<close>: the engine call of a write, if its operation is known.\<close>

definition op_call :: "WriteEntry \<Rightarrow> batch_call option" where
  "op_call w =
     (if wOp w = OpSet then Some (BSet (wKey w) (wValue w))
      else if wOp w = OpDelete then Some (BDelete (wKey w))
      else if wOp w = OpCredit \<or> wOp w = OpDebit then Some (BMerge (wKey w) (wValue w))
      else None)"

definition write_epoch :: "uint64 \<Rightarrow> WriteEntry \<Rightarrow> EpochRecord" where
  "write_epoch index w = \<lparr>Epoch = index, IsCredit = (wOp w = OpCredit)\<rparr>"

definition version_call :: "uint64 \<Rightarrow> WriteEntry \<Rightarrow> batch_call" where
  "version_call index w = BSet (versionKey (wKey w)) (encodeEpochRecord (write_epoch index w))"

text \<open>
  The loop over \<open>proposal.Writes\<close>, on the key epochs, the batch's shadow and the engine batch; it
  stops at the first unknown operation, keeping what the earlier writes did.
\<close>

primrec apply_writes ::
  "uint64 \<Rightarrow> WriteEntry list \<Rightarrow> epochs \<Rightarrow> epochs \<Rightarrow> batch \<Rightarrow>
     fsm_error option \<times> epochs \<times> epochs \<times> batch" where
  "apply_writes index [] ke shadow b = (None, ke, shadow, b)"
| "apply_writes index (w # ws) ke shadow b =
     (case op_call w of
        None \<Rightarrow> (Some (UnknownWriteOp (wOp w) index), ke, shadow, b)
      | Some c \<Rightarrow>
          (let er = write_epoch index w
           in apply_writes index ws (ke(wKey w \<mapsto> er)) (shadow(wKey w \<mapsto> er))
                (b @ [c, version_call index w])))"

definition applied_call :: "uint64 \<Rightarrow> batch_call" where
  "applied_call index = BSet appliedKey (encodeUint64 index)"

definition applyProposalToBatch ::
  "uint64 \<Rightarrow> Proposal \<Rightarrow> epochs \<Rightarrow> epochs \<Rightarrow> batch \<Rightarrow>
     fsm_error option \<times> epochs \<times> epochs \<times> batch" where
  "applyProposalToBatch index p ke shadow b =
     (case apply_writes index (Writes p) ke shadow b of
        (Some err, r) \<Rightarrow> (Some err, r)
      | (None, ke', shadow', b') \<Rightarrow> (None, ke', shadow', b' @ [applied_call index]))"

definition applyProposal ::
  "('e, 's) StorageEngine \<Rightarrow> uint64 \<Rightarrow> Proposal \<Rightarrow> epochs \<Rightarrow> 'e dpxFSM \<Rightarrow>
     fsm_error option \<times> epochs \<times> 'e dpxFSM" where
  "applyProposal E index p shadow f =
     (case apply_writes index (Writes p) (keyEpoch f) shadow [] of
        (Some err, ke', shadow', b) \<Rightarrow> (Some err, shadow', f\<lparr>keyEpoch := ke'\<rparr>)
      | (None, ke', shadow', b) \<Rightarrow>
          (let f1 = f\<lparr>keyEpoch := ke'\<rparr>;
               (err, e1) = eApplyBatch E (engine f1) (b @ [applied_call index]) (syncPolicy f1 = SyncFull);
               f2 = f1\<lparr>engine := e1\<rparr>
           in case err of
                Some er \<Rightarrow> (Some (EngineFailed er), shadow', f2)
              | None \<Rightarrow>
                  (let f3 = f2\<lparr>applied := index\<rparr>
                   in if syncPolicy f3 = SyncBatch then
                        (let (serr, e2) = eSync E (engine f3)
                         in (map_option (SyncFailed index) serr, shadow', f3\<lparr>engine := e2\<rparr>))
                      else (None, shadow', f3))))"

subsection \<open>Applying log entries\<close>

definition observe :: "Proposal \<Rightarrow> 'e dpxFSM \<Rightarrow> 'e dpxFSM" where
  "observe p f =
     (if \<not> skipHLC f \<and> \<not> TimestampIsZero p
      then f\<lparr>observed := observed f @ [(TimestampWall p, TimestampCounter p)]\<rparr> else f)"

definition notifyBatch :: "WriteEntry list \<Rightarrow> 'e dpxFSM \<Rightarrow> 'e dpxFSM" where
  "notifyBatch ws f = (if hasWatchers f then f\<lparr>notified := notified f @ [ws]\<rparr> else f)"

text \<open>One round of the loop over the logs.\<close>

definition apply_log ::
  "('e, 's) StorageEngine \<Rightarrow> Log \<Rightarrow> epochs \<Rightarrow> 'e dpxFSM \<Rightarrow> ApplyResult \<times> epochs \<times> 'e dpxFSM" where
  "apply_log E log shadow f =
     (if \<not> logCommand log then (result_ok, shadow, f)
      else case Unmarshal zero_proposal (logData log) of
        Inl err \<Rightarrow> (result_err (CorruptEntry (logIndex log) err), shadow, f)
      | Inr p \<Rightarrow>
          (let f1 = observe p f
           in if detectConflict (keyEpoch f1) p shadow then (result_conflict, shadow, f1)
              else case applyProposal E (logIndex log) p shadow f1 of
                (Some err, shadow', f2) \<Rightarrow> (result_err err, shadow', f2)
              | (None, shadow', f2) \<Rightarrow> (result_ok, shadow', notifyBatch (Writes p) f2)))"

primrec apply_logs ::
  "('e, 's) StorageEngine \<Rightarrow> Log list \<Rightarrow> epochs \<Rightarrow> 'e dpxFSM \<Rightarrow> ApplyResult list \<times> 'e dpxFSM" where
  "apply_logs E [] shadow f = ([], f)"
| "apply_logs E (log # logs) shadow f =
     (let (r, shadow', f') = apply_log E log shadow f;
          (rs, f'') = apply_logs E logs shadow' f'
      in (r # rs, f''))"

definition applyBatch :: "('e, 's) StorageEngine \<Rightarrow> 'e dpxFSM \<Rightarrow> Log list \<Rightarrow> ApplyResult list \<times> 'e dpxFSM" where
  "applyBatch E f logs = apply_logs E logs Map.empty f"

definition fsm_Apply :: "('e, 's) StorageEngine \<Rightarrow> 'e dpxFSM \<Rightarrow> Log \<Rightarrow> ApplyResult \<times> 'e dpxFSM" where
  "fsm_Apply E f log =
     (if \<not> logCommand log then (result_ok, f)
      else let (rs, f') = applyBatch E f [log] in (rs ! 0, f'))"

subsection \<open>Opening a store\<close>

text \<open>
  The scan over the version records, without a stop channel. The cursor moves forward at every
  round, so the loop ends.
\<close>

function open_scan :: "memIter \<Rightarrow> epochs \<Rightarrow> fsm_error + epochs" where
  "open_scan it ke =
     (if \<not> it_Valid it then Inr ke
      else
        (let k = it_Key it
         in if length k \<le> length verPrefix then open_scan (snd (it_Next it)) ke
            else case decodeEpochRecord (it_Value it) of
              None \<Rightarrow> Inl (CorruptVersion (drop (length verPrefix) k) (length (it_Value it)))
            | Some er \<Rightarrow> open_scan (snd (it_Next it)) (ke(drop (length verPrefix) k \<mapsto> er))))"
  by pat_completeness auto
termination
  by (relation "measure (\<lambda>(it, ke). nat (int (length (it_pairs it)) - it_pos it))")
    (auto simp: it_Valid_def it_Next_def)

definition fsm_open :: "('e, 's) StorageEngine \<Rightarrow> 'e dpxFSM \<Rightarrow> fsm_error + (uint64 \<times> 'e dpxFSM)" where
  "fsm_open E f =
     (let it = eRawIter E (engine f) rawIterStart rawIterEnd
      in case open_scan (snd (it_First it)) Map.empty of
           Inl err \<Rightarrow> Inl err
         | Inr ke \<Rightarrow>
             (let f1 = f\<lparr>keyEpoch := ke, applied := eCurrentSequence E (engine f)\<rparr>
              in Inr (applied f1, f1)))"

end
