(* ===== verification/Direct.thy ===== *)
theory Direct
  imports FSM
begin

text \<open>
  The direct proposer of \<open>src/conductor/direct.go\<close>, which replaces Raft on a single node: a
  submission queue, a loop that collects entries into batches, and \<open>applyBatchDirect\<close>, which
  validates a batch of proposals, commits all accepted ones in one engine batch and reports a
  result per proposal. Batches of at most 64 proposals keep the epochs written by earlier
  proposals of the batch in an array that is searched from the front; larger ones use the state
  machine's map.
\<close>

subsection \<open>State\<close>

record 'e directProposer =
  fsm :: "'e dpxFSM"
  index :: uint64
  closed :: bool
  ConflictTotal :: nat

definition maxStackShadow :: nat where
  "maxStackShadow = 64"

definition maxBatchSize :: nat where
  "maxBatchSize = 2048"

record shadowEntry =
  seKey :: bytes
  seEpoch :: EpochRecord

definition newDirectProposer ::
  "('e, 's) StorageEngine \<Rightarrow> 'e \<Rightarrow> SyncPolicy \<Rightarrow> bool \<Rightarrow> fsm_error + 'e directProposer" where
  "newDirectProposer E eng policy watchers =
     (case fsm_open E (newFSM eng policy watchers\<lparr>skipHLC := True\<rparr>) of
        Inl err \<Rightarrow> Inl err
      | Inr (_, f) \<Rightarrow> Inr \<lparr>fsm = f, index = 0, closed = False, ConflictTotal = 0\<rparr>)"

subsection \<open>The small-batch path\<close>

definition stack_lookup :: "shadowEntry list \<Rightarrow> bytes \<Rightarrow> EpochRecord option" where
  "stack_lookup stack k = map_option seEpoch (find (\<lambda>se. seKey se = k) stack)"

definition stack_conflict :: "epochs \<Rightarrow> Proposal \<Rightarrow> shadowEntry list \<Rightarrow> bool" where
  "stack_conflict ke p stack \<longleftrightarrow>
     list_ex (\<lambda>re. stale_read ke re \<or> shadowed_read (stack_lookup stack (rKey re)) re) (ReadSet p)"

definition stack_push :: "shadowEntry list \<Rightarrow> bytes \<Rightarrow> EpochRecord \<Rightarrow> shadowEntry list" where
  "stack_push stack k er =
     (if length stack < maxStackShadow then stack @ [\<lparr>seKey = k, seEpoch = er\<rparr>] else stack)"

text \<open>Unknown operations fall through the switch, but their version record is still written.\<close>

primrec stack_writes ::
  "uint64 \<Rightarrow> WriteEntry list \<Rightarrow> epochs \<Rightarrow> shadowEntry list \<Rightarrow> batch \<Rightarrow>
     epochs \<times> shadowEntry list \<times> batch" where
  "stack_writes idx [] ke stack b = (ke, stack, b)"
| "stack_writes idx (w # ws) ke stack b =
     (let b1 = (case op_call w of None \<Rightarrow> b | Some c \<Rightarrow> b @ [c]);
          er = write_epoch idx w
      in stack_writes idx ws (ke(wKey w \<mapsto> er)) (stack_push stack (wKey w) er)
           (b1 @ [version_call idx w]))"

definition set_epochs :: "epochs \<Rightarrow> 'e directProposer \<Rightarrow> 'e directProposer" where
  "set_epochs ke d = d\<lparr>fsm := (fsm d)\<lparr>keyEpoch := ke\<rparr>\<rparr>"

text \<open>\<open>d.index++\<close> and the clock observation that open every round of both loops.\<close>

definition next_entry :: "Proposal \<Rightarrow> 'e directProposer \<Rightarrow> 'e directProposer" where
  "next_entry p d = d\<lparr>index := index d + 1, fsm := observe p (fsm d)\<rparr>"

definition count_conflict :: "'e directProposer \<Rightarrow> 'e directProposer" where
  "count_conflict d = d\<lparr>ConflictTotal := ConflictTotal d + 1\<rparr>"

definition stack_entry ::
  "Proposal \<Rightarrow> 'e directProposer \<Rightarrow> shadowEntry list \<Rightarrow> batch \<Rightarrow> bool \<Rightarrow>
     ApplyResult \<times> 'e directProposer \<times> shadowEntry list \<times> batch \<times> bool" where
  "stack_entry p d stack b hasWrite =
     (let d1 = next_entry p d; idx = index d1
      in if stack_conflict (keyEpoch (fsm d1)) p stack
         then (result_conflict, count_conflict d1, stack, b, hasWrite)
         else
           (let (ke, stack', b') = stack_writes idx (Writes p) (keyEpoch (fsm d1)) stack b
            in (result_ok, set_epochs ke d1, stack', b' @ [applied_call idx], True)))"

primrec stack_entries ::
  "Proposal list \<Rightarrow> 'e directProposer \<Rightarrow> shadowEntry list \<Rightarrow> batch \<Rightarrow> bool \<Rightarrow>
     ApplyResult list \<times> 'e directProposer \<times> batch \<times> bool" where
  "stack_entries [] d stack b hasWrite = ([], d, b, hasWrite)"
| "stack_entries (p # ps) d stack b hasWrite =
     (let (r, d1, stack1, b1, hw1) = stack_entry p d stack b hasWrite;
          (rs, d2, b2, hw2) = stack_entries ps d1 stack1 b1 hw1
      in (r # rs, d2, b2, hw2))"

subsection \<open>The large-batch path\<close>

definition map_entry ::
  "Proposal \<Rightarrow> 'e directProposer \<Rightarrow> epochs \<Rightarrow> batch \<Rightarrow> bool \<Rightarrow>
     ApplyResult \<times> 'e directProposer \<times> epochs \<times> batch \<times> bool" where
  "map_entry p d shadow b hasWrite =
     (let d1 = next_entry p d
      in if detectConflict (keyEpoch (fsm d1)) p shadow
         then (result_conflict, count_conflict d1, shadow, b, hasWrite)
         else case applyProposalToBatch (index d1) p (keyEpoch (fsm d1)) shadow b of
           (Some err, ke, shadow', b') \<Rightarrow> (result_err err, set_epochs ke d1, shadow', b', hasWrite)
         | (None, ke, shadow', b') \<Rightarrow> (result_ok, set_epochs ke d1, shadow', b', True))"

primrec map_entries ::
  "Proposal list \<Rightarrow> 'e directProposer \<Rightarrow> epochs \<Rightarrow> batch \<Rightarrow> bool \<Rightarrow>
     ApplyResult list \<times> 'e directProposer \<times> batch \<times> bool" where
  "map_entries [] d shadow b hasWrite = ([], d, b, hasWrite)"
| "map_entries (p # ps) d shadow b hasWrite =
     (let (r, d1, shadow1, b1, hw1) = map_entry p d shadow b hasWrite;
          (rs, d2, b2, hw2) = map_entries ps d1 shadow1 b1 hw1
      in (r # rs, d2, b2, hw2))"

subsection \<open>Commit and delivery\<close>

text \<open>\<open>Phase A\<close>: results, proposer and engine batch, before anything is committed.\<close>

definition build_batch ::
  "'e directProposer \<Rightarrow> Proposal list \<Rightarrow> ApplyResult list \<times> 'e directProposer \<times> batch \<times> bool" where
  "build_batch d ps =
     (if length ps \<le> maxStackShadow then stack_entries ps d [] [] False
      else map_entries ps d Map.empty [] False)"

definition fail_result :: "engine_error \<Rightarrow> ApplyResult \<Rightarrow> ApplyResult" where
  "fail_result err r = (if Err r = None \<and> \<not> Conflict r then result_err (EngineFailed err) else r)"

definition commit_batch ::
  "('e, 's) StorageEngine \<Rightarrow> 'e directProposer \<Rightarrow> batch \<Rightarrow> ApplyResult list \<Rightarrow>
     ApplyResult list \<times> 'e directProposer" where
  "commit_batch E d b rs =
     (let f = fsm d; (err, e1) = eApplyBatch E (engine f) b (syncPolicy f = SyncFull)
      in case err of
           Some er \<Rightarrow> (map (fail_result er) rs, d\<lparr>fsm := f\<lparr>engine := e1\<rparr>\<rparr>)
         | None \<Rightarrow>
             (let e2 = (if syncPolicy f = SyncBatch then snd (eSync E e1) else e1)
              in (rs, d\<lparr>fsm := f\<lparr>engine := e2, applied := index d\<rparr>\<rparr>)))"

primrec notify_entries :: "(Proposal \<times> ApplyResult) list \<Rightarrow> 'e dpxFSM \<Rightarrow> 'e dpxFSM" where
  "notify_entries [] f = f"
| "notify_entries (pr # prs) f =
     notify_entries prs (if accepted (snd pr) then notifyBatch (Writes (fst pr)) f else f)"

definition applyBatchDirect ::
  "('e, 's) StorageEngine \<Rightarrow> 'e directProposer \<Rightarrow> Proposal list \<Rightarrow> ApplyResult list \<times> 'e directProposer" where
  "applyBatchDirect E d ps =
     (let (rs, d1, b, hasWrite) = build_batch d ps;
          (rs2, d2) = (if hasWrite then commit_batch E d1 b rs else (rs, d1))
      in (rs2, d2\<lparr>fsm := notify_entries (zip ps rs2) (fsm d2)\<rparr>))"

definition ApplyOneDirect ::
  "('e, 's) StorageEngine \<Rightarrow> 'e directProposer \<Rightarrow> Proposal \<Rightarrow> ApplyResult \<times> 'e directProposer" where
  "ApplyOneDirect E d p = (let (rs, d') = applyBatchDirect E d [p] in (rs ! 0, d'))"

definition run_direct :: "('e, 's) StorageEngine \<Rightarrow> 'e directProposer \<Rightarrow> Proposal list list \<Rightarrow> 'e directProposer" where
  "run_direct E d pss = foldl (\<lambda>d ps. snd (applyBatchDirect E d ps)) d pss"

subsection \<open>The submission loop\<close>

text \<open>
  \<open>submitCh\<close> with its capacity, the loop's \<open>batch\<close> slice, and what was handed back through the
  result channels; \<open>submitted\<close> records all sends for the specification.
\<close>

definition submitBufSize :: nat where
  "submitBufSize = 16384"

record 'e applier =
  submitCh :: "Proposal list"
  pending :: "Proposal list"
  proposer :: "'e directProposer"
  running :: bool
  delivered :: "(Proposal \<times> ApplyResult) list"
  submitted :: "Proposal list"

definition flush :: "('e, 's) StorageEngine \<Rightarrow> 'e applier \<Rightarrow> 'e applier" where
  "flush E a =
     (if pending a = [] then a
      else let (rs, d) = applyBatchDirect E (proposer a) (pending a)
           in a\<lparr>proposer := d, delivered := delivered a @ zip (pending a) rs, pending := []\<rparr>)"

text \<open>One received entry, then whatever else is in the channel, up to \<open>maxBatchSize\<close>.\<close>

definition drain :: "'e applier \<Rightarrow> 'e applier" where
  "drain a =
     (case submitCh a of
        [] \<Rightarrow> a
      | p # q \<Rightarrow>
          (let room = maxBatchSize - (length (pending a) + 1)
           in a\<lparr>pending := pending a @ p # take room q, submitCh := drop room q\<rparr>))"

definition receive :: "('e, 's) StorageEngine \<Rightarrow> 'e applier \<Rightarrow> 'e applier" where
  "receive E a = (let a1 = drain a in if length (pending a1) \<ge> maxBatchSize then flush E a1 else a1)"

inductive applier_step :: "('e, 's) StorageEngine \<Rightarrow> 'e applier \<Rightarrow> 'e applier \<Rightarrow> bool" for E where
  submit: "running a \<Longrightarrow> length (submitCh a) < submitBufSize \<Longrightarrow>
     applier_step E a (a\<lparr>submitCh := submitCh a @ [p], submitted := submitted a @ [p]\<rparr>)"
| ticker: "running a \<Longrightarrow> applier_step E a (flush E a)"
| recv: "running a \<Longrightarrow> submitCh a \<noteq> [] \<Longrightarrow> applier_step E a (receive E a)"
| stop: "running a \<Longrightarrow> applier_step E a (flush E a\<lparr>running := False\<rparr>)"

inductive_cases applier_stepE: "applier_step E a a'"

definition start_applier :: "'e directProposer \<Rightarrow> 'e applier" where
  "start_applier d = \<lparr>submitCh = [], pending = [], proposer = d, running = True, delivered = [], submitted = []\<rparr>"

end
