(* ===== verification/Tx.thy ===== *)
theory Tx
  imports Direct
begin

text \<open>
  Transactions: \<open>src/tx.go\<close>, the range collection of \<open>src/helpers.go\<close>, and \<open>runOnce\<close> and \<open>RunInTx\<close>
  of \<open>src/dpx.go\<close>. A transaction body is the tree \<open>txprog\<close> of the calls it makes, each continuation
  taking the call's result, so that it may do anything with what it read. The read set is a Go map
  that is iterated, hence an association list. Concurrency is explicit: \<open>runOnce\<close> takes the batches
  that commit between its snapshot and its own batch, and the neighbours in that batch.
\<close>

subsection \<open>State and errors\<close>

record 's dpxTx =
  snap :: 's
  readSet :: "(bytes \<times> ReadEntry) list"
  txWrites :: "WriteEntry list"

datatype dpx_error =
    DpxReservedKey
  | DpxKeyNotFound
  | DpxEngine engine_error
  | DpxInvalidProposal
  | DpxConflict
  | DpxConflictExhausted
  | DpxStoreClosed
  | DpxApply fsm_error
  | DpxUser string

definition begin_tx :: "'s \<Rightarrow> 's dpxTx" where
  "begin_tx s = \<lparr>snap = s, readSet = [], txWrites = []\<rparr>"

subsection \<open>Operations\<close>

definition tx_Get ::
  "('e, 's) StorageEngine \<Rightarrow> 'e \<Rightarrow> 's dpxTx \<Rightarrow> bytes \<Rightarrow> (dpx_error + bytes) \<times> 's dpxTx" where
  "tx_Get E e tx key =
     (if isReserved key then (Inl DpxReservedKey, tx)
      else case sGet E e (snap tx) key of
        Inl err \<Rightarrow> (Inl (if err = ErrKeyNotFound then DpxKeyNotFound else DpxEngine err), tx)
      | Inr val \<Rightarrow>
          (Inr val, tx\<lparr>readSet := AList.update key \<lparr>rKey = key, rEpoch = 0, rIsDebit = False\<rparr> (readSet tx)\<rparr>))"

definition tx_Set :: "'s dpxTx \<Rightarrow> bytes \<Rightarrow> bytes \<Rightarrow> dpx_error option \<times> 's dpxTx" where
  "tx_Set tx key value =
     (if isReserved key then (Some DpxReservedKey, tx)
      else (None, tx\<lparr>txWrites := txWrites tx @ [\<lparr>wOp = OpSet, wKey = key, wValue = value\<rparr>]\<rparr>))"

definition tx_Delete :: "'s dpxTx \<Rightarrow> bytes \<Rightarrow> dpx_error option \<times> 's dpxTx" where
  "tx_Delete tx key =
     (if isReserved key then (Some DpxReservedKey, tx)
      else (None, tx\<lparr>txWrites := txWrites tx @ [\<lparr>wOp = OpDelete, wKey = key, wValue = []\<rparr>]\<rparr>))"

text \<open>The value of a read that may miss the key: nil, the empty slice, when it is absent.\<close>

definition value_or_nil :: "engine_error + bytes \<Rightarrow> engine_error + bytes" where
  "value_or_nil r = (case r of Inl err \<Rightarrow> if err = ErrKeyNotFound then Inr [] else Inl err | Inr v \<Rightarrow> Inr v)"

definition tx_AtomicAdd ::
  "('e, 's) StorageEngine \<Rightarrow> 'e \<Rightarrow> 's dpxTx \<Rightarrow> bytes \<Rightarrow> int64 \<Rightarrow> (dpx_error + int64) \<times> 's dpxTx" where
  "tx_AtomicAdd E e tx key delta =
     (if isReserved key then (Inl DpxReservedKey, tx)
      else case value_or_nil (sGet E e (snap tx) key) of
        Inl err \<Rightarrow> (Inl (DpxEngine err), tx)
      | Inr val \<Rightarrow>
          if sint delta > 0 then
            (Inr (decodeInt64 val),
             tx\<lparr>txWrites := txWrites tx @ [\<lparr>wOp = OpCredit, wKey = key, wValue = encodeInt64 delta\<rparr>]\<rparr>)
          else
            (let ver = sGetVersion E e (snap tx) key;
                 tx1 = tx\<lparr>readSet := AList.update key \<lparr>rKey = key, rEpoch = Epoch ver, rIsDebit = True\<rparr> (readSet tx)\<rparr>;
                 tx2 = (if sint delta < 0
                        then tx1\<lparr>txWrites := txWrites tx1 @ [\<lparr>wOp = OpDebit, wKey = key, wValue = encodeInt64 delta\<rparr>]\<rparr>
                        else tx1)
             in (Inr (decodeInt64 val + delta), tx2)))"

text \<open>
  The collection loop of \<open>collectIter\<close> and \<open>GetRange\<close>:
  \<open>for ok := iter.First(); ok && iter.Valid(); ok = iter.Next()\<close>, leaving when \<open>limit\<close> is reached.
\<close>

function collect_loop :: "bool \<Rightarrow> memIter \<Rightarrow> int \<Rightarrow> data_map \<Rightarrow> data_map" where
  "collect_loop ok it limit pairs =
     (if ok \<and> it_Valid it then
        if limit > 0 \<and> int (length pairs) \<ge> limit then pairs
        else (let (ok', it') = it_Next it
              in collect_loop ok' it' limit (pairs @ [(it_Key it, it_Value it)]))
      else pairs)"
  by pat_completeness auto
termination
  by (relation "measure (\<lambda>(ok, it, limit, pairs). nat (int (length (it_pairs it)) - it_pos it))")
    (auto simp: it_Valid_def it_Next_def)

text \<open>The in-place reversal by swapping from both ends.\<close>

function swap_loop :: "nat \<Rightarrow> int \<Rightarrow> 'a list \<Rightarrow> 'a list" where
  "swap_loop i j xs =
     (if int i < j then swap_loop (i + 1) (j - 1) (xs[i := xs ! nat j, nat j := xs ! i]) else xs)"
  by pat_completeness auto
termination
  by (relation "measure (\<lambda>(i, j, xs). nat (j - int i))") auto

definition collectIter :: "memIter \<Rightarrow> int \<Rightarrow> bool \<Rightarrow> data_map" where
  "collectIter it limit rv =
     (let (ok, it1) = it_First it; pairs = collect_loop ok it1 limit []
      in if rv then swap_loop 0 (int (length pairs) - 1) pairs else pairs)"

definition tx_GetRange ::
  "('e, 's) StorageEngine \<Rightarrow> 'e \<Rightarrow> 's dpxTx \<Rightarrow> bytes \<Rightarrow> bytes \<Rightarrow> int \<Rightarrow> data_map" where
  "tx_GetRange E e tx start stop limit =
     (let (ok, it) = it_First (sNewIter E e (snap tx) start stop) in collect_loop ok it limit [])"

definition tx_empty :: "'s dpxTx \<Rightarrow> bool" where
  "tx_empty tx \<longleftrightarrow> txWrites tx = []"

definition hydrate :: "('e, 's) StorageEngine \<Rightarrow> 'e \<Rightarrow> 's \<Rightarrow> ReadEntry \<Rightarrow> ReadEntry" where
  "hydrate E e s re =
     (if rEpoch re = 0 \<and> \<not> rIsDebit re then re\<lparr>rEpoch := Epoch (sGetVersion E e s (rKey re))\<rparr> else re)"

definition readSetSlice :: "('e, 's) StorageEngine \<Rightarrow> 'e \<Rightarrow> 's dpxTx \<Rightarrow> ReadEntry list" where
  "readSetSlice E e tx = map (\<lambda>(k, re). hydrate E e (snap tx) re) (readSet tx)"

definition validate :: "'s dpxTx \<Rightarrow> dpx_error option" where
  "validate tx =
     (let credits = set (map wKey (filter (\<lambda>w. wOp w = OpCredit) (txWrites tx)))
      in if list_ex (\<lambda>w. wOp w = OpDelete \<and> wKey w \<in> credits) (txWrites tx)
         then Some DpxInvalidProposal else None)"

subsection \<open>Transaction bodies\<close>

datatype txprog =
    Return "dpx_error option"
  | DoGet bytes "dpx_error + bytes \<Rightarrow> txprog"
  | DoSet bytes bytes "dpx_error option \<Rightarrow> txprog"
  | DoDelete bytes "dpx_error option \<Rightarrow> txprog"
  | DoAdd bytes int64 "dpx_error + int64 \<Rightarrow> txprog"
  | DoRange bytes bytes int "data_map \<Rightarrow> txprog"

primrec exec_tx ::
  "('e, 's) StorageEngine \<Rightarrow> 'e \<Rightarrow> txprog \<Rightarrow> 's dpxTx \<Rightarrow> dpx_error option \<times> 's dpxTx" where
  "exec_tx E e (Return r) tx = (r, tx)"
| "exec_tx E e (DoGet k cont) tx = (let (r, tx') = tx_Get E e tx k in exec_tx E e (cont r) tx')"
| "exec_tx E e (DoSet k v cont) tx = (let (r, tx') = tx_Set tx k v in exec_tx E e (cont r) tx')"
| "exec_tx E e (DoDelete k cont) tx = (let (r, tx') = tx_Delete tx k in exec_tx E e (cont r) tx')"
| "exec_tx E e (DoAdd k delta cont) tx =
     (let (r, tx') = tx_AtomicAdd E e tx k delta in exec_tx E e (cont r) tx')"
| "exec_tx E e (DoRange a b lim cont) tx = exec_tx E e (cont (tx_GetRange E e tx a b lim)) tx"

subsection \<open>One attempt\<close>

text \<open>
  The part of \<open>runOnce\<close> up to the proposal: an early result, or the proposal to submit. \<open>ts\<close> is the
  clock's next timestamp.
\<close>

definition prepare ::
  "('e, 's) StorageEngine \<Rightarrow> 'e \<Rightarrow> 's \<Rightarrow> txprog \<Rightarrow> uint64 \<times> uint16 \<Rightarrow> dpx_error option + Proposal" where
  "prepare E e s prog ts =
     (case exec_tx E e prog (begin_tx s) of
        (Some err, tx) \<Rightarrow> Inl (Some err)
      | (None, tx) \<Rightarrow>
          if tx_empty tx then Inl None
          else case validate tx of
            Some err \<Rightarrow> Inl (Some err)
          | None \<Rightarrow> Inr \<lparr>ReadSet = readSetSlice E e tx, Writes = txWrites tx,
                          TimestampWall = fst ts, TimestampCounter = snd ts\<rparr>)"

definition attempt_result :: "ApplyResult \<Rightarrow> dpx_error option" where
  "attempt_result res =
     (case Err res of Some err \<Rightarrow> Some (DpxApply err) | None \<Rightarrow> if Conflict res then Some DpxConflict else None)"

definition set_engine :: "'e \<Rightarrow> 'e directProposer \<Rightarrow> 'e directProposer" where
  "set_engine e d = d\<lparr>fsm := (fsm d)\<lparr>engine := e\<rparr>\<rparr>"

text \<open>
  \<open>pss\<close> are the batches other clients commit between the snapshot and the batch that takes this
  proposal, \<open>before\<close> and \<open>after\<close> the other proposals of that batch.
\<close>

definition runOnce ::
  "('e, 's) StorageEngine \<Rightarrow> 'e directProposer \<Rightarrow> txprog \<Rightarrow> uint64 \<times> uint16 \<Rightarrow>
     Proposal list list \<Rightarrow> Proposal list \<Rightarrow> Proposal list \<Rightarrow> dpx_error option \<times> 'e directProposer" where
  "runOnce E d prog ts pss before after =
     (let (s, e1) = eGetSnapshot E (engine (fsm d)); d1 = set_engine e1 d
      in case prepare E e1 s prog ts of
           Inl r \<Rightarrow> (r, set_engine (sClose E e1 s) d1)
         | Inr p \<Rightarrow>
             (let (rs, d2) = applyBatchDirect E (run_direct E d1 pss) (before @ p # after)
              in (attempt_result (rs ! length before), set_engine (sClose E (engine (fsm d2)) s) d2)))"

subsection \<open>Retries\<close>

text \<open>
  \<open>RunInTx\<close> hands \<open>runOnce\<close> to \<open>jack.Retry\<close>, a library that is not part of the repository: \<open>do\<close>
  is its \<open>Do\<close>, taking the attempts by number and the state, and giving the final error, whether it is
  \<open>jack.ErrRetryExhausted\<close>, and the state. Each attempt has its own timestamp and interleaving.
\<close>

type_synonym attempt_env = "(uint64 \<times> uint16) \<times> Proposal list list \<times> Proposal list \<times> Proposal list"
type_synonym 'd attempts = "nat \<Rightarrow> 'd \<Rightarrow> dpx_error option \<times> 'd"
type_synonym 'd retry_do = "'d attempts \<Rightarrow> 'd \<Rightarrow> (dpx_error option \<times> bool) \<times> 'd"

definition run_attempt ::
  "('e, 's) StorageEngine \<Rightarrow> txprog \<Rightarrow> (nat \<Rightarrow> attempt_env) \<Rightarrow> 'e directProposer attempts" where
  "run_attempt E prog env n d = (case env n of (ts, pss, before, after) \<Rightarrow> runOnce E d prog ts pss before after)"

definition RunInTx ::
  "('e, 's) StorageEngine \<Rightarrow> 'e directProposer retry_do \<Rightarrow> bool \<Rightarrow> txprog \<Rightarrow> (nat \<Rightarrow> attempt_env) \<Rightarrow>
     'e directProposer \<Rightarrow> dpx_error option \<times> 'e directProposer" where
  "RunInTx E do node_closed prog env d =
     (if node_closed then (Some DpxStoreClosed, d)
      else let ((r, exhausted), d') = do (run_attempt E prog env) d
           in (if exhausted then Some DpxConflictExhausted else r, d'))"

text \<open>
  What the configuration asks of the library: attempt up to \<open>max\<close> times, go on only while the error
  is a conflict, and report exhaustion exactly when the last allowed attempt conflicted.
\<close>

primrec attempt_state :: "'d attempts \<Rightarrow> 'd \<Rightarrow> nat \<Rightarrow> 'd" where
  "attempt_state f d 0 = d"
| "attempt_state f d (Suc n) = snd (f n (attempt_state f d n))"

definition attempt_error :: "'d attempts \<Rightarrow> 'd \<Rightarrow> nat \<Rightarrow> dpx_error option" where
  "attempt_error f d n = fst (f n (attempt_state f d n))"

definition retry_ok :: "nat \<Rightarrow> 'd retry_do \<Rightarrow> bool" where
  "retry_ok maxAttempts do \<longleftrightarrow>
     (\<forall>f d. \<exists>n < maxAttempts. (\<forall>i < n. attempt_error f d i = Some DpxConflict)
        \<and> do f d = ((attempt_error f d n, attempt_error f d n = Some DpxConflict), attempt_state f d (Suc n))
        \<and> (attempt_error f d n = Some DpxConflict \<longrightarrow> Suc n = maxAttempts))"

definition node_GetRange ::
  "('e, 's) StorageEngine \<Rightarrow> bool \<Rightarrow> 'e \<Rightarrow> bytes \<Rightarrow> bytes \<Rightarrow> int \<Rightarrow> bool \<Rightarrow> (dpx_error + data_map) \<times> 'e" where
  "node_GetRange E node_closed e start stop limit rv =
     (if node_closed then (Inl DpxStoreClosed, e)
      else let (s, e1) = eGetSnapshot E e
           in (Inr (collectIter (sNewIter E e1 s start stop) limit rv), sClose E e1 s))"

end
