(* ===== verification/Watch.thy ===== *)
theory Watch
  imports Codec "HOL-Library.Sublist"
begin

text \<open>
  The watcher map of \<open>src/watch.go\<close>: best-effort notification of key prefixes over buffered channels. A
  channel is a number into the list of all channels made so far; its content is how many signals
  are buffered. The goroutine that \<open>register\<close> starts is explicit: it waits, then removes its channel
  under the lock, then closes it. A send on a closed channel and a second close panic in Go, which is
  \<open>None\<close> here. Telemetry is left out.
\<close>

subsection \<open>State\<close>

definition watchChanBuf :: nat where
  "watchChanBuf = 256"

record watchChan =
  buffered :: nat
  chClosed :: bool

record watcherMap =
  watches :: "(bytes \<times> nat list) list"
  wClosed :: bool
  chans :: "watchChan list"
  waiting :: "(nat \<times> bytes) list"
  closing :: "nat list"
  WatchDropped :: nat

definition newWatcherMap :: watcherMap where
  "newWatcherMap = \<lparr>watches = [], wClosed = False, chans = [], waiting = [], closing = [], WatchDropped = 0\<rparr>"

subsection \<open>Registration and closing\<close>

definition watchers_of :: "watcherMap \<Rightarrow> bytes \<Rightarrow> nat list" where
  "watchers_of w pre = (case map_of (watches w) pre of None \<Rightarrow> [] | Some arr \<Rightarrow> arr)"

definition register :: "watcherMap \<Rightarrow> bytes \<Rightarrow> nat \<times> watcherMap" where
  "register w pre =
     (let ch = length (chans w)
      in if wClosed w then (ch, w\<lparr>chans := chans w @ [\<lparr>buffered = 0, chClosed = True\<rparr>]\<rparr>)
         else (ch, w\<lparr>chans := chans w @ [\<lparr>buffered = 0, chClosed = False\<rparr>],
                     watches := AList.update pre (watchers_of w pre @ [ch]) (watches w),
                     waiting := waiting w @ [(ch, pre)]\<rparr>))"

text \<open>The goroutine's removal under the lock, and its close of the channel afterwards.\<close>

definition unregister :: "watcherMap \<Rightarrow> nat \<Rightarrow> bytes \<Rightarrow> watcherMap" where
  "unregister w ch pre =
     (let arr = remove1 ch (watchers_of w pre)
      in w\<lparr>watches := (if arr = [] then AList.delete pre (watches w) else AList.update pre arr (watches w)),
           waiting := remove1 (ch, pre) (waiting w), closing := closing w @ [ch]\<rparr>)"

definition close_chan :: "watcherMap \<Rightarrow> nat \<Rightarrow> watcherMap option" where
  "close_chan w ch =
     (if chClosed (chans w ! ch) then None
      else Some (w\<lparr>chans := (chans w)[ch := (chans w ! ch)\<lparr>chClosed := True\<rparr>],
                   closing := remove1 ch (closing w)\<rparr>))"

definition closeAll :: "watcherMap \<Rightarrow> watcherMap" where
  "closeAll w = (if wClosed w then w else w\<lparr>wClosed := True\<rparr>)"

subsection \<open>Notification\<close>

definition send_signal :: "watcherMap \<Rightarrow> nat \<Rightarrow> watcherMap option" where
  "send_signal w ch =
     (let c = chans w ! ch
      in if chClosed c then None
         else if buffered c < watchChanBuf
         then Some (w\<lparr>chans := (chans w)[ch := c\<lparr>buffered := buffered c + 1\<rparr>]\<rparr>)
         else Some (w\<lparr>WatchDropped := WatchDropped w + 1\<rparr>))"

primrec send_all :: "nat list \<Rightarrow> watcherMap \<Rightarrow> watcherMap option" where
  "send_all [] w = Some w"
| "send_all (ch # chs) w = Option.bind (send_signal w ch) (send_all chs)"

primrec notify_prefixes :: "bytes \<Rightarrow> (bytes \<times> nat list) list \<Rightarrow> watcherMap \<Rightarrow> watcherMap option" where
  "notify_prefixes key [] w = Some w"
| "notify_prefixes key (pc # pcs) w =
     (if prefix (fst pc) key then Option.bind (send_all (snd pc) w) (notify_prefixes key pcs)
      else notify_prefixes key pcs w)"

definition notify :: "watcherMap \<Rightarrow> bytes \<Rightarrow> watcherMap option" where
  "notify w key = (if wClosed w then Some w else notify_prefixes key (watches w) w)"

primrec notify_writes :: "WriteEntry list \<Rightarrow> watcherMap \<Rightarrow> watcherMap option" where
  "notify_writes [] w = Some w"
| "notify_writes (e # es) w = Option.bind (notify w (wKey e)) (notify_writes es)"

definition NotifyBatch :: "watcherMap \<Rightarrow> WriteEntry list \<Rightarrow> watcherMap option" where
  "NotifyBatch w writes = (if length (watches w) = 0 then Some w else notify_writes writes w)"

subsection \<open>Runs\<close>

definition receive_signal :: "watcherMap \<Rightarrow> nat \<Rightarrow> watcherMap" where
  "receive_signal w ch = w\<lparr>chans := (chans w)[ch := (chans w ! ch)\<lparr>buffered := buffered (chans w ! ch) - 1\<rparr>]\<rparr>"

text \<open>The steps of registering clients, their goroutines, the proposer and the shutdown, in any order.\<close>

inductive watch_step :: "watcherMap \<Rightarrow> watcherMap option \<Rightarrow> bool" where
  w_register: "register w pre = (ch, w') \<Longrightarrow> watch_step w (Some w')"
| w_leave: "(ch, pre) \<in> set (waiting w) \<Longrightarrow> watch_step w (Some (unregister w ch pre))"
| w_close: "ch \<in> set (closing w) \<Longrightarrow> watch_step w (close_chan w ch)"
| w_notify: "watch_step w (NotifyBatch w writes)"
| w_receive: "ch < length (chans w) \<Longrightarrow> watch_step w (Some (receive_signal w ch))"
| w_closeAll: "watch_step w (Some (closeAll w))"

inductive watch_reach :: "watcherMap \<Rightarrow> bool" where
  w_init: "watch_reach newWatcherMap"
| w_step: "watch_reach w \<Longrightarrow> watch_step w (Some w') \<Longrightarrow> watch_reach w'"

subsection \<open>Invariant\<close>

definition watched_chans :: "watcherMap \<Rightarrow> nat list" where
  "watched_chans w = concat (map snd (watches w))"

text \<open>
  Registered channels and channels about to be closed are different, exist, and are open; the waiting
  goroutines are exactly those of the registered channels; no prefix has an empty slice.
\<close>

definition watch_invar :: "watcherMap \<Rightarrow> bool" where
  "watch_invar w \<longleftrightarrow> distinct (map fst (watches w)) \<and> distinct (watched_chans w @ closing w)
     \<and> (\<forall>ch \<in> set (watched_chans w @ closing w). ch < length (chans w) \<and> \<not> chClosed (chans w ! ch))
     \<and> (\<forall>(pre, arr) \<in> set (watches w). arr \<noteq> [])
     \<and> distinct (waiting w) \<and> (\<forall>ch pre. (ch, pre) \<in> set (waiting w) \<longleftrightarrow> ch \<in> set (watchers_of w pre))
     \<and> (\<forall>c \<in> set (chans w). buffered c \<le> watchChanBuf)"

end
