(* ===== verification/Memory_Engine.thy ===== *)
theory Memory_Engine
  imports Engine_Spec
begin

text \<open>
  The copy-on-write B-tree engine of \<open>src/engine/memory/memory.go\<close>, in its single-shard and
  its sharded form. The B-tree itself (\<open>github.com/tidwall/btree\<close>) is not part of the
  repository: it is the parameter \<open>pkg\<close>, a record of the operations the engine calls, and
  \<open>btree_ok\<close> states what its documentation promises. \<open>Copy\<close> is a constant-time copy of an
  immutable tree, hence the identity here, and an atomic pointer to an immutable \<open>state\<close> is a
  field that holds the state. Locks and telemetry are left out: each operation below is one
  critical section of the source.
\<close>

subsection \<open>The B-tree package\<close>

record 't btree_pkg =
  bt_new :: 't
  bt_set :: "'t \<Rightarrow> bytes \<Rightarrow> bytes \<Rightarrow> 't"
  bt_delete :: "'t \<Rightarrow> bytes \<Rightarrow> 't"
  bt_get :: "'t \<Rightarrow> bytes \<Rightarrow> bytes option"
  bt_scan :: "'t \<Rightarrow> data_map"
  bt_ascend :: "'t \<Rightarrow> bytes \<Rightarrow> data_map"

text \<open>
  The documented behaviour: a tree is an ordered map on the key; \<open>Scan\<close> visits all items in
  order, \<open>Ascend\<close> those from the pivot on.
\<close>

definition btree_ok :: "'t btree_pkg \<Rightarrow> bool" where
  "btree_ok B \<longleftrightarrow>
     (\<forall>k. bt_get B (bt_new B) k = None)
     \<and> (\<forall>t k v. bt_get B (bt_set B t k v) = (bt_get B t)(k \<mapsto> v))
     \<and> (\<forall>t k. bt_get B (bt_delete B t k) = (bt_get B t)(k := None))
     \<and> (\<forall>t. lists_kv (bt_scan B t) (bt_get B t))
     \<and> (\<forall>t p. bt_ascend B t p = filter (\<lambda>(k, v). p \<le> k) (bt_scan B t))"

lemma btree_okD:
  assumes "btree_ok B"
  shows "bt_get B (bt_new B) = Map.empty"
    and "bt_get B (bt_set B t k v) = (bt_get B t)(k \<mapsto> v)"
    and "bt_get B (bt_delete B t k) = (bt_get B t)(k := None)"
    and "lists_kv (bt_scan B t) (bt_get B t)"
    and "bt_ascend B t p = filter (\<lambda>(k, v). p \<le> k) (bt_scan B t)"
  using assms by (auto simp: btree_ok_def)

subsection \<open>Sharding\<close>

definition numShards :: nat where
  "numShards = 128"

text \<open>\<open>hash/fnv\<close>, 32-bit FNV-1a: multiply after the xor, both wrapping at 32 bits.\<close>

definition fnv32a :: "bytes \<Rightarrow> uint32" where
  "fnv32a key = foldl (\<lambda>h c. (h XOR ucast c) * 16777619) 2166136261 key"

definition shardFor :: "bytes \<Rightarrow> nat" where
  "shardFor key = unat (fnv32a key AND 127)"

lemma shardFor_less [simp]: "shardFor key < numShards"
proof -
  have "unat (fnv32a key AND 127) \<le> unat (127 :: uint32)"
    by (rule word_and_le1 [THEN word_le_nat_alt [THEN iffD1]])
  then show ?thesis by (simp add: shardFor_def numShards_def)
qed

subsection \<open>State\<close>

record 't state =
  st_tree :: 't
  st_applied :: uint64

text \<open>Exactly one of \<open>shards\<close> and \<open>cur\<close> is in use, depending on \<open>sharded\<close>.\<close>

record 't Engine =
  sharded :: bool
  shards :: "'t state list"
  cur :: "'t state"
  pkg :: "'t btree_pkg"

definition fresh_state :: "'t btree_pkg \<Rightarrow> 't state" where
  "fresh_state B = \<lparr>st_tree = bt_new B, st_applied = 0\<rparr>"

definition New :: "'t btree_pkg \<Rightarrow> 't Engine" where
  "New B = \<lparr>sharded = False, shards = [], cur = fresh_state B, pkg = B\<rparr>"

definition NewSharded :: "'t btree_pkg \<Rightarrow> 't Engine" where
  "NewSharded B = \<lparr>sharded = True, shards = replicate numShards (fresh_state B),
     cur = fresh_state B, pkg = B\<rparr>"

subsection \<open>Batches\<close>

record batchOp =
  bop :: char
  bkey :: bytes
  bvalue :: bytes

definition memBatch_Set :: "batchOp list \<Rightarrow> bytes \<Rightarrow> bytes \<Rightarrow> batchOp list" where
  "memBatch_Set ops key value = ops @ [\<lparr>bop = CHR ''s'', bkey = key, bvalue = value\<rparr>]"

definition memBatch_Delete :: "batchOp list \<Rightarrow> bytes \<Rightarrow> batchOp list" where
  "memBatch_Delete ops key = ops @ [\<lparr>bop = CHR ''d'', bkey = key, bvalue = []\<rparr>]"

definition memBatch_Merge :: "batchOp list \<Rightarrow> bytes \<Rightarrow> bytes \<Rightarrow> batchOp list" where
  "memBatch_Merge ops key value = ops @ [\<lparr>bop = CHR ''m'', bkey = key, bvalue = value\<rparr>]"

primrec memBatch_call :: "batchOp list \<Rightarrow> batch_call \<Rightarrow> batchOp list" where
  "memBatch_call ops (BSet k v) = memBatch_Set ops k v"
| "memBatch_call ops (BDelete k) = memBatch_Delete ops k"
| "memBatch_call ops (BMerge k d) = memBatch_Merge ops k d"

type_synonym shardedBatch = "(nat \<times> batchOp list) list"

text \<open>\<open>b.byShard[s]\<close>, created empty on first use, and the operation forwarded to it.\<close>

definition shardedBatch_call :: "shardedBatch \<Rightarrow> batch_call \<Rightarrow> shardedBatch" where
  "shardedBatch_call b c =
     (let s = shardFor (call_key c);
          mb = (case map_of b s of None \<Rightarrow> [] | Some ops \<Rightarrow> ops)
      in AList.update s (memBatch_call mb c) b)"

subsection \<open>Applying a batch\<close>

text \<open>The \<open>switch op.op\<close> all apply loops share; an unknown operation byte does nothing.\<close>

definition apply_op :: "'t btree_pkg \<Rightarrow> 't state \<Rightarrow> batchOp \<Rightarrow> 't state" where
  "apply_op B next op =
     (if bop op = CHR ''s'' then
        (let next' = next\<lparr>st_tree := bt_set B (st_tree next) (bkey op) (bvalue op)\<rparr> in
           if bkey op = appliedKey \<and> length (bvalue op) \<ge> 8
           then next'\<lparr>st_applied := decodeUint64 (bvalue op)\<rparr> else next')
      else if bop op = CHR ''d'' then
        next\<lparr>st_tree := bt_delete B (st_tree next) (bkey op)\<rparr>
      else if bop op = CHR ''m'' then
        (let old = (case bt_get B (st_tree next) (bkey op) of None \<Rightarrow> [] | Some v \<Rightarrow> v) in
           next\<lparr>st_tree := bt_set B (st_tree next) (bkey op)
             (encodeInt64 (decodeInt64 old + decodeInt64 (bvalue op)))\<rparr>)
      else next)"

definition applyBatchLegacy :: "'t Engine \<Rightarrow> batchOp list \<Rightarrow> 't Engine" where
  "applyBatchLegacy e ops = e\<lparr>cur := foldl (apply_op (pkg e)) (cur e) ops\<rparr>"

definition apply_shard :: "shardedBatch \<Rightarrow> 't Engine \<Rightarrow> nat \<Rightarrow> 't Engine" where
  "apply_shard sb e s =
     (let ops = (case map_of sb s of None \<Rightarrow> [] | Some ops \<Rightarrow> ops)
      in e\<lparr>shards := (shards e)[s := foldl (apply_op (pkg e)) (shards e ! s) ops]\<rparr>)"

definition applyBatchSharded :: "'t Engine \<Rightarrow> shardedBatch \<Rightarrow> 't Engine" where
  "applyBatchSharded e sb =
     (if sb = [] then e else foldl (apply_shard sb) e (sort (map fst sb)))"

text \<open>\<open>NewBatch\<close>, the client's calls on it, and \<open>ApplyBatch\<close>, which never fails.\<close>

definition ApplyBatch :: "'t Engine \<Rightarrow> batch \<Rightarrow> bool \<Rightarrow> engine_error option \<times> 't Engine" where
  "ApplyBatch e b sync =
     (None, if sharded e then applyBatchSharded e (foldl shardedBatch_call [] b)
            else applyBatchLegacy e (foldl memBatch_call [] b))"

definition ApplyShardDirect :: "'t Engine \<Rightarrow> nat \<Rightarrow> batchOp list \<Rightarrow> 't Engine" where
  "ApplyShardDirect e shardIdx writes =
     e\<lparr>shards := (shards e)[shardIdx := foldl (apply_op (pkg e)) (shards e ! shardIdx) writes]\<rparr>"

subsection \<open>Reading\<close>

definition engine_Get :: "'t Engine \<Rightarrow> bytes \<Rightarrow> engine_error + bytes" where
  "engine_Get e key =
     (let st = (if sharded e then shards e ! shardFor key else cur e)
      in case bt_get (pkg e) (st_tree st) key of None \<Rightarrow> Inl ErrKeyNotFound | Some v \<Rightarrow> Inr v)"

datatype 't snapshot = memSnapshot "'t state" | shardedSnapshot "'t state list"

definition GetSnapshot :: "'t Engine \<Rightarrow> 't snapshot \<times> 't Engine" where
  "GetSnapshot e = (if sharded e then shardedSnapshot (shards e) else memSnapshot (cur e), e)"

primrec snap_state :: "'t snapshot \<Rightarrow> bytes \<Rightarrow> 't state" where
  "snap_state (memSnapshot s) key = s"
| "snap_state (shardedSnapshot states) key = states ! shardFor key"

definition snap_Get :: "'t Engine \<Rightarrow> 't snapshot \<Rightarrow> bytes \<Rightarrow> engine_error + bytes" where
  "snap_Get e s key =
     (case bt_get (pkg e) (st_tree (snap_state s key)) key of
        None \<Rightarrow> Inl ErrKeyNotFound | Some v \<Rightarrow> Inr v)"

definition snap_GetVersion :: "'t Engine \<Rightarrow> 't snapshot \<Rightarrow> bytes \<Rightarrow> EpochRecord" where
  "snap_GetVersion e s key =
     (let vk = versionKey key
      in case bt_get (pkg e) (st_tree (snap_state s vk)) vk of
           None \<Rightarrow> zero_epoch | Some v \<Rightarrow> decodeEpochRecord0 v)"

text \<open>
  One tree's pairs in \<open>[ss, se)\<close>: \<open>Scan\<close> with a lower filter when there is no upper bound,
  otherwise \<open>Ascend\<close> from the lower bound, stopping at the first key past the upper one.
\<close>

definition scan_range :: "'t btree_pkg \<Rightarrow> 't \<Rightarrow> bytes \<Rightarrow> bytes \<Rightarrow> data_map" where
  "scan_range B t ss se =
     (if se = [] then filter (\<lambda>(k, v). \<not> k < ss) (bt_scan B t)
      else takeWhile (\<lambda>(k, v). \<not> se \<le> k) (bt_ascend B t ss))"

definition rawIterLegacy :: "'t Engine \<Rightarrow> bytes \<Rightarrow> bytes \<Rightarrow> memIter" where
  "rawIterLegacy e start stop = new_iter (scan_range (pkg e) (st_tree (cur e)) start stop)"

definition rawIterSharded :: "'t Engine \<Rightarrow> bytes \<Rightarrow> bytes \<Rightarrow> memIter" where
  "rawIterSharded e start stop =
     new_iter (sort_key fst
       (concat (map (\<lambda>st. scan_range (pkg e) (st_tree st) start stop) (shards e))))"

definition RawIter :: "'t Engine \<Rightarrow> bytes \<Rightarrow> bytes \<Rightarrow> memIter" where
  "RawIter e start stop = (if sharded e then rawIterSharded e start stop else rawIterLegacy e start stop)"

definition drop_reserved :: "data_map \<Rightarrow> data_map" where
  "drop_reserved xs = filter (\<lambda>(k, v). \<not> isReserved k) xs"

primrec snap_NewIter :: "'t Engine \<Rightarrow> 't snapshot \<Rightarrow> bytes \<Rightarrow> bytes \<Rightarrow> memIter" where
  "snap_NewIter e (memSnapshot s) start stop =
     new_iter (drop_reserved (scan_range (pkg e) (st_tree s) start stop))"
| "snap_NewIter e (shardedSnapshot states) start stop =
     new_iter (sort_key fst
       (concat (map (\<lambda>st. drop_reserved (scan_range (pkg e) (st_tree st) start stop)) states)))"

definition max_applied :: "'t state list \<Rightarrow> uint64" where
  "max_applied sts = foldl (\<lambda>mx st. if st_applied st > mx then st_applied st else mx) 0 sts"

definition CurrentSequence :: "'t Engine \<Rightarrow> uint64" where
  "CurrentSequence e = (if sharded e then max_applied (shards e) else st_applied (cur e))"

primrec snap_Sequence :: "'t Engine \<Rightarrow> 't snapshot \<Rightarrow> uint64" where
  "snap_Sequence e (memSnapshot s) = st_applied s"
| "snap_Sequence e (shardedSnapshot states) = max_applied states"

subsection \<open>Checkpoints\<close>

definition collect_items :: "data_map \<Rightarrow> data_map \<Rightarrow> data_map" where
  "collect_items allData items = foldl (\<lambda>d (k, v). AList.update k v d) allData items"

text \<open>The bytes \<open>CreateCheckpoint\<close> writes to \<open>dir/dump\<close>.\<close>

definition CreateCheckpoint :: "'t Engine \<Rightarrow> bytes" where
  "CreateCheckpoint e =
     (if sharded e then
        encodeDump (foldl (\<lambda>d st. collect_items d (bt_scan (pkg e) (st_tree st))) [] (shards e))
          (max_applied (shards e))
      else encodeDump (collect_items [] (bt_scan (pkg e) (st_tree (cur e)))) (st_applied (cur e)))"

definition load_item :: "'t Engine \<Rightarrow> bytes \<times> bytes \<Rightarrow> 't Engine" where
  "load_item e kv = (case kv of (k, v) \<Rightarrow>
     (let s = shardFor k; st = shards e ! s
      in e\<lparr>shards := (shards e)[s := st\<lparr>st_tree := bt_set (pkg e) (st_tree st) k v\<rparr>]\<rparr>))"

text \<open>\<open>Open\<close>, given the contents of \<open>dir/dump\<close>, or \<open>None\<close> when there is no such file.\<close>

definition engine_Open :: "'t Engine \<Rightarrow> bytes option \<Rightarrow> dump_error + 't Engine" where
  "engine_Open e file =
     (case file of
        None \<Rightarrow> Inr e
      | Some b \<Rightarrow>
          (case decodeDump b of
             Inl err \<Rightarrow> Inl err
           | Inr (data, applied) \<Rightarrow>
               if sharded e then
                 (let e' = foldl load_item e data
                  in Inr (e'\<lparr>shards := map (\<lambda>st. st\<lparr>st_applied := applied\<rparr>) (shards e')\<rparr>))
               else
                 Inr (e\<lparr>cur := \<lparr>st_tree = foldl (\<lambda>t (k, v). bt_set (pkg e) t k v) (bt_new (pkg e)) data,
                               st_applied = applied\<rparr>\<rparr>)))"

definition memory_engine :: "('t Engine, 't snapshot) StorageEngine" where
  "memory_engine =
     \<lparr>eGet = engine_Get, eGetSnapshot = GetSnapshot, eApplyBatch = ApplyBatch,
      eSync = (\<lambda>e. (None, e)), eCurrentSequence = CurrentSequence, eRawIter = RawIter,
      sGet = snap_Get, sGetVersion = snap_GetVersion, sNewIter = snap_NewIter,
      sSequence = snap_Sequence, sClose = (\<lambda>e s. e)\<rparr>"

subsection \<open>Invariant and abstraction\<close>

definition tree_map :: "'t btree_pkg \<Rightarrow> 't state \<Rightarrow> kv" where
  "tree_map B st = bt_get B (st_tree st)"

definition shards_ok :: "'t btree_pkg \<Rightarrow> 't state list \<Rightarrow> bool" where
  "shards_ok B sts \<longleftrightarrow> length sts = numShards
     \<and> (\<forall>i < numShards. \<forall>k. tree_map B (sts ! i) k \<noteq> None \<longrightarrow> shardFor k = i)"

definition shards_map :: "'t btree_pkg \<Rightarrow> 't state list \<Rightarrow> kv" where
  "shards_map B sts = (\<lambda>k. tree_map B (sts ! shardFor k) k)"

definition mem_invar :: "'t Engine \<Rightarrow> bool" where
  "mem_invar e \<longleftrightarrow> btree_ok (pkg e) \<and> (sharded e \<longrightarrow> shards_ok (pkg e) (shards e))"

definition mem_contents :: "'t Engine \<Rightarrow> kv" where
  "mem_contents e = (if sharded e then shards_map (pkg e) (shards e) else tree_map (pkg e) (cur e))"

primrec mem_live :: "'t Engine \<Rightarrow> 't snapshot \<Rightarrow> bool" where
  "mem_live e (memSnapshot st) \<longleftrightarrow> \<not> sharded e"
| "mem_live e (shardedSnapshot sts) \<longleftrightarrow> sharded e \<and> shards_ok (pkg e) sts"

primrec mem_view :: "'t Engine \<Rightarrow> 't snapshot \<Rightarrow> kv" where
  "mem_view e (memSnapshot st) = tree_map (pkg e) st"
| "mem_view e (shardedSnapshot sts) = shards_map (pkg e) sts"

subsection \<open>Applying calls\<close>

primrec call_op :: "batch_call \<Rightarrow> batchOp" where
  "call_op (BSet k v) = \<lparr>bop = CHR ''s'', bkey = k, bvalue = v\<rparr>"
| "call_op (BDelete k) = \<lparr>bop = CHR ''d'', bkey = k, bvalue = []\<rparr>"
| "call_op (BMerge k d) = \<lparr>bop = CHR ''m'', bkey = k, bvalue = d\<rparr>"

lemma memBatch_call_eq: "memBatch_call ops c = ops @ [call_op c]"
  by (cases c) (simp_all add: memBatch_Set_def memBatch_Delete_def memBatch_Merge_def)

lemma foldl_memBatch_call: "foldl memBatch_call ops b = ops @ map call_op b"
  by (induction b arbitrary: ops) (simp_all add: memBatch_call_eq)

lemma tree_map_apply_op:
  "btree_ok B \<Longrightarrow> tree_map B (apply_op B st (call_op c)) = kv_call (tree_map B st) c"
  by (cases c) (auto simp: apply_op_def tree_map_def kv_call_def btree_okD Let_def mergeInt64_def)

lemma tree_map_apply_ops [engine_simps]:
  "btree_ok B \<Longrightarrow> tree_map B (foldl (apply_op B) st (map call_op b)) = kv_apply (tree_map B st) b"
  by (induction b arbitrary: st) (simp_all add: tree_map_apply_op)

text \<open>What the client's calls leave in each shard's batch.\<close>

definition calls_for :: "batch \<Rightarrow> nat \<Rightarrow> batch" where
  "calls_for b s = filter (\<lambda>c. shardFor (call_key c) = s) b"

lemma calls_for_snoc [simp]:
  "calls_for (b @ [c]) s = calls_for b s @ (if shardFor (call_key c) = s then [c] else [])"
  "calls_for [] s = []"
  by (simp_all add: calls_for_def)

lemma map_of_shardedBatch_call:
  "map_of (shardedBatch_call sb c) s =
     (if shardFor (call_key c) = s
      then Some ((case map_of sb s of None \<Rightarrow> [] | Some ops \<Rightarrow> ops) @ [call_op c])
      else map_of sb s)"
  by (simp add: shardedBatch_call_def Let_def update_conv memBatch_call_eq)

lemma foldl_shardedBatch_call:
  "map_of (foldl shardedBatch_call [] b) s
     = (if calls_for b s = [] then None else Some (map call_op (calls_for b s)))"
  by (induction b rule: rev_induct) (simp_all add: map_of_shardedBatch_call)

lemma distinct_foldl_shardedBatch_call: "distinct (map fst (foldl shardedBatch_call [] b))"
  by (induction b rule: rev_induct) (simp_all add: shardedBatch_call_def Let_def distinct_update)

lemma keys_foldl_shardedBatch_call:
  "set (map fst (foldl shardedBatch_call [] b)) = {s. calls_for b s \<noteq> []}"
  using foldl_shardedBatch_call [of b] by (auto simp flip: dom_map_of_conv_image_fst split: if_splits)

lemma foldl_apply_shard:
  "distinct is \<Longrightarrow> \<forall>i \<in> set is. i < length (shards e) \<Longrightarrow> e' = foldl (apply_shard sb) e is \<Longrightarrow>
   sharded e' = sharded e \<and> pkg e' = pkg e \<and> length (shards e') = length (shards e)
   \<and> (\<forall>i < length (shards e). shards e' ! i =
      (if i \<in> set is then foldl (apply_op (pkg e)) (shards e ! i)
         (case map_of sb i of None \<Rightarrow> [] | Some ops \<Rightarrow> ops) else shards e ! i))"
proof (induction "is" arbitrary: e)
  case (Cons s "is")
  have "\<forall>i \<in> set is. i < length (shards (apply_shard sb e s))"
    using Cons.prems by (simp add: apply_shard_def Let_def)
  from Cons.IH [OF _ this] Cons.prems show ?case
    by (auto simp: apply_shard_def Let_def nth_list_update)
qed simp

lemma applyBatchSharded_calls:
  assumes "length (shards e) = numShards" "e' = applyBatchSharded e (foldl shardedBatch_call [] b)"
  shows "sharded e' = sharded e" "pkg e' = pkg e" "length (shards e') = numShards"
    and "i < numShards \<Longrightarrow> shards e' ! i = foldl (apply_op (pkg e)) (shards e ! i) (map call_op (calls_for b i))"
proof -
  let ?sb = "foldl shardedBatch_call [] b"
  let ?is = "sort (map fst ?sb)"
  have set_is: "set ?is = {s. calls_for b s \<noteq> []}"
    using keys_foldl_shardedBatch_call [of b] by simp
  have "s < numShards" if "calls_for b s \<noteq> []" for s
    using that by (auto simp: calls_for_def filter_empty_conv)
  then have bound: "\<forall>i \<in> set ?is. i < length (shards e)"
    using set_is assms(1) by auto
  have dist: "distinct ?is" by (simp add: distinct_foldl_shardedBatch_call)
  have e': "e' = foldl (apply_shard ?sb) e ?is"
    by (simp add: assms(2) applyBatchSharded_def)
  note F = foldl_apply_shard [OF dist bound e']
  show "sharded e' = sharded e" "pkg e' = pkg e" "length (shards e') = numShards"
    using F assms(1) by simp_all
  show "shards e' ! i = foldl (apply_op (pkg e)) (shards e ! i) (map call_op (calls_for b i))"
    if "i < numShards"
  proof -
    have "shards e' ! i = (if i \<in> set ?is then foldl (apply_op (pkg e)) (shards e ! i)
         (case map_of ?sb i of None \<Rightarrow> [] | Some ops \<Rightarrow> ops) else shards e ! i)"
      using F [THEN conjunct2, THEN conjunct2, THEN conjunct2, rule_format, of i] assms(1) that by simp
    then show ?thesis by (simp add: set_is foldl_shardedBatch_call del: set_sort)
  qed
qed

lemma kv_apply_calls_for: "kv_apply m (calls_for b (shardFor k)) k = kv_apply m b k"
  by (auto simp: kv_apply_key calls_for_def intro!: arg_cong [where f = "foldl call_effect (m k)"]
      filter_cong)

lemma kv_apply_calls_for_other: "i \<noteq> shardFor k \<Longrightarrow> kv_apply m (calls_for b i) k = m k"
  by (rule kv_apply_untouched) (auto simp: calls_for_def)

lemma mem_ApplyBatch:
  assumes "mem_invar e" "ApplyBatch e b sync = (r, e')"
  shows "mem_invar e'" "mem_contents e' = kv_apply (mem_contents e) b"
    "pkg e' = pkg e" "sharded e' = sharded e"
proof -
  have B: "btree_ok (pkg e)" using assms(1) by (simp add: mem_invar_def)
  have "mem_invar e' \<and> mem_contents e' = kv_apply (mem_contents e) b \<and> pkg e' = pkg e
      \<and> sharded e' = sharded e"
  proof (cases "sharded e")
    case False
    then show ?thesis
      using assms B by (auto simp: ApplyBatch_def applyBatchLegacy_def mem_invar_def
          mem_contents_def foldl_memBatch_call engine_simps)
  next
    case True
    then have ok: "shards_ok (pkg e) (shards e)" using assms(1) by (simp add: mem_invar_def)
    then have len: "length (shards e) = numShards" by (simp add: shards_ok_def)
    have e': "e' = applyBatchSharded e (foldl shardedBatch_call [] b)"
      using assms(2) True by (simp add: ApplyBatch_def)
    note A = applyBatchSharded_calls [OF len e']
    have tm: "tree_map (pkg e) (shards e' ! i) = kv_apply (tree_map (pkg e) (shards e ! i)) (calls_for b i)"
      if "i < numShards" for i
      using A(4) [OF that] B by (simp add: engine_simps)
    have "shards_map (pkg e) (shards e') = kv_apply (shards_map (pkg e) (shards e)) b"
    proof
      fix k
      have "shards_map (pkg e) (shards e') k
          = kv_apply (tree_map (pkg e) (shards e ! shardFor k)) b k"
        by (simp add: shards_map_def tm kv_apply_calls_for)
      then show "shards_map (pkg e) (shards e') k = kv_apply (shards_map (pkg e) (shards e)) b k"
        by (simp add: kv_apply_key shards_map_def)
    qed
    moreover have "shards_ok (pkg e) (shards e')"
      unfolding shards_ok_def
    proof (intro conjI allI impI)
      fix i k
      assume i: "i < numShards" and ne: "tree_map (pkg e) (shards e' ! i) k \<noteq> None"
      show "shardFor k = i"
      proof (rule ccontr)
        assume "shardFor k \<noteq> i"
        with ne i ok show False
          by (auto simp: tm kv_apply_calls_for_other shards_ok_def)
      qed
    qed (simp add: A(3))
    ultimately show ?thesis
      using True A B by (simp add: mem_invar_def mem_contents_def)
  qed
  then show "mem_invar e'" "mem_contents e' = kv_apply (mem_contents e) b"
    "pkg e' = pkg e" "sharded e' = sharded e" by auto
qed

subsection \<open>Scans\<close>

lemma lists_kv_scan_range:
  assumes "btree_ok B"
  shows "lists_kv (scan_range B t start stop) (restrict_kv (bt_get B t) (in_range start stop))"
proof -
  have scan: "lists_kv (bt_scan B t) (bt_get B t)" using assms by (rule btree_okD)
  have "scan_range B t start stop = filter (\<lambda>(k, v). in_range start stop k) (bt_scan B t)"
  proof (cases "stop = []")
    case True
    then show ?thesis by (simp add: scan_range_def in_range_def)
  next
    case False
    have "sorted_wrt (<) (map fst (filter (\<lambda>(k, v). start \<le> k) (bt_scan B t)))"
      using scan by (simp add: lists_kv_def sorted_wrt_filter_key)
    then show ?thesis
      using False by (auto simp: scan_range_def btree_okD [OF assms] takeWhile_sorted_filter
          in_range_def not_less intro!: filter_cong)
  qed
  then show ?thesis using lists_kv_filter [OF scan] by simp
qed

lemma restrict_restrict_kv: "restrict_kv (restrict_kv m P) Q = restrict_kv m (\<lambda>k. P k \<and> Q k)"
  by (auto simp: restrict_kv_def)

lemma lists_kv_drop_reserved:
  "lists_kv xs (restrict_kv m P) \<Longrightarrow>
   lists_kv (drop_reserved xs) (restrict_kv m (\<lambda>k. P k \<and> \<not> isReserved k))"
  using lists_kv_filter [of xs "restrict_kv m P" "\<lambda>k. \<not> isReserved k"]
  by (simp add: drop_reserved_def restrict_restrict_kv)

text \<open>The listings of the shards of a keyed partition, sorted together, list the whole.\<close>

lemma lists_kv_buckets:
  assumes len: "length xss = numShards"
    and dist: "\<And>i. i < numShards \<Longrightarrow> distinct (map fst (xss ! i))"
    and mem: "\<And>i k v. i < numShards \<Longrightarrow> (k, v) \<in> set (xss ! i) \<longleftrightarrow> shardFor k = i \<and> m k = Some v"
  shows "lists_kv (sort_key fst (concat xss)) m"
proof (rule lists_kv_sort_set)
  have "distinct (concat (map (map fst) xss))"
  proof (rule distinct_concat_nth)
    fix i assume "i < length (map (map fst) xss)"
    then show "distinct (map (map fst) xss ! i)" using dist len by simp
  next
    fix i j assume "i < j" "j < length (map (map fst) xss)"
    then have ij: "i < j" "i < numShards" "j < numShards" using len by auto
    then show "set (map (map fst) xss ! i) \<inter> set (map (map fst) xss ! j) = {}"
      using mem [of i] mem [of j] len by auto
  qed
  then show "distinct (map fst (concat xss))" by (simp add: map_concat)
  show "(k, v) \<in> set (concat xss) \<longleftrightarrow> m k = Some v" for k v
  proof
    assume "(k, v) \<in> set (concat xss)"
    then obtain xs where "xs \<in> set xss" "(k, v) \<in> set xs" by auto
    then obtain i where "i < numShards" "(k, v) \<in> set (xss ! i)"
      using len by (metis in_set_conv_nth)
    then show "m k = Some v" using mem by simp
  next
    assume "m k = Some v"
    then have "(k, v) \<in> set (xss ! shardFor k)" by (simp add: mem)
    then show "(k, v) \<in> set (concat xss)" using len by (auto intro!: bexI [of _ "xss ! shardFor k"])
  qed
qed

lemma lists_kv_shards:
  assumes "shards_ok B sts"
    and list: "\<And>st. st \<in> set sts \<Longrightarrow> lists_kv (f st) (restrict_kv (tree_map B st) P)"
  shows "lists_kv (sort_key fst (concat (map f sts))) (restrict_kv (shards_map B sts) P)"
proof (rule lists_kv_buckets)
  have len: "length sts = numShards" using assms(1) by (simp add: shards_ok_def)
  then show "length (map f sts) = numShards" by simp
  fix i assume i: "i < numShards"
  then have L: "lists_kv (f (sts ! i)) (restrict_kv (tree_map B (sts ! i)) P)"
    using list [of "sts ! i"] len by simp
  then show "distinct (map fst (map f sts ! i))"
    using i len by (simp add: lists_kv_def sorted_wrt_less_distinct)
  fix k v
  from lists_kv_set [OF L] show "(k, v) \<in> set (map f sts ! i) \<longleftrightarrow>
      shardFor k = i \<and> restrict_kv (shards_map B sts) P k = Some v"
    using i len assms(1) by (auto simp: restrict_kv_def shards_ok_def shards_map_def split: if_splits)
qed

end
