(* ===== verification/Node.thy ===== *)
theory Node
  imports Config Tx Watch Memory_Engine
begin

text \<open>
  The node of \<open>src/dpx.go\<close>, which puts the parts together: a direct proposer over an engine, the watcher
  map its notifications go to, the batcher, and the counters. \<open>RunInTx\<close> is the one of \<open>Tx\<close> with
  its metrics and the delivery of notifications. \<open>jack.Shutdown\<close> and \<open>jack.Retry\<close> are not part of the
  repository and are arguments. A panic of the watcher map is \<open>None\<close>. Metrics are those of a node that
  has them configured, telemetry is left out.
\<close>

subsection \<open>State and opening\<close>

record 'e Node =
  nodeProposer :: "'e directProposer"
  nodeBatcher :: Batcher
  nodeWatchers :: watcherMap
  nodeClosed :: bool
  seqCounter :: uint64
  TransactionsTotal :: uint64
  ConflictExhausted :: uint64
  BackupTotal :: uint64

datatype open_error =
    EngineRequired
  | OpenEngine dump_error
  | OpenProposer fsm_error

text \<open>\<open>Open\<close> with the in-memory engine, over the content of its data directory, and the direct proposer.\<close>

definition node_Open :: "Config \<Rightarrow> 't Engine option \<Rightarrow> bytes option \<Rightarrow> open_error + 't Engine Node" where
  "node_Open cfg eng dump =
     (case eng of
        None \<Rightarrow> Inl EngineRequired
      | Some e0 \<Rightarrow>
          (let cfg' = applyDefaults cfg
           in case engine_Open e0 dump of
                Inl err \<Rightarrow> Inl (OpenEngine err)
              | Inr e \<Rightarrow>
                  (case newDirectProposer memory_engine e (cfgSyncPolicy cfg') True of
                     Inl err \<Rightarrow> Inl (OpenProposer err)
                   | Inr d \<Rightarrow> Inr \<lparr>nodeProposer = d, nodeBatcher = newBatcher (cfgBatch cfg'),
                       nodeWatchers = newWatcherMap, nodeClosed = False, seqCounter = 0,
                       TransactionsTotal = 0, ConflictExhausted = 0, BackupTotal = 0\<rparr>)))"

subsection \<open>Commits and their notifications\<close>

primrec deliver :: "WriteEntry list list \<Rightarrow> watcherMap \<Rightarrow> watcherMap option" where
  "deliver [] w = Some w"
| "deliver (ws # wss) w = Option.bind (NotifyBatch w ws) (deliver wss)"

definition set_proposer :: "'e directProposer \<Rightarrow> 'e Node \<Rightarrow> 'e Node option" where
  "set_proposer d n =
     map_option (\<lambda>w. n\<lparr>nodeProposer := d, nodeWatchers := w\<rparr>)
       (deliver (drop (length (notified (fsm (nodeProposer n)))) (notified (fsm d))) (nodeWatchers n))"

text \<open>A batch that the proposer's loop applies for its clients.\<close>

definition node_applyBatch ::
  "('e, 's) StorageEngine \<Rightarrow> 'e Node \<Rightarrow> Proposal list \<Rightarrow> (ApplyResult list \<times> 'e Node) option" where
  "node_applyBatch E n ps =
     (let (rs, d) = applyBatchDirect E (nodeProposer n) ps in map_option (Pair rs) (set_proposer d n))"

definition node_RunInTx ::
  "('e, 's) StorageEngine \<Rightarrow> 'e directProposer retry_do \<Rightarrow> 'e Node \<Rightarrow> txprog \<Rightarrow> (nat \<Rightarrow> attempt_env) \<Rightarrow>
     (dpx_error option \<times> 'e Node) option" where
  "node_RunInTx E do n prog env =
     (if nodeClosed n then Some (Some DpxStoreClosed, n)
      else let ((r, exhausted), d) = do (run_attempt E prog env) (nodeProposer n)
           in map_option
                (\<lambda>n'. if exhausted
                  then (Some DpxConflictExhausted, n'\<lparr>ConflictExhausted := ConflictExhausted n' + 1\<rparr>)
                  else if r = None then (None, n'\<lparr>TransactionsTotal := TransactionsTotal n' + 1\<rparr>)
                  else (r, n'))
                (set_proposer d n))"

subsection \<open>The other entry points\<close>

definition AllocateNextSequence :: "'e Node \<Rightarrow> uint64 \<times> 'e Node" where
  "AllocateNextSequence n = (seqCounter n + 1, n\<lparr>seqCounter := seqCounter n + 1\<rparr>)"

definition GetSafeReadPoint :: "'e Node \<Rightarrow> uint64" where
  "GetSafeReadPoint n = seqCounter n"

definition WatchKey :: "'e Node \<Rightarrow> bytes \<Rightarrow> (dpx_error + nat) \<times> 'e Node" where
  "WatchKey n pre =
     (if nodeClosed n then (Inl DpxStoreClosed, n)
      else let (ch, w) = register (nodeWatchers n) pre in (Inr ch, n\<lparr>nodeWatchers := w\<rparr>))"

text \<open>
  \<open>Backup\<close> of a node on an engine: \<open>checkpoint\<close> is the engine's \<open>CreateCheckpoint\<close> into the destination, with what
  it writes there.
\<close>

definition Backup ::
  "('e, 's) StorageEngine \<Rightarrow> ('e \<Rightarrow> (engine_error + 'c) \<times> 'e) \<Rightarrow> 'e Node \<Rightarrow> (dpx_error + 'c) \<times> 'e Node" where
  "Backup E checkpoint n =
     (if nodeClosed n then (Inl DpxStoreClosed, n)
      else case eSync E (engine (fsm (nodeProposer n))) of
             (Some err, e) \<Rightarrow> (Inl (DpxEngine err), n\<lparr>nodeProposer := set_engine e (nodeProposer n)\<rparr>)
           | (None, e) \<Rightarrow>
               (case checkpoint e of (r, e1) \<Rightarrow>
                  let n1 = n\<lparr>nodeProposer := set_engine e1 (nodeProposer n)\<rparr>
                  in case r of
                       Inl err \<Rightarrow> (Inl (DpxEngine err), n1)
                     | Inr dest \<Rightarrow> (Inr dest, n1\<lparr>BackupTotal := BackupTotal n1 + 1\<rparr>)))"

definition node_GetRange_of ::
  "('e, 's) StorageEngine \<Rightarrow> 'e Node \<Rightarrow> bytes \<Rightarrow> bytes \<Rightarrow> int \<Rightarrow> bool \<Rightarrow> (dpx_error + data_map) \<times> 'e Node" where
  "node_GetRange_of E n start stop limit rv =
     (let (r, e) = node_GetRange E (nodeClosed n) (engine (fsm (nodeProposer n))) start stop limit rv
      in (r, n\<lparr>nodeProposer := set_engine e (nodeProposer n)\<rparr>))"

definition SetBatchConfig :: "'e Node \<Rightarrow> BatchConfig \<Rightarrow> 'e Node" where
  "SetBatchConfig n cfg = n\<lparr>nodeBatcher := SetConfig (nodeBatcher n) cfg\<rparr>"

subsection \<open>Closing\<close>

definition direct_Shutdown :: "'e directProposer \<Rightarrow> 'e directProposer" where
  "direct_Shutdown d = (if closed d then d else d\<lparr>closed := True\<rparr>)"

text \<open>The three hooks \<open>Open\<close> registers; \<open>closeEngine\<close> is the engine's \<open>Close\<close>.\<close>

definition shutdown_hooks :: "('e \<Rightarrow> 'e) \<Rightarrow> ('e Node \<Rightarrow> 'e Node) list" where
  "shutdown_hooks closeEngine =
     [\<lambda>n. n\<lparr>nodeProposer := direct_Shutdown (nodeProposer n)\<rparr>,
      \<lambda>n. n\<lparr>nodeWatchers := closeAll (nodeWatchers n)\<rparr>,
      \<lambda>n. n\<lparr>nodeProposer := set_engine (closeEngine (engine (fsm (nodeProposer n)))) (nodeProposer n)\<rparr>]"

type_synonym 'n trigger = "('n \<Rightarrow> 'n) list \<Rightarrow> 'n \<Rightarrow> 'n"

definition node_Close :: "'e Node trigger \<Rightarrow> ('e \<Rightarrow> 'e) \<Rightarrow> 'e Node \<Rightarrow> 'e Node" where
  "node_Close trigger closeEngine n =
     (if nodeClosed n then n else trigger (shutdown_hooks closeEngine) (n\<lparr>nodeClosed := True\<rparr>))"

text \<open>What \<open>TriggerShutdown\<close> promises: the registered hooks run once each, in the order of their priority.\<close>

definition trigger_ok :: "'n trigger \<Rightarrow> bool" where
  "trigger_ok trigger \<longleftrightarrow> (\<forall>hs n. trigger hs n = fold (\<lambda>h. h) hs n)"

subsection \<open>Runs\<close>

text \<open>The steps of a node, with the sequence number a step hands out.\<close>

inductive node_step ::
  "('e, 's) StorageEngine \<Rightarrow> ('e \<Rightarrow> 'e) \<Rightarrow> 'e Node \<Rightarrow> uint64 option \<Rightarrow> 'e Node \<Rightarrow> bool" for E closeEngine where
  n_apply: "node_applyBatch E n ps = Some (rs, n') \<Longrightarrow> node_step E closeEngine n None n'"
| n_tx: "retry_ok maxAttempts do \<Longrightarrow> node_RunInTx E do n prog env = Some (r, n') \<Longrightarrow> node_step E closeEngine n None n'"
| n_sequence: "AllocateNextSequence n = (i, n') \<Longrightarrow> node_step E closeEngine n (Some i) n'"
| n_watchKey: "WatchKey n pre = (c, n') \<Longrightarrow> node_step E closeEngine n None n'"
| n_watchers: "watch_step (nodeWatchers n) (Some w) \<Longrightarrow> node_step E closeEngine n None (n\<lparr>nodeWatchers := w\<rparr>)"
| n_range: "node_GetRange_of E n start stop limit rv = (kvs, n') \<Longrightarrow> node_step E closeEngine n None n'"
| n_backup: "Backup E (checkpoint :: 'e \<Rightarrow> (engine_error + bytes) \<times> 'e) n = (b, n') \<Longrightarrow> node_step E closeEngine n None n'"
| n_config: "node_step E closeEngine n None (SetBatchConfig n cfg)"
| n_close: "trigger_ok trigger \<Longrightarrow> node_step E closeEngine n None (node_Close trigger closeEngine n)"

inductive_cases node_stepE: "node_step E closeEngine n i n'"

inductive node_run ::
  "('e, 's) StorageEngine \<Rightarrow> ('e \<Rightarrow> 'e) \<Rightarrow> 'e Node \<Rightarrow> uint64 list \<Rightarrow> 'e Node \<Rightarrow> bool" for E closeEngine n0 where
  n_start: "node_run E closeEngine n0 [] n0"
| n_next: "node_run E closeEngine n0 is n \<Longrightarrow> node_step E closeEngine n i n' \<Longrightarrow>
     node_run E closeEngine n0 (is @ (case i of None \<Rightarrow> [] | Some j \<Rightarrow> [j])) n'"

text \<open>The watcher map is well formed, and the proposer knows it.\<close>

definition node_invar :: "'e Node \<Rightarrow> bool" where
  "node_invar n \<longleftrightarrow> watch_invar (nodeWatchers n) \<and> hasWatchers (fsm (nodeProposer n))"

end
