(* ===== verification/OCC.thy ===== *)
theory OCC
  imports Direct
begin

text \<open>
  Why optimistic validation is sound. \<open>serial_store\<close> is the specification: the store obtained by
  executing the accepted proposals one after the other, each as a whole. \<open>replay_batch\<close> and
  \<open>replay_ke\<close> describe what both paths of \<open>applyBatchDirect\<close> build for a given list of verdicts,
  and \<open>advance\<close> is the argument: between two moments every user key either kept its value and
  its epoch, or carries an epoch issued in between.
\<close>

subsection \<open>Specification\<close>

definition clean_write :: "WriteEntry \<Rightarrow> bool" where
  "clean_write w \<longleftrightarrow> valid_op (wOp w) \<and> \<not> isReserved (wKey w)"

definition clean :: "Proposal \<Rightarrow> bool" where
  "clean p \<longleftrightarrow> list_all clean_write (Writes p)"

definition user_calls :: "WriteEntry list \<Rightarrow> batch" where
  "user_calls ws = List.map_filter op_call ws"

definition tx_effect :: "kv \<Rightarrow> Proposal \<times> ApplyResult \<Rightarrow> kv" where
  "tx_effect m pr = (if accepted (snd pr) then kv_apply m (user_calls (Writes (fst pr))) else m)"

definition serial_store :: "kv \<Rightarrow> (Proposal \<times> ApplyResult) list \<Rightarrow> kv" where
  "serial_store m prs = foldl tx_effect m prs"

subsection \<open>What the loops build\<close>

definition write_calls :: "uint64 \<Rightarrow> WriteEntry \<Rightarrow> batch" where
  "write_calls idx w = (case op_call w of None \<Rightarrow> [] | Some c \<Rightarrow> [c]) @ [version_call idx w]"

definition proposal_calls :: "uint64 \<Rightarrow> Proposal \<Rightarrow> batch" where
  "proposal_calls idx p = concat (map (write_calls idx) (Writes p)) @ [applied_call idx]"

definition ke_after :: "uint64 \<Rightarrow> WriteEntry list \<Rightarrow> epochs \<Rightarrow> epochs" where
  "ke_after idx ws ke = foldl (\<lambda>ke w. ke(wKey w \<mapsto> write_epoch idx w)) ke ws"

lemma ke_after_simps [simp]:
  "ke_after idx [] ke = ke"
  "ke_after idx (w # ws) ke = ke_after idx ws (ke(wKey w \<mapsto> write_epoch idx w))"
  by (simp_all add: ke_after_def)

definition stack_after :: "uint64 \<Rightarrow> WriteEntry list \<Rightarrow> shadowEntry list \<Rightarrow> shadowEntry list" where
  "stack_after idx ws stack = foldl (\<lambda>st w. stack_push st (wKey w) (write_epoch idx w)) stack ws"

lemma stack_writes_eq:
  "stack_writes idx ws ke stack b
     = (ke_after idx ws ke, stack_after idx ws stack, b @ concat (map (write_calls idx) ws))"
  by (induction ws arbitrary: ke stack b)
    (simp_all add: write_calls_def Let_def stack_after_def split: option.splits)

lemma op_call_valid: "clean_write w \<Longrightarrow> op_call w \<noteq> None"
  by (auto simp: clean_write_def valid_op_def op_call_def)

lemma apply_writes_ke_batch:
  "list_all clean_write ws \<Longrightarrow> apply_writes idx ws ke shadow b
     = (None, ke_after idx ws ke, ke_after idx ws shadow, b @ concat (map (write_calls idx) ws))"
  by (induction ws arbitrary: ke shadow b)
    (auto simp: write_calls_def Let_def dest: op_call_valid split: option.splits)

primrec replay_batch :: "(Proposal \<times> ApplyResult) list \<Rightarrow> uint64 \<Rightarrow> batch" where
  "replay_batch [] i = []"
| "replay_batch (pr # prs) i =
     (if accepted (snd pr) then proposal_calls (i + 1) (fst pr) else []) @ replay_batch prs (i + 1)"

primrec replay_ke :: "(Proposal \<times> ApplyResult) list \<Rightarrow> uint64 \<Rightarrow> epochs \<Rightarrow> epochs" where
  "replay_ke [] i ke = ke"
| "replay_ke (pr # prs) i ke =
     replay_ke prs (i + 1) (if accepted (snd pr) then ke_after (i + 1) (Writes (fst pr)) ke else ke)"

text \<open>Every accepted proposal passed the epoch test against the epochs at its position.\<close>

primrec reads_fresh :: "(Proposal \<times> ApplyResult) list \<Rightarrow> uint64 \<Rightarrow> epochs \<Rightarrow> bool" where
  "reads_fresh [] i ke \<longleftrightarrow> True"
| "reads_fresh (pr # prs) i ke \<longleftrightarrow>
     (accepted (snd pr) \<longrightarrow> (\<forall>re \<in> set (ReadSet (fst pr)). \<not> stale_read ke re))
     \<and> reads_fresh prs (i + 1) (if accepted (snd pr) then ke_after (i + 1) (Writes (fst pr)) ke else ke)"

lemma reads_fresh_nth:
  assumes "reads_fresh prs i ke" "j < length prs" "accepted (snd (prs ! j))" "re \<in> set (ReadSet (fst (prs ! j)))"
  shows "\<not> stale_read (replay_ke (take j prs) i ke) re"
  using assms
proof (induction prs arbitrary: i ke j)
  case (Cons pr prs)
  then show ?case by (cases j) auto
qed simp

definition builds ::
  "Proposal list \<Rightarrow> 'e directProposer \<Rightarrow> batch \<Rightarrow> bool \<Rightarrow>
     ApplyResult list \<times> 'e directProposer \<times> batch \<times> bool \<Rightarrow> bool" where
  "builds ps d b hw out \<longleftrightarrow>
     (case out of (rs, d', b', hw') \<Rightarrow>
        length rs = length ps \<and> set rs \<subseteq> {result_ok, result_conflict}
        \<and> reads_fresh (zip ps rs) (index d) (keyEpoch (fsm d))
        \<and> keyEpoch (fsm d') = replay_ke (zip ps rs) (index d) (keyEpoch (fsm d))
        \<and> b' = b @ replay_batch (zip ps rs) (index d)
        \<and> index d' = index d + word_of_nat (length ps)
        \<and> engine (fsm d') = engine (fsm d) \<and> syncPolicy (fsm d') = syncPolicy (fsm d)
        \<and> (hw' \<longleftrightarrow> hw \<or> result_ok \<in> set rs))"

lemma observe_simps [simp]:
  "keyEpoch (observe p f) = keyEpoch f" "engine (observe p f) = engine f"
  "syncPolicy (observe p f) = syncPolicy f" "applied (observe p f) = applied f"
  by (simp_all add: observe_def)

lemma entry_simps [simp]:
  "index (next_entry p d) = index d + 1" "fsm (next_entry p d) = observe p (fsm d)"
  "index (count_conflict d) = index d" "fsm (count_conflict d) = fsm d"
  "index (set_epochs ke d) = index d" "fsm (set_epochs ke d) = (fsm d)\<lparr>keyEpoch := ke\<rparr>"
  by (simp_all add: next_entry_def count_conflict_def set_epochs_def)

lemma builds_step:
  assumes "r = result_conflict \<and> keyEpoch (fsm d1) = keyEpoch (fsm d) \<and> b1 = b \<and> hw1 = hw
      \<or> r = result_ok \<and> (\<forall>re \<in> set (ReadSet p). \<not> stale_read (keyEpoch (fsm d)) re)
        \<and> keyEpoch (fsm d1) = ke_after (index d + 1) (Writes p) (keyEpoch (fsm d))
        \<and> b1 = b @ proposal_calls (index d + 1) p \<and> hw1"
    and "index d1 = index d + 1" "engine (fsm d1) = engine (fsm d)"
      "syncPolicy (fsm d1) = syncPolicy (fsm d)"
    and "builds ps d1 b1 hw1 (rs, d2, b2, hw2)"
  shows "builds (p # ps) d b hw (r # rs, d2, b2, hw2)"
  using assms by (auto simp: builds_def add.assoc)

lemma stack_entry_builds:
  assumes "stack_entry p d stack b hw = (r, d1, stack1, b1, hw1)"
  shows "r = result_conflict \<and> keyEpoch (fsm d1) = keyEpoch (fsm d) \<and> b1 = b \<and> hw1 = hw
      \<or> r = result_ok \<and> (\<forall>re \<in> set (ReadSet p). \<not> stale_read (keyEpoch (fsm d)) re)
        \<and> keyEpoch (fsm d1) = ke_after (index d + 1) (Writes p) (keyEpoch (fsm d))
        \<and> b1 = b @ proposal_calls (index d + 1) p \<and> hw1"
    and "index d1 = index d + 1" "engine (fsm d1) = engine (fsm d)"
      "syncPolicy (fsm d1) = syncPolicy (fsm d)"
  using assms
  by (auto simp: stack_entry_def Let_def stack_writes_eq stack_conflict_def list_ex_iff
      proposal_calls_def split: if_splits)

lemma map_entry_builds:
  assumes "map_entry p d shadow b hw = (r, d1, shadow1, b1, hw1)" "clean p"
  shows "r = result_conflict \<and> keyEpoch (fsm d1) = keyEpoch (fsm d) \<and> b1 = b \<and> hw1 = hw
      \<or> r = result_ok \<and> (\<forall>re \<in> set (ReadSet p). \<not> stale_read (keyEpoch (fsm d)) re)
        \<and> keyEpoch (fsm d1) = ke_after (index d + 1) (Writes p) (keyEpoch (fsm d))
        \<and> b1 = b @ proposal_calls (index d + 1) p \<and> hw1"
    and "index d1 = index d + 1" "engine (fsm d1) = engine (fsm d)"
      "syncPolicy (fsm d1) = syncPolicy (fsm d)"
  using assms
  by (auto simp: map_entry_def Let_def applyProposalToBatch_def clean_def apply_writes_ke_batch
      detectConflict_def list_ex_iff proposal_calls_def split: if_splits)

lemma stack_entries_builds: "builds ps d b hw (stack_entries ps d stack b hw)"
proof (induction ps arbitrary: d stack b hw)
  case (Cons p ps)
  obtain r d1 stack1 b1 hw1 where e: "stack_entry p d stack b hw = (r, d1, stack1, b1, hw1)"
    by (cases "stack_entry p d stack b hw")
  obtain rs d2 b2 hw2 where es: "stack_entries ps d1 stack1 b1 hw1 = (rs, d2, b2, hw2)"
    by (cases "stack_entries ps d1 stack1 b1 hw1")
  from builds_step [OF stack_entry_builds [OF e]] Cons.IH [of d1 b1 hw1 stack1] show ?case
    by (simp add: e es Let_def)
qed (simp add: builds_def)

lemma map_entries_builds: "list_all clean ps \<Longrightarrow> builds ps d b hw (map_entries ps d shadow b hw)"
proof (induction ps arbitrary: d shadow b hw)
  case (Cons p ps)
  obtain r d1 shadow1 b1 hw1 where e: "map_entry p d shadow b hw = (r, d1, shadow1, b1, hw1)"
    by (cases "map_entry p d shadow b hw")
  obtain rs d2 b2 hw2 where es: "map_entries ps d1 shadow1 b1 hw1 = (rs, d2, b2, hw2)"
    by (cases "map_entries ps d1 shadow1 b1 hw1")
  have "clean p" using Cons.prems by simp
  from builds_step [OF map_entry_builds [OF e this]] Cons.IH [of d1 b1 hw1 shadow1] Cons.prems
  show ?case by (simp add: e es Let_def)
qed (simp add: builds_def)

lemma build_batch_builds: "list_all clean ps \<Longrightarrow> builds ps d [] False (build_batch d ps)"
  by (simp add: build_batch_def stack_entries_builds map_entries_builds)

subsection \<open>Effect on the store\<close>

lemma call_key_op_call: "op_call w = Some c \<Longrightarrow> call_key c = wKey w"
  by (auto simp: op_call_def split: if_splits)

lemma user_calls_simps [simp]:
  "user_calls [] = []"
  "user_calls (w # ws) = (case op_call w of None \<Rightarrow> [] | Some c \<Rightarrow> [c]) @ user_calls ws"
  by (simp_all add: user_calls_def map_filter_simps split: option.splits)

lemma call_key_system [simp]:
  "call_key (version_call idx w) = versionKey (wKey w)" "call_key (applied_call idx) = appliedKey"
  by (simp_all add: version_call_def applied_call_def)

text \<open>Bookkeeping calls do not touch user keys.\<close>

lemma kv_apply_write_calls_user:
  "\<not> isReserved k \<Longrightarrow> m k = m' k \<Longrightarrow>
   kv_apply m (concat (map (write_calls idx) ws)) k = kv_apply m' (user_calls ws) k"
proof (induction ws arbitrary: m m')
  case (Cons w ws)
  have "versionKey (wKey w) \<noteq> k" using Cons.prems(1) by auto
  then have v: "kv_call n (version_call idx w) k = n k" for n by (simp add: kv_call_at)
  show ?case
  proof (cases "op_call w")
    case None
    then have "write_calls idx w = [version_call idx w]" by (simp add: write_calls_def)
    with None Cons.IH [of "kv_call m (version_call idx w)" m'] Cons.prems v show ?thesis by simp
  next
    case (Some c)
    then have "write_calls idx w = [c, version_call idx w]" by (simp add: write_calls_def)
    moreover have "kv_call m c k = kv_call m' c k" using Cons.prems by (simp add: kv_call_at)
    ultimately show ?thesis
      using Some Cons.IH [of "kv_call (kv_call m c) (version_call idx w)" "kv_call m' c"] Cons.prems v
      by simp
  qed
qed simp

lemma kv_apply_proposal_user:
  assumes "\<not> isReserved k" "m k = m' k"
  shows "kv_apply m (proposal_calls idx p) k = kv_apply m' (user_calls (Writes p)) k"
proof -
  have "k \<noteq> appliedKey" using assms by auto
  then show ?thesis
    using kv_apply_write_calls_user [of k m m' idx "Writes p"] assms
    by (simp add: proposal_calls_def kv_call_at)
qed

lemma kv_apply_user_calls_other: "k \<notin> wKey ` set ws \<Longrightarrow> kv_apply m (user_calls ws) k = m k"
proof -
  assume "k \<notin> wKey ` set ws"
  then have "k \<notin> call_key ` set (user_calls ws)"
    by (induction ws) (auto simp: call_key_op_call split: option.splits)
  then show ?thesis by (rule kv_apply_untouched)
qed

lemma epoch_at_upd [simp]: "epoch_at (ke(k \<mapsto> er)) k' = (if k' = k then er else epoch_at ke k')"
  by (simp add: epoch_at_def)

lemma Epoch_write_epoch [simp]: "Epoch (write_epoch idx w) = idx"
  by (simp add: write_epoch_def)

lemma epoch_at_ke_after:
  "Epoch (epoch_at (ke_after idx ws ke) k) = (if k \<in> wKey ` set ws then idx else Epoch (epoch_at ke k))"
  by (induction ws arbitrary: ke) auto

lemma epoch_at_ke_after_other:
  "k \<notin> wKey ` set ws \<Longrightarrow> epoch_at (ke_after idx ws ke) k = epoch_at ke k"
  by (induction ws arbitrary: ke) auto

subsection \<open>Progress\<close>

definition advance :: "kv \<Rightarrow> epochs \<Rightarrow> uint64 \<Rightarrow> kv \<Rightarrow> epochs \<Rightarrow> uint64 \<Rightarrow> bool" where
  "advance m ke i m' ke' i' \<longleftrightarrow> i \<le> i' \<and>
     (\<forall>k. \<not> isReserved k \<longrightarrow>
        m' k = m k \<and> epoch_at ke' k = epoch_at ke k
        \<or> i < Epoch (epoch_at ke' k) \<and> Epoch (epoch_at ke' k) \<le> i')"

lemma advance_refl: "advance m ke i m ke i"
  by (simp add: advance_def)

lemma advance_trans:
  "advance m1 ke1 i1 m2 ke2 i2 \<Longrightarrow> advance m2 ke2 i2 m3 ke3 i3 \<Longrightarrow> advance m1 ke1 i1 m3 ke3 i3"
  unfolding advance_def
  by (intro conjI allI impI; (metis order_trans order_le_less_trans)?)

lemma advance_same_store: "advance m ke i m' ke' i' \<Longrightarrow> advance m ke i m ke' i'"
  by (auto simp: advance_def)

lemma advance_cong:
  "advance m ke i m' ke' i' \<Longrightarrow> (\<And>k. \<not> isReserved k \<Longrightarrow> m'' k = m' k) \<Longrightarrow> advance m ke i m'' ke' i'"
  by (auto simp: advance_def)

lemma advance_unread:
  assumes "advance m ke i m' ke' i'" "\<not> isReserved k" "Epoch (epoch_at ke' k) \<le> i"
  shows "m' k = m k"
  using assms by (auto simp: advance_def)

lemma word_step:
  assumes "unat (i :: uint64) + 1 < 2 ^ 64"
  shows "i < i + 1" "unat (i + 1) = unat i + 1"
proof -
  show u: "unat (i + 1) = unat i + 1"
    using assms by (simp add: unat_word_ariths)
  then show "i < i + 1" by (simp add: word_less_nat_alt)
qed

lemma advance_accept:
  assumes "i < j"
  shows "advance m ke i (kv_apply m (user_calls (Writes p))) (ke_after j (Writes p) ke) j"
  using assms
  by (auto simp: advance_def epoch_at_ke_after epoch_at_ke_after_other kv_apply_user_calls_other)

lemma serial_store_simps [simp]:
  "serial_store m [] = m" "serial_store m (pr # prs) = serial_store (tx_effect m pr) prs"
  by (simp_all add: serial_store_def)

lemma replay_advance:
  "unat i + length prs < 2 ^ 64 \<Longrightarrow>
   advance m ke i (serial_store m prs) (replay_ke prs i ke) (i + word_of_nat (length prs))"
proof (induction prs arbitrary: m ke i)
  case (Cons pr prs)
  have b: "unat i + 1 < 2 ^ 64" using Cons.prems by simp
  note W = word_step [OF b]
  let ?ke = "if accepted (snd pr) then ke_after (i + 1) (Writes (fst pr)) ke else ke"
  have "advance m ke i (tx_effect m pr) ?ke (i + 1)"
    using advance_accept [OF W(1), of m ke "fst pr"] W(1)
    by (auto simp: tx_effect_def advance_def)
  moreover have "advance (tx_effect m pr) ?ke (i + 1) (serial_store (tx_effect m pr) prs)
      (replay_ke prs (i + 1) ?ke) (i + 1 + word_of_nat (length prs))"
    using Cons.prems W(2) by (intro Cons.IH) simp
  ultimately show ?case by (auto simp: add.assoc dest: advance_trans)
qed (simp add: advance_refl)

lemma replay_batch_store:
  "\<not> isReserved k \<Longrightarrow> m k = m' k \<Longrightarrow> kv_apply m (replay_batch prs i) k = serial_store m' prs k"
proof (induction prs arbitrary: m m' i)
  case (Cons pr prs)
  have "kv_apply m (proposal_calls (i + 1) (fst pr)) k = kv_apply m' (user_calls (Writes (fst pr))) k"
    using Cons.prems by (rule kv_apply_proposal_user)
  with Cons.IH [of "kv_apply m (proposal_calls (i + 1) (fst pr))" "tx_effect m' pr"]
    Cons.IH [of m "tx_effect m' pr"] Cons.prems show ?case
    by (simp add: tx_effect_def)
qed simp

lemma replay_batch_user:
  "\<not> isReserved k \<Longrightarrow> kv_apply m (replay_batch prs i) k = serial_store m prs k"
  by (erule replay_batch_store) (rule refl)

subsection \<open>Version records\<close>

definition version_bound :: "kv \<Rightarrow> uint64 \<Rightarrow> bool" where
  "version_bound m i \<longleftrightarrow> (\<forall>k. Epoch (stored_version (m (versionKey k))) \<le> i)"

text \<open>
  The version records and the running epochs agree, and every record is long enough to be decoded.
\<close>

definition versions_match :: "kv \<Rightarrow> epochs \<Rightarrow> bool" where
  "versions_match m ke \<longleftrightarrow>
     (\<forall>k. stored_version (m (versionKey k)) = epoch_at ke k
        \<and> (\<forall>v. m (versionKey k) = Some v \<longrightarrow> decodeEpochRecord v \<noteq> None))"

lemma version_after_write:
  assumes "clean_write w"
  shows "kv_apply m (write_calls idx w) (versionKey k) =
    (if k = wKey w then Some (encodeEpochRecord (write_epoch idx w)) else m (versionKey k))"
proof -
  have "wKey w \<noteq> versionKey k" using assms by (auto simp: clean_write_def)
  then show ?thesis
    by (auto simp: write_calls_def kv_call_at call_key_op_call version_call_def split: option.splits)
qed

lemma version_after_writes:
  "list_all clean_write ws \<Longrightarrow>
   m (versionKey k) = Some (encodeEpochRecord (epoch_at ke k)) \<or> k \<in> wKey ` set ws \<Longrightarrow>
   kv_apply m (concat (map (write_calls idx) ws)) (versionKey k)
     = Some (encodeEpochRecord (epoch_at (ke_after idx ws ke) k))"
proof (induction ws arbitrary: m ke)
  case (Cons w ws)
  have "clean_write w" using Cons.prems(1) by simp
  with Cons.prems show ?case
    unfolding list.map concat.simps kv_apply_simps ke_after_simps
    by (intro Cons.IH) (auto simp: version_after_write epoch_at_def)
qed simp

lemma version_untouched:
  "list_all clean_write ws \<Longrightarrow> k \<notin> wKey ` set ws \<Longrightarrow>
   kv_apply m (concat (map (write_calls idx) ws)) (versionKey k) = m (versionKey k)"
proof (induction ws arbitrary: m)
  case (Cons w ws)
  then have "clean_write w" by simp
  with Cons.IH [of "kv_apply m (write_calls idx w)"] Cons.prems show ?case
    by (simp add: version_after_write)
qed simp

lemma version_after_proposal:
  assumes "clean p"
  shows "kv_apply m (proposal_calls idx p) (versionKey k)
    = kv_apply m (concat (map (write_calls idx) (Writes p))) (versionKey k)"
  using versionKey_neq_applied [of k] by (simp add: proposal_calls_def kv_call_at)

text \<open>A version record is either left alone or becomes the running epoch, issued in between.\<close>

lemma replay_versions:
  "unat i + length prs < 2 ^ 64 \<Longrightarrow> \<forall>pr \<in> set prs. clean (fst pr) \<Longrightarrow>
   m' = kv_apply m (replay_batch prs i) \<Longrightarrow> ke' = replay_ke prs i ke \<Longrightarrow>
   m' (versionKey k) = m (versionKey k) \<and> epoch_at ke' k = epoch_at ke k
   \<or> m' (versionKey k) = Some (encodeEpochRecord (epoch_at ke' k))
     \<and> Epoch (epoch_at ke' k) \<le> i + word_of_nat (length prs)"
proof (induction prs arbitrary: m ke i)
  case (Cons pr prs)
  have b: "unat i + 1 < 2 ^ 64" using Cons.prems(1) by simp
  have c: "clean (fst pr)" using Cons.prems(2) by simp
  then have cw: "list_all clean_write (Writes (fst pr))" by (simp add: clean_def)
  have le: "i + 1 \<le> i + 1 + word_of_nat (length prs)"
    using replay_advance [of "i + 1" prs] Cons.prems(1) word_step [OF b] by (simp add: advance_def)
  let ?acc = "accepted (snd pr)" and ?k = "k \<in> wKey ` set (Writes (fst pr))"
  let ?m1 = "if ?acc then kv_apply m (proposal_calls (i + 1) (fst pr)) else m"
  let ?ke1 = "if ?acc then ke_after (i + 1) (Writes (fst pr)) ke else ke"
  have "m' = kv_apply ?m1 (replay_batch prs (i + 1))" "ke' = replay_ke prs (i + 1) ?ke1"
    using Cons.prems(3,4) by simp_all
  from Cons.IH [OF _ _ this] Cons.prems(1,2) word_step [OF b]
  have IH: "m' (versionKey k) = ?m1 (versionKey k) \<and> epoch_at ke' k = epoch_at ?ke1 k
      \<or> m' (versionKey k) = Some (encodeEpochRecord (epoch_at ke' k))
        \<and> Epoch (epoch_at ke' k) \<le> i + 1 + word_of_nat (length prs)" by simp
  show ?case
  proof (cases "?acc \<and> ?k")
    case True
    then have "?m1 (versionKey k) = Some (encodeEpochRecord (epoch_at ?ke1 k))" "Epoch (epoch_at ?ke1 k) = i + 1"
      using version_after_writes [OF cw, of m k ke "i + 1"]
      by (simp_all add: version_after_proposal [OF c] epoch_at_ke_after)
    with IH le show ?thesis by (auto simp: add.assoc)
  next
    case False
    then have "?m1 (versionKey k) = m (versionKey k)" "epoch_at ?ke1 k = epoch_at ke k"
      by (auto simp: version_after_proposal [OF c] version_untouched [OF cw] epoch_at_ke_after_other)
    with IH show ?thesis by (auto simp: add.assoc)
  qed
qed simp

lemma replay_version_bound:
  assumes "unat i + length prs < 2 ^ 64" "\<forall>pr \<in> set prs. clean (fst pr)" "version_bound m i"
  shows "version_bound (kv_apply m (replay_batch prs i)) (i + word_of_nat (length prs))"
proof -
  have "i \<le> i + word_of_nat (length prs)"
    using replay_advance [OF assms(1)] by (simp add: advance_def)
  then have "Epoch (stored_version (kv_apply m (replay_batch prs i) (versionKey k))) \<le> i + word_of_nat (length prs)"
    for k
    using replay_versions [OF assms(1,2) refl refl, where k = k and m = m and ke = Map.empty]
      assms(3) [unfolded version_bound_def, rule_format, of k]
    by (auto intro: order_trans)
  then show ?thesis by (simp add: version_bound_def)
qed

lemma replay_versions_match:
  assumes "unat i + length prs < 2 ^ 64" "\<forall>pr \<in> set prs. clean (fst pr)" "versions_match m ke"
  shows "versions_match (kv_apply m (replay_batch prs i)) (replay_ke prs i ke)"
  unfolding versions_match_def
proof
  fix k
  show "stored_version (kv_apply m (replay_batch prs i) (versionKey k)) = epoch_at (replay_ke prs i ke) k
      \<and> (\<forall>v. kv_apply m (replay_batch prs i) (versionKey k) = Some v \<longrightarrow> decodeEpochRecord v \<noteq> None)"
    using replay_versions [OF assms(1,2) refl refl, where k = k and m = m and ke = ke] assms(3)
    by (auto simp: versions_match_def)
qed

lemma replay_ke_none: "\<forall>pr \<in> set prs. \<not> accepted (snd pr) \<Longrightarrow> replay_ke prs i ke = ke"
  by (induction prs arbitrary: i) simp_all

lemma serial_store_none: "\<forall>pr \<in> set prs. \<not> accepted (snd pr) \<Longrightarrow> serial_store m prs = m"
  by (induction prs) (simp_all add: tx_effect_def)

subsection \<open>One batch and a run of batches, over any engine that keeps the contract\<close>

lemma notify_entries_simps [simp]:
  "engine (notify_entries prs f) = engine f" "keyEpoch (notify_entries prs f) = keyEpoch f"
  "applied (notify_entries prs f) = applied f" "syncPolicy (notify_entries prs f) = syncPolicy f"
  by (induction prs arbitrary: f) (simp_all add: notifyBatch_def)

lemma fail_result_rejects: "r \<in> {result_ok, result_conflict} \<Longrightarrow> \<not> accepted (fail_result err r)"
  by (auto simp: fail_result_def accepted_def result_ok_def result_conflict_def result_err_def)

context total_engine
begin

lemma sync_contents:
  "invar e \<Longrightarrow> invar (snd (eSync E e))"
  "invar e \<Longrightarrow> contents (snd (eSync E e)) = contents e"
  "invar e \<Longrightarrow> live e s \<Longrightarrow> live (snd (eSync E e)) s \<and> view (snd (eSync E e)) s = view e s"
  using sync [of e "fst (eSync E e)" "snd (eSync E e)"] by simp_all

text \<open>The outcome of committing: all accepted proposals, or none.\<close>

lemma applyBatchDirect_outcome:
  assumes inv: "invar (engine (fsm d))" and cl: "list_all clean ps"
    and run: "applyBatchDirect E d ps = (rs, d')" and e: "e = engine (fsm d)"
  obtains "length rs = length ps" "index d' = index d + word_of_nat (length ps)"
    "invar (engine (fsm d'))" "\<And>s. live e s \<Longrightarrow> live (engine (fsm d')) s \<and> view (engine (fsm d')) s = view e s"
    "set rs \<subseteq> {result_ok, result_conflict}" "reads_fresh (zip ps rs) (index d) (keyEpoch (fsm d))"
    "keyEpoch (fsm d') = replay_ke (zip ps rs) (index d) (keyEpoch (fsm d))"
    "contents (engine (fsm d')) = kv_apply (contents e) (replay_batch (zip ps rs) (index d))"
  | rs0 where "length rs = length ps" "index d' = index d + word_of_nat (length ps)"
    "invar (engine (fsm d'))" "\<And>s. live e s \<Longrightarrow> live (engine (fsm d')) s \<and> view (engine (fsm d')) s = view e s"
    "\<forall>r \<in> set rs. \<not> accepted r" "length rs0 = length ps"
    "keyEpoch (fsm d') = replay_ke (zip ps rs0) (index d) (keyEpoch (fsm d))"
    "contents (engine (fsm d')) = contents e" "rs0 = rs \<or> (\<exists>b sync. fst (eApplyBatch E e b sync) \<noteq> None)"
proof -
  obtain rs0 d1 b hw where bb: "build_batch d ps = (rs0, d1, b, hw)" by (cases "build_batch d ps")
  have B: "length rs0 = length ps" "set rs0 \<subseteq> {result_ok, result_conflict}"
    "reads_fresh (zip ps rs0) (index d) (keyEpoch (fsm d))"
    "keyEpoch (fsm d1) = replay_ke (zip ps rs0) (index d) (keyEpoch (fsm d))"
    "b = replay_batch (zip ps rs0) (index d)" "index d1 = index d + word_of_nat (length ps)"
    "engine (fsm d1) = e" "hw \<longleftrightarrow> result_ok \<in> set rs0"
    using build_batch_builds [OF cl, of d] by (auto simp: bb builds_def e)
  show thesis
  proof (cases hw)
    case False
    then have "\<forall>r \<in> set rs0. \<not> accepted r" using B(2,8) by auto
    moreover have "rs = rs0" "fsm d' = notify_entries (zip ps rs0) (fsm d1)" "index d' = index d1"
      using run bb False by (auto simp: applyBatchDirect_def Let_def)
    ultimately show thesis using that(2) [of rs0] B inv by (simp add: e)
  next
    case True
    obtain r e1 where ab: "eApplyBatch E e b (syncPolicy (fsm d1) = SyncFull) = (r, e1)" by fastforce
    have inv': "invar e" using inv by (simp add: e)
    note C = commit_contents [OF inv' ab]
    show thesis
    proof (cases r)
      case None
      have "rs = rs0" "engine (fsm d') = (if syncPolicy (fsm d1) = SyncBatch then snd (eSync E e1) else e1)"
        "keyEpoch (fsm d') = keyEpoch (fsm d1)" "index d' = index d1"
        using run bb True ab None B(7) by (auto simp: applyBatchDirect_def commit_batch_def Let_def)
      with that(1) B C sync_contents [OF C(1)] None show thesis by auto
    next
      case (Some err)
      have "rs = map (fail_result err) rs0" "engine (fsm d') = e1"
        "keyEpoch (fsm d') = keyEpoch (fsm d1)" "index d' = index d1"
        using run bb True ab Some B(7) by (auto simp: applyBatchDirect_def commit_batch_def Let_def)
      moreover have "\<forall>r \<in> set rs0. \<not> accepted (fail_result err r)"
        using B(2) by (auto intro!: fail_result_rejects)
      moreover have "\<exists>b sync. fst (eApplyBatch E e b sync) \<noteq> None"
        using ab Some by (metis fst_conv option.distinct(1))
      ultimately show thesis using that(2) [of rs0] B C Some by simp
    qed
  qed
qed

text \<open>A batch moves the store to the serial execution of its accepted proposals.\<close>

lemma applyBatchDirect_serial:
  assumes inv: "invar (engine (fsm d))" and cl: "list_all clean ps"
    and run: "applyBatchDirect E d ps = (rs, d')" and k: "\<not> isReserved k"
  shows "contents (engine (fsm d')) k = serial_store (contents (engine (fsm d))) (zip ps rs) k"
  using inv cl run refl
proof (cases rule: applyBatchDirect_outcome)
  case 1
  then show ?thesis using k by (simp add: replay_batch_user)
next
  case (2 rs0)
  have "serial_store m (zip ps rs) = m" for m
    using 2(5) by (intro serial_store_none) (auto dest: set_zip_rightD)
  with 2 show ?thesis by simp
qed

lemma applyBatchDirect_advance:
  assumes inv: "invar (engine (fsm d))" and cl: "list_all clean ps"
    and run: "applyBatchDirect E d ps = (rs, d')" and ov: "unat (index d) + length ps < 2 ^ 64"
  shows "invar (engine (fsm d'))" "index d' = index d + word_of_nat (length ps)" "length rs = length ps"
    "advance (contents (engine (fsm d))) (keyEpoch (fsm d)) (index d)
       (contents (engine (fsm d'))) (keyEpoch (fsm d')) (index d')"
    "version_bound (contents (engine (fsm d))) (index d) \<Longrightarrow> version_bound (contents (engine (fsm d'))) (index d')"
    "live (engine (fsm d)) s \<Longrightarrow>
       live (engine (fsm d')) s \<and> view (engine (fsm d')) s = view (engine (fsm d)) s"
proof -
  let ?m = "contents (engine (fsm d))" and ?m' = "contents (engine (fsm d'))"
  have c: "\<forall>pr \<in> set (zip ps xs). clean (fst pr)" for xs :: "ApplyResult list"
    using cl by (auto simp: list_all_iff dest: set_zip_leftD)
  have adv: "length xs = length ps \<Longrightarrow> advance ?m (keyEpoch (fsm d)) (index d) (serial_store ?m (zip ps xs))
      (replay_ke (zip ps xs) (index d) (keyEpoch (fsm d))) (index d + word_of_nat (length ps))" for xs
    using replay_advance [of "index d" "zip ps xs"] ov by simp
  have "invar (engine (fsm d')) \<and> index d' = index d + word_of_nat (length ps) \<and> length rs = length ps
    \<and> advance ?m (keyEpoch (fsm d)) (index d) ?m' (keyEpoch (fsm d')) (index d')
    \<and> (version_bound ?m (index d) \<longrightarrow> version_bound ?m' (index d'))
    \<and> (live (engine (fsm d)) s \<longrightarrow>
       live (engine (fsm d')) s \<and> view (engine (fsm d')) s = view (engine (fsm d)) s)"
    using inv cl run refl
  proof (cases rule: applyBatchDirect_outcome)
    case 1
    then have "advance ?m (keyEpoch (fsm d)) (index d) ?m' (keyEpoch (fsm d')) (index d')"
      using advance_cong [OF adv [of rs]] by (simp add: replay_batch_user)
    moreover have "version_bound ?m (index d) \<longrightarrow> version_bound ?m' (index d')"
      using replay_version_bound [of "index d" "zip ps rs" ?m] c ov 1 by simp
    ultimately show ?thesis using 1 by blast
  next
    case (2 rs0)
    then have a: "advance ?m (keyEpoch (fsm d)) (index d) ?m' (keyEpoch (fsm d')) (index d')"
      using advance_same_store [OF adv [of rs0]] by simp
    then have "version_bound ?m (index d) \<longrightarrow> version_bound ?m' (index d')"
      using 2 by (auto simp: version_bound_def advance_def intro: order_trans)
    with a show ?thesis using 2 by blast
  qed
  then show "invar (engine (fsm d'))" "index d' = index d + word_of_nat (length ps)" "length rs = length ps"
    "advance ?m (keyEpoch (fsm d)) (index d) ?m' (keyEpoch (fsm d')) (index d')"
    "version_bound ?m (index d) \<Longrightarrow> version_bound ?m' (index d')"
    "live (engine (fsm d)) s \<Longrightarrow>
       live (engine (fsm d')) s \<and> view (engine (fsm d')) s = view (engine (fsm d)) s"
    by blast+
qed

lemma run_direct_advance:
  assumes "invar (engine (fsm d))" "list_all (list_all clean) pss" "d' = run_direct E d pss"
    "unat (index d) + length (concat pss) < 2 ^ 64"
  shows "invar (engine (fsm d')) \<and> index d' = index d + word_of_nat (length (concat pss))
    \<and> advance (contents (engine (fsm d))) (keyEpoch (fsm d)) (index d)
       (contents (engine (fsm d'))) (keyEpoch (fsm d')) (index d')
    \<and> (version_bound (contents (engine (fsm d))) (index d) \<longrightarrow> version_bound (contents (engine (fsm d'))) (index d'))
    \<and> (live (engine (fsm d)) s \<longrightarrow>
       live (engine (fsm d')) s \<and> view (engine (fsm d')) s = view (engine (fsm d)) s)"
  using assms
proof (induction pss arbitrary: d)
  case (Cons ps pss)
  obtain rs d1 where ab: "applyBatchDirect E d ps = (rs, d1)" by fastforce
  have cl: "list_all clean ps" and ov: "unat (index d) + length ps < 2 ^ 64" using Cons.prems by simp_all
  note A = applyBatchDirect_advance [OF Cons.prems(1) cl ab ov]
  have u: "unat (index d1) = unat (index d) + length ps"
    using ov by (simp add: A(2) unat_word_ariths unat_of_nat)
  have "d' = run_direct E d1 pss" "list_all (list_all clean) pss"
    "unat (index d1) + length (concat pss) < 2 ^ 64"
    using Cons.prems ab u by (simp_all add: run_direct_def)
  note I = Cons.IH [OF A(1) this(2,1,3)]
  have "index d' = index d + word_of_nat (length (concat (ps # pss)))"
    using I A(2) by (simp add: add.assoc)
  with I A(5) A(6) [of s] advance_trans [OF A(4)] show ?case by auto
qed (simp add: run_direct_def advance_refl)

text \<open>
  The central lemma: a transaction that was accepted read, for each key it read plainly, the value
  that the serial execution has at its place.
\<close>

lemma accepted_read_current:
  assumes "invar (engine (fsm d0))" "version_bound (contents (engine (fsm d0))) (index d0)"
    and "list_all (list_all clean) pss" "d = run_direct E d0 pss"
    and "list_all clean ps" "applyBatchDirect E d ps = (rs, d')"
    and "unat (index d0) + length (concat pss) + length ps < 2 ^ 64"
    and "j < length ps" "accepted (rs ! j)" "re \<in> set (ReadSet (ps ! j))" "\<not> rIsDebit re"
    and "\<not> isReserved (rKey re)"
    and "rEpoch re = Epoch (stored_version (contents (engine (fsm d0)) (versionKey (rKey re))))"
  shows "serial_store (contents (engine (fsm d))) (take j (zip ps rs)) (rKey re)
    = contents (engine (fsm d0)) (rKey re)"
proof -
  let ?is = "index d0" and ?ms = "contents (engine (fsm d0))" and ?m = "contents (engine (fsm d))"
  have ov: "unat ?is + length (concat pss) < 2 ^ 64" using assms(7) by simp
  note R = run_direct_advance [OF assms(1,3,4) ov]
  have u: "unat (index d) = unat ?is + length (concat pss)"
    using R ov by (simp add: unat_word_ariths unat_of_nat)
  have ovp: "unat (index d) + length ps < 2 ^ 64" using assms(7) u by simp
  have invd: "invar (engine (fsm d))" using R by blast
  have fresh: "reads_fresh (zip ps rs) (index d) (keyEpoch (fsm d))" "length rs = length ps"
    using invd assms(5,6) refl
    by (cases rule: applyBatchDirect_outcome; use assms(8,9) in \<open>auto simp: all_set_conv_all_nth\<close>)+
  let ?prs = "take j (zip ps rs)"
  have "\<not> stale_read (replay_ke ?prs (index d) (keyEpoch (fsm d))) re"
    using reads_fresh_nth [OF fresh(1), of j re] fresh(2) assms(8,9,10) by simp
  then have le: "Epoch (epoch_at (replay_ke ?prs (index d) (keyEpoch (fsm d))) (rKey re)) \<le> rEpoch re"
    using assms(11) by (auto simp: stale_read_def Let_def not_less)
  also have "rEpoch re \<le> ?is" using assms(2,13) by (simp add: version_bound_def)
  finally have le: "Epoch (epoch_at (replay_ke ?prs (index d) (keyEpoch (fsm d))) (rKey re)) \<le> ?is" .
  have "advance ?m (keyEpoch (fsm d)) (index d) (serial_store ?m ?prs)
      (replay_ke ?prs (index d) (keyEpoch (fsm d))) (index d + word_of_nat (length ?prs))"
    using ovp assms(8) fresh(2) by (intro replay_advance) simp
  with R have "advance ?ms (keyEpoch (fsm d0)) ?is (serial_store ?m ?prs)
      (replay_ke ?prs (index d) (keyEpoch (fsm d))) (index d + word_of_nat (length ?prs))"
    by (blast intro: advance_trans)
  from advance_unread [OF this assms(12) le] show ?thesis .
qed

lemma run_direct_versions_match:
  assumes never: "\<And>e b sync. fst (eApplyBatch E e b sync) = None"
    and "invar (engine (fsm d))" "list_all (list_all clean) pss" "d' = run_direct E d pss"
    "unat (index d) + length (concat pss) < 2 ^ 64"
    and "versions_match (contents (engine (fsm d))) (keyEpoch (fsm d))"
  shows "versions_match (contents (engine (fsm d'))) (keyEpoch (fsm d'))"
  using assms(2-)
proof (induction pss arbitrary: d)
  case (Cons ps pss)
  obtain rs d1 where ab: "applyBatchDirect E d ps = (rs, d1)" by fastforce
  have cl: "list_all clean ps" and ov: "unat (index d) + length ps < 2 ^ 64" using Cons.prems by simp_all
  note A = applyBatchDirect_advance [OF Cons.prems(1) cl ab ov]
  have u: "unat (index d1) = unat (index d) + length ps"
    using ov by (simp add: A(2) unat_word_ariths unat_of_nat)
  have c: "\<forall>pr \<in> set (zip ps rs). clean (fst pr)"
    using cl by (auto simp: list_all_iff dest: set_zip_leftD)
  have "versions_match (contents (engine (fsm d1))) (keyEpoch (fsm d1))"
    using Cons.prems(1) cl ab refl
  proof (cases rule: applyBatchDirect_outcome)
    case 1
    then show ?thesis
      using replay_versions_match [OF _ c Cons.prems(5), of "index d"] ov by simp
  next
    case (2 rs0)
    then have "rs0 = rs" using never by simp
    moreover have "replay_ke (zip ps rs) i ke = ke" for i ke
      using 2(5) by (intro replay_ke_none) (auto dest: set_zip_rightD)
    ultimately show ?thesis using 2 Cons.prems(5) by simp
  qed
  moreover have "d' = run_direct E d1 pss" "list_all (list_all clean) pss"
    "unat (index d1) + length (concat pss) < 2 ^ 64"
    using Cons.prems ab u by (simp_all add: run_direct_def)
  ultimately show ?case using Cons.IH [OF A(1)] by blast
qed (simp add: run_direct_def)

end

end
