(* ===== verification/Recovery.thy ===== *)
theory Recovery
  imports OCC
begin

text \<open>
  Opening a store: \<open>dpxFSM.open\<close> of \<open>src/conductor/fsm.go\<close> scans the version records and rebuilds
  the key epochs that conflict detection uses. The scan covers the keys from \<open>rawIterStart\<close> up to
  \<open>rawIterEnd\<close>, which leaves out the empty user key and user keys that sort at or after sixteen
  0xFF bytes.
\<close>

declare open_scan.simps [simp del]

definition load_version :: "epochs \<Rightarrow> bytes \<times> bytes \<Rightarrow> epochs" where
  "load_version ke kv =
     (if length (fst kv) \<le> length verPrefix then ke
      else ke(drop (length verPrefix) (fst kv) := decodeEpochRecord (snd kv)))"

lemma open_scan_from:
  "n \<le> length pairs \<Longrightarrow>
   \<forall>(k, v) \<in> set pairs. decodeEpochRecord v \<noteq> None \<Longrightarrow>
   open_scan \<lparr>it_pairs = pairs, it_pos = int n\<rparr> ke = Inr (foldl load_version ke (drop n pairs))"
proof (induction "length pairs - n" arbitrary: n ke)
  case 0
  then show ?case by (subst open_scan.simps) (simp add: it_Valid_def)
next
  case (Suc d)
  then have n: "n < length pairs" by simp
  then have "decodeEpochRecord (snd (pairs ! n)) \<noteq> None"
    using Suc.prems(2) nth_mem by (fastforce simp: case_prod_beta)
  then obtain er where er: "decodeEpochRecord (snd (pairs ! n)) = Some er" by auto
  have "d = length pairs - Suc n" using Suc.hyps(2) by simp
  from Suc.hyps(1) [OF this] n Suc.prems(2)
  have IH: "open_scan \<lparr>it_pairs = pairs, it_pos = int n + 1\<rparr> ke'
      = Inr (foldl load_version ke' (drop (Suc n) pairs))" for ke'
    by (simp add: add.commute)
  have "drop n pairs = (pairs ! n) # drop (Suc n) pairs" using n by (simp add: Cons_nth_drop_Suc)
  then show ?case
    using n er
    by (subst open_scan.simps)
      (simp add: it_Valid_def it_Key_def it_Value_def it_Next_def Let_def IH load_version_def)
qed

lemma fsm_open_empty:
  assumes "it_pairs (eRawIter E (engine f) rawIterStart rawIterEnd) = []"
  shows "fsm_open E f = Inr (eCurrentSequence E (engine f),
    f\<lparr>keyEpoch := Map.empty, applied := eCurrentSequence E (engine f)\<rparr>)"
proof -
  let ?it = "eRawIter E (engine f) rawIterStart rawIterEnd"
  have "open_scan (snd (it_First ?it)) Map.empty = Inr Map.empty"
    using assms by (subst open_scan.simps) (simp add: it_First_def it_Valid_def)
  then show ?thesis by (simp add: fsm_open_def Let_def)
qed

subsection \<open>Which keys the scan covers\<close>

lemma append_le_append: "(p @ a :: bytes) \<le> p @ b \<longleftrightarrow> a \<le> b"
  by (induction p) auto

lemma prefix_between:
  "(p :: bytes) \<le> k \<Longrightarrow> \<not> p @ s \<le> k \<Longrightarrow> \<exists>u. k = p @ u"
proof (induction p arbitrary: k)
  case (Cons a p)
  then show ?case by (cases k) (auto split: if_splits)
qed simp

definition scanned_key :: "bytes \<Rightarrow> bool" where
  "scanned_key u \<longleftrightarrow> \<not> replicate 16 0xFF \<le> u"

lemma in_scan_range:
  "in_range rawIterStart rawIterEnd k \<longleftrightarrow> (\<exists>u. k = versionKey u \<and> scanned_key u)"
proof -
  have "rawIterEnd \<noteq> []" by (simp add: rawIterEnd_def)
  moreover have "rawIterStart \<le> versionKey u" for u
    using append_le_append [of verPrefix "[]" u] by (simp add: rawIterStart_def versionKey_def)
  ultimately show ?thesis
    using prefix_between [of verPrefix k "replicate 16 0xFF"]
    by (auto simp: in_range_def rawIterStart_def rawIterEnd_def versionKey_def scanned_key_def
        append_le_append not_less)
qed

lemma foldl_load_version:
  "distinct (map fst pairs) \<Longrightarrow> \<forall>(k, v) \<in> set pairs. \<exists>u. k = versionKey u \<Longrightarrow> u \<noteq> [] \<Longrightarrow>
   foldl load_version ke pairs u = (case map_of pairs (versionKey u) of
     None \<Rightarrow> ke u | Some v \<Rightarrow> decodeEpochRecord v)"
proof (induction pairs arbitrary: ke)
  case (Cons kv pairs)
  obtain k v where kv: "kv = (k, v)" by (cases kv)
  from Cons.prems(2) obtain u' where u': "k = versionKey u'" by (auto simp: kv)
  have one: "load_version ke kv u = (if u' = u then decodeEpochRecord v else ke u)"
    using Cons.prems(3) by (auto simp: load_version_def kv u' versionKey_def)
  have "map_of pairs (versionKey u) = None" if "u' = u"
    using Cons.prems(1) that by (simp add: kv u' map_of_eq_None_iff)
  then show ?case
    using Cons.IH [of "load_version ke kv"] Cons.prems one
    by (auto simp: kv u' split: option.splits)
qed simp

lemma decodeEpochRecord_0: "decodeEpochRecord v = Some er \<Longrightarrow> decodeEpochRecord0 v = er"
  by (auto simp: decodeEpochRecord_def decodeEpochRecord0_def split: if_splits)

context scanning_engine
begin

lemma fsm_open_rebuilds:
  assumes inv: "invar (engine f)"
    and wf: "\<And>u v. contents (engine f) (versionKey u) = Some v \<Longrightarrow> decodeEpochRecord v \<noteq> None"
  shows "\<exists>f'. fsm_open E f = Inr (eCurrentSequence E (engine f), f') \<and> engine f' = engine f
    \<and> applied f' = eCurrentSequence E (engine f)
    \<and> (\<forall>u. u \<noteq> [] \<and> scanned_key u \<longrightarrow>
          epoch_at (keyEpoch f') u = stored_version (contents (engine f) (versionKey u)))"
proof -
  let ?it = "eRawIter E (engine f) rawIterStart rawIterEnd"
  let ?m = "restrict_kv (contents (engine f)) (in_range rawIterStart rawIterEnd)"
  have L: "lists_kv (it_pairs ?it) ?m" using raw_iter [OF inv] by blast
  have P: "\<exists>u. k = versionKey u \<and> contents (engine f) (versionKey u) = Some v"
    if "(k, v) \<in> set (it_pairs ?it)" for k v
    using that lists_kv_set [OF L] by (auto simp: restrict_kv_def in_scan_range split: if_splits)
  then have ok: "\<forall>(k, v) \<in> set (it_pairs ?it). decodeEpochRecord v \<noteq> None" using wf by blast
  have "snd (it_First ?it) = \<lparr>it_pairs = it_pairs ?it, it_pos = int 0\<rparr>" by (simp add: it_First_def)
  with open_scan_from [OF _ ok, of 0] have scan:
    "open_scan (snd (it_First ?it)) Map.empty = Inr (foldl load_version Map.empty (it_pairs ?it))"
    by simp
  have "epoch_at (foldl load_version Map.empty (it_pairs ?it)) u = stored_version (contents (engine f) (versionKey u))"
    if "u \<noteq> []" "scanned_key u" for u
  proof -
    have "in_range rawIterStart rawIterEnd (versionKey u)" using that(2) in_scan_range by blast
    then have "map_of (it_pairs ?it) (versionKey u) = contents (engine f) (versionKey u)"
      using L by (simp add: lists_kv_def restrict_kv_def)
    moreover have "foldl load_version Map.empty (it_pairs ?it) u =
        (case map_of (it_pairs ?it) (versionKey u) of None \<Rightarrow> None | Some v \<Rightarrow> decodeEpochRecord v)"
      using L P that(1) by (intro foldl_load_version [where ke = Map.empty])
        (auto simp: lists_kv_def sorted_wrt_less_distinct)
    ultimately show ?thesis
      using wf [of u] by (auto simp: epoch_at_def stored_version_def decodeEpochRecord_0 split: option.splits)
  qed
  then show ?thesis by (simp add: fsm_open_def Let_def scan)
qed

lemma newDirectProposer_fresh:
  assumes "invar e" "contents e = Map.empty"
  shows "\<exists>d. newDirectProposer E e pol w = Inr d \<and> engine (fsm d) = e \<and> keyEpoch (fsm d) = Map.empty
    \<and> index d = 0 \<and> syncPolicy (fsm d) = pol"
proof -
  let ?it = "eRawIter E e rawIterStart rawIterEnd"
  have "lists_kv (it_pairs ?it) Map.empty"
    using raw_iter [OF assms(1)] assms(2) by (simp add: restrict_kv_def)
  then have "it_pairs ?it = []" using lists_kv_set by fastforce
  then show ?thesis
    by (simp add: newDirectProposer_def fsm_open_empty newFSM_def)
qed

end

end
