(* ===== verification/Memory_Props.thy ===== *)
theory Memory_Props
  imports Memory_Engine Recovery
begin

text \<open>
  What the in-memory engine of \<open>src/engine/memory/memory.go\<close> promises: the refinement of the
  abstract store by both layouts, isolation and order of scans, the recovery of the applied
  index, and the round trip through a checkpoint. The B-tree hypotheses are discharged for the
  association-list instance \<open>alist_pkg\<close>.
\<close>

subsection \<open>The engine keeps the contract\<close>

lemmas memory_engine_ops = memory_engine_def GetSnapshot_def

lemma mem_snap_lookup:
  "mem_live e s \<Longrightarrow> bt_get (pkg e) (st_tree (snap_state s k)) k = mem_view e s k"
  by (cases s) (simp_all add: tree_map_def shards_map_def)

lemma mem_snap_iter:
  assumes "btree_ok (pkg e)" "mem_live e s"
  shows "it_pos (snap_NewIter e s start stop) = -1 \<and> lists_kv (it_pairs (snap_NewIter e s start stop))
    (restrict_kv (mem_view e s) (\<lambda>k. in_range start stop k \<and> \<not> isReserved k))"
proof (cases s)
  case (memSnapshot st)
  then show ?thesis
    by (simp add: new_iter_def tree_map_def lists_kv_drop_reserved lists_kv_scan_range [OF assms(1)])
next
  case (shardedSnapshot sts)
  then show ?thesis
    using assms(2)
    by (simp add: new_iter_def lists_kv_shards tree_map_def lists_kv_drop_reserved
        lists_kv_scan_range [OF assms(1)])
qed

lemma mem_raw_iter:
  assumes "mem_invar e"
  shows "it_pos (RawIter e start stop) = -1 \<and> lists_kv (it_pairs (RawIter e start stop))
    (restrict_kv (mem_contents e) (in_range start stop))"
proof -
  have B: "btree_ok (pkg e)" using assms by (simp add: mem_invar_def)
  show ?thesis
    using assms lists_kv_scan_range [OF B]
    by (simp add: RawIter_def rawIterSharded_def rawIterLegacy_def new_iter_def mem_contents_def
        tree_map_def mem_invar_def lists_kv_shards)
qed

interpretation mem: scanning_engine memory_engine mem_invar mem_contents mem_live mem_view "\<lambda>_ _. True" "\<lambda>_. True"
proof (unfold_locales, goal_cases)
  case (1 e k)
  then show ?case
    by (simp add: memory_engine_ops engine_Get_def mem_contents_def tree_map_def shards_map_def
        kv_result_def)
next
  case (2 e s e')
  then show ?case
    by (auto simp: memory_engine_ops mem_contents_def mem_invar_def)
next
  case (3 e s e' s')
  then show ?case by (simp add: memory_engine_ops)
next
  case (4 e b sync e')
  then show ?case by (simp add: memory_engine_def mem_ApplyBatch)
next
  case (5 e b sync e' s)
  then have "pkg e' = pkg e" "sharded e' = sharded e"
    by (simp_all add: memory_engine_def mem_ApplyBatch(3,4))
  with 5 show ?case by (cases s) simp_all
next
  case (6 e b sync err e')
  then show ?case by (simp add: memory_engine_def ApplyBatch_def)
next
  case (7 e r e')
  then show ?case by (simp add: memory_engine_def)
next
  case (8 e s k)
  then show ?case
    by (simp add: memory_engine_def snap_Get_def mem_snap_lookup kv_result_def)
next
  case (9 e s k)
  then show ?case
    by (simp add: memory_engine_def snap_GetVersion_def Let_def mem_snap_lookup stored_version_def)
next
  case (10 e s start stop)
  then show ?case by (simp add: memory_engine_def mem_snap_iter mem_invar_def)
next
  case (12 e start stop)
  then show ?case by (simp add: memory_engine_def mem_raw_iter)
qed simp

interpretation memt: total_engine memory_engine mem_invar mem_contents mem_live mem_view "\<lambda>_ _. True" "\<lambda>_. True"
  by unfold_locales simp

subsection \<open>Checkpoint and reopen\<close>

lemma collect_items_fresh:
  "distinct (map fst (d @ xs)) \<Longrightarrow> collect_items d xs = d @ xs"
proof (induction xs arbitrary: d)
  case (Cons x xs)
  obtain k v where x: "x = (k, v)" by (cases x)
  with Cons.prems have "AList.update k v d = d @ [(k, v)]"
    by (intro AList_update_fresh) auto
  with Cons.prems Cons.IH [of "d @ [(k, v)]"] show ?case
    by (simp add: collect_items_def x)
qed (simp add: collect_items_def)

lemma collect_items_shards:
  "foldl (\<lambda>d st. collect_items d (f st)) d sts = collect_items d (concat (map f sts))"
  by (induction sts arbitrary: d) (simp_all add: collect_items_def)

text \<open>The pairs a checkpoint lists.\<close>

definition checkpoint_items :: "'t Engine \<Rightarrow> data_map" where
  "checkpoint_items e =
     (if sharded e then concat (map (\<lambda>st. bt_scan (pkg e) (st_tree st)) (shards e))
      else bt_scan (pkg e) (st_tree (cur e)))"

lemma checkpoint_items:
  assumes "mem_invar e"
  shows "distinct (map fst (checkpoint_items e))" "map_of (checkpoint_items e) = mem_contents e"
    "CreateCheckpoint e = encodeDump (checkpoint_items e) (CurrentSequence e)"
proof -
  have B: "btree_ok (pkg e)" using assms by (simp add: mem_invar_def)
  have scan: "lists_kv (bt_scan (pkg e) (st_tree st)) (tree_map (pkg e) st)" for st
    using btree_okD(4) [OF B] by (simp add: tree_map_def)
  have all: "restrict_kv m (\<lambda>_. True) = m" for m by (simp add: restrict_kv_def)
  have srt: "lists_kv (sort_key fst (checkpoint_items e)) (mem_contents e)"
  proof (cases "sharded e")
    case True
    then have "shards_ok (pkg e) (shards e)" using assms by (simp add: mem_invar_def)
    from lists_kv_shards [OF this, of "\<lambda>st. bt_scan (pkg e) (st_tree st)" "\<lambda>_. True"] True show ?thesis
      by (simp add: checkpoint_items_def mem_contents_def all scan)
  next
    case False
    then have "sort_key fst (checkpoint_items e) = checkpoint_items e"
      using scan [of "cur e"]
      by (auto simp: checkpoint_items_def lists_kv_def strict_sorted_iff intro: sort_key_id_if_sorted)
    with False scan show ?thesis by (simp add: checkpoint_items_def mem_contents_def)
  qed
  then show dist: "distinct (map fst (checkpoint_items e))"
    by (simp add: lists_kv_def strict_sorted_iff distinct_map)
  have "map_of (sort_key fst (checkpoint_items e)) = map_of (checkpoint_items e)"
    using lists_kv_sort [OF dist] by (simp add: lists_kv_def)
  with srt show "map_of (checkpoint_items e) = mem_contents e"
    by (simp add: lists_kv_def)
  show "CreateCheckpoint e = encodeDump (checkpoint_items e) (CurrentSequence e)"
    using dist collect_items_fresh [of "[]"]
    by (cases "sharded e") (simp_all add: CreateCheckpoint_def CurrentSequence_def checkpoint_items_def
        collect_items_shards)
qed

lemma map_add_fresh:
  "k \<notin> fst ` set data \<Longrightarrow> m(k \<mapsto> v) ++ map_of data = m ++ map_of ((k, v) # data)"
  by (simp add: map_add_upd_left dom_map_of_conv_image_fst)

lemma tree_map_load:
  "btree_ok B \<Longrightarrow> distinct (map fst data) \<Longrightarrow>
   bt_get B (foldl (\<lambda>t (k, v). bt_set B t k v) t data) = bt_get B t ++ map_of data"
proof (induction data arbitrary: t)
  case (Cons e data)
  then show ?case
    by (cases e) (simp add: btree_okD map_add_fresh del: map_of.simps)
qed simp

lemma load_item_tree:
  assumes "shards_ok (pkg e) (shards e)" "btree_ok (pkg e)"
  shows "tree_map (pkg e) (shards (load_item e (k, v)) ! i) =
    (if i = shardFor k then (tree_map (pkg e) (shards e ! i))(k \<mapsto> v)
     else tree_map (pkg e) (shards e ! i))"
proof -
  have "length (shards e) = numShards" using assms(1) by (simp add: shards_ok_def)
  then show ?thesis
    using assms(2) by (simp add: load_item_def Let_def tree_map_def nth_list_update btree_okD)
qed

lemma load_items:
  assumes "shards_ok (pkg e) (shards e)" "btree_ok (pkg e)" "distinct (map fst data)"
    "e' = foldl load_item e data"
  shows "pkg e' = pkg e \<and> sharded e' = sharded e \<and> shards_ok (pkg e) (shards e')
    \<and> shards_map (pkg e) (shards e') = shards_map (pkg e) (shards e) ++ map_of data"
  using assms
proof (induction data arbitrary: e)
  case (Cons d data)
  obtain k v where d: "d = (k, v)" by (cases d)
  note tree = load_item_tree [OF Cons.prems(1,2), of k v]
  have ok: "shards_ok (pkg e) (shards (load_item e d))"
    using Cons.prems(1) tree by (auto simp: shards_ok_def d load_item_def Let_def)
  have m: "shards_map (pkg e) (shards (load_item e d)) = (shards_map (pkg e) (shards e))(k \<mapsto> v)"
    by (auto simp: fun_eq_iff d shards_map_def tree)
  have p: "pkg (load_item e d) = pkg e" "sharded (load_item e d) = sharded e"
    by (simp_all add: d load_item_def Let_def)
  from Cons.IH [of "load_item e d"] Cons.prems ok m p show ?case
    by (simp add: d map_add_fresh del: map_of.simps)
qed simp

lemma max_applied_aux:
  "\<forall>st \<in> set sts. st_applied st = a \<Longrightarrow>
   foldl (\<lambda>mx st. if st_applied st > mx then st_applied st else mx) m sts
     = (if sts = [] \<or> a \<le> m then m else a)"
proof (induction sts arbitrary: m)
  case (Cons st sts)
  then have "st_applied st = a" by simp
  moreover have "a \<le> m \<longleftrightarrow> \<not> m < a" by (simp add: not_less)
  ultimately show ?case
    using Cons.prems Cons.IH [of m] Cons.IH [of a] by simp
qed simp

lemma max_applied_const:
  "sts \<noteq> [] \<Longrightarrow> \<forall>st \<in> set sts. st_applied st = a \<Longrightarrow> max_applied sts = a"
  unfolding max_applied_def by (subst max_applied_aux [where a = a]) simp_all

subsection \<open>Fresh engines\<close>

lemma mem_New:
  assumes "btree_ok B"
  shows "mem_invar (New B)" "mem_contents (New B) = Map.empty"
    "mem_invar (NewSharded B)" "mem_contents (NewSharded B) = Map.empty"
  using assms
  by (auto simp: mem_invar_def mem_contents_def New_def NewSharded_def fresh_state_def tree_map_def
      shards_ok_def shards_map_def btree_okD)

lemma mem_Open:
  assumes "e0 = New B \<or> e0 = NewSharded B" "btree_ok B" "dump_ok data"
  shows "\<exists>e. engine_Open e0 (Some (encodeDump data ap)) = Inr e \<and> mem_invar e
    \<and> mem_contents e = map_of data \<and> CurrentSequence e = ap \<and> sharded e = sharded e0"
  using assms(1)
proof
  assume e0: "e0 = New B"
  then show ?thesis
    using assms(2,3) tree_map_load [OF assms(2), of data "bt_new B"]
    by (simp add: engine_Open_def decodeDump_encode New_def mem_invar_def mem_contents_def
        tree_map_def CurrentSequence_def dump_ok_def btree_okD)
next
  assume e0: "e0 = NewSharded B"
  let ?e = "foldl load_item e0 data"
  have p: "pkg e0 = B" "sharded e0" by (simp_all add: e0 NewSharded_def)
  have "shards_ok (pkg e0) (shards e0)" "btree_ok (pkg e0)" "distinct (map fst data)"
    using mem_New(3) [OF assms(2)] assms(2,3) p e0 by (auto simp: mem_invar_def dump_ok_def)
  from load_items [OF this refl] mem_New(4) [OF assms(2)]
  have L: "pkg ?e = B" "sharded ?e" "shards_ok B (shards ?e)" "shards_map B (shards ?e) = map_of data"
    using p by (auto simp: mem_contents_def e0)
  let ?e' = "?e\<lparr>shards := map (\<lambda>st. st\<lparr>st_applied := ap\<rparr>) (shards ?e)\<rparr>"
  have len: "length (shards ?e) = numShards" using L(3) by (simp add: shards_ok_def)
  have "mem_invar ?e' \<and> mem_contents ?e' = map_of data"
    using L len assms(2) by (simp add: mem_invar_def mem_contents_def shards_ok_def shards_map_def
        tree_map_def)
  moreover have "CurrentSequence ?e' = ap"
    using L len by (simp add: CurrentSequence_def numShards_def max_applied_const flip: length_greater_0_conv)
  ultimately show ?thesis
    using assms(3) p L(2) by (simp add: engine_Open_def decodeDump_encode Let_def)
qed

subsection \<open>The applied index\<close>

lemma apply_op_applied:
  "bkey op \<noteq> appliedKey \<Longrightarrow> st_applied (apply_op B st op) = st_applied st"
  by (simp add: apply_op_def Let_def)

lemma apply_ops_applied:
  "\<forall>op \<in> set ops. bkey op \<noteq> appliedKey \<Longrightarrow>
   st_applied (foldl (apply_op B) st ops) = st_applied st"
  by (induction ops arbitrary: st) (simp_all add: apply_op_applied)

lemma bkey_call_op [simp]: "bkey (call_op c) = call_key c"
  by (cases c) simp_all

lemma apply_op_set_applied:
  "st_applied (apply_op B st (call_op (BSet appliedKey (encodeUint64 idx)))) = idx"
  by (simp add: apply_op_def encodeUint64_def decodeUint64_def)

lemma max_applied_fold_le:
  "m \<le> foldl (\<lambda>mx st. if st_applied st > mx then st_applied st else mx) m sts
   \<and> (\<forall>st \<in> set sts. st_applied st \<le> foldl (\<lambda>mx st. if st_applied st > mx then st_applied st else mx) m sts)
   \<and> (foldl (\<lambda>mx st. if st_applied st > mx then st_applied st else mx) m sts = m
      \<or> foldl (\<lambda>mx st. if st_applied st > mx then st_applied st else mx) m sts \<in> st_applied ` set sts)"
proof (induction sts arbitrary: m)
  case (Cons st sts)
  have "m \<le> (if st_applied st > m then st_applied st else m)"
    "st_applied st \<le> (if st_applied st > m then st_applied st else m)" by auto
  with Cons.IH [of "if st_applied st > m then st_applied st else m"] show ?case
    by (force intro: order_trans)
qed simp

lemma max_applied_eqI:
  assumes "st \<in> set sts" "st_applied st = a" "\<forall>st \<in> set sts. st_applied st \<le> a"
  shows "max_applied sts = a"
proof -
  have "a \<le> max_applied sts" using assms(1,2) max_applied_fold_le [of 0 sts] by (auto simp: max_applied_def)
  moreover have "max_applied sts \<le> a"
    using assms(3) max_applied_fold_le [of 0 sts] by (auto simp: max_applied_def)
  ultimately show ?thesis by (rule order_antisym [rotated])
qed

lemma max_applied_upper: "st \<in> set sts \<Longrightarrow> st_applied st \<le> max_applied sts"
  using max_applied_fold_le [of 0 sts] by (simp add: max_applied_def)

subsection \<open>A B-tree for the witnesses\<close>

definition alist_pkg :: "data_map btree_pkg" where
  "alist_pkg =
     \<lparr>bt_new = [], bt_set = (\<lambda>t k v. AList.update k v t), bt_delete = (\<lambda>t k. AList.delete k t),
      bt_get = map_of, bt_scan = (\<lambda>t. sort_key fst (AList.clearjunk t)),
      bt_ascend = (\<lambda>t p. filter (\<lambda>(k, v). p \<le> k) (sort_key fst (AList.clearjunk t)))\<rparr>"

lemma btree_ok_alist_pkg: "btree_ok alist_pkg"
proof -
  have "lists_kv (sort_key fst (AList.clearjunk t)) (map_of t)" for t :: data_map
    using lists_kv_sort [of "AList.clearjunk t"] by (simp add: map_of_clearjunk distinct_clearjunk)
  then show ?thesis
    by (simp add: btree_ok_def alist_pkg_def update_conv' delete_conv')
qed

lemma lists_kv_sorted: "lists_kv xs m \<Longrightarrow> sorted_wrt (<) (map fst xs)"
  by (simp add: lists_kv_def)

subsection \<open>Properties\<close>

definition run_batches :: "'t Engine \<Rightarrow> (batch \<times> bool) list \<Rightarrow> 't Engine" where
  "run_batches e bs = foldl (\<lambda>e (b, sync). snd (ApplyBatch e b sync)) e bs"

lemma run_batches_contents:
  assumes "mem_invar e" "e' = run_batches e bs"
  shows "mem_invar e'" "mem_contents e' = kv_apply (mem_contents e) (concat (map fst bs))"
    "pkg e' = pkg e" "sharded e' = sharded e"
proof -
  have "mem_invar e' \<and> mem_contents e' = kv_apply (mem_contents e) (concat (map fst bs))
      \<and> pkg e' = pkg e \<and> sharded e' = sharded e"
    using assms
  proof (induction bs arbitrary: e)
    case (Cons bs1 bs)
    obtain b sync where p: "bs1 = (b, sync)" by (cases bs1)
    obtain r e1 where r: "ApplyBatch e b sync = (r, e1)" by (cases "ApplyBatch e b sync")
    note A = mem_ApplyBatch [OF Cons.prems(1) r]
    have "e' = run_batches e1 bs" using Cons.prems(2) r by (simp add: run_batches_def p)
    from Cons.IH [OF A(1) this] A show ?case by (simp add: p)
  qed (simp add: run_batches_def)
  then show "mem_invar e'" "mem_contents e' = kv_apply (mem_contents e) (concat (map fst bs))"
    "pkg e' = pkg e" "sharded e' = sharded e" by auto
qed

lemma engine_Get_contents: "mem_invar e \<Longrightarrow> engine_Get e k = kv_result (mem_contents e k)"
  using mem.get [of e k] by (simp add: memory_engine_def)

text \<open>
  C5. After any sequence of batches, the engine built by \<open>NewSharded\<close> and the one built by
  \<open>New\<close> answer every \<open>Get\<close> as the abstract store does that replays all sets, deletes and merges
  in order: splitting a batch by shard and applying the shards in index order loses nothing.
\<close>

theorem sharded_and_legacy_agree:
  assumes "btree_ok B"
  shows "engine_Get (run_batches (NewSharded B) bs) k = kv_result (kv_apply Map.empty (concat (map fst bs)) k)
    \<and> engine_Get (run_batches (New B) bs) k = engine_Get (run_batches (NewSharded B) bs) k"
  using run_batches_contents [OF mem_New(1) [OF assms] refl, of bs]
    run_batches_contents [OF mem_New(3) [OF assms] refl, of bs]
  by (simp add: engine_Get_contents mem_New [OF assms])

theorem sharded_and_legacy_agree_witness:
  "btree_ok alist_pkg \<and>
   engine_Get (run_batches (NewSharded alist_pkg) [([BSet [1] [7], BSet [2] [8]], False), ([BDelete [1]], True)]) [2]
     = Inr [8]
   \<and> engine_Get (run_batches (New alist_pkg) [([BSet [1] [7], BSet [2] [8]], False), ([BDelete [1]], True)]) [1]
     = Inl ErrKeyNotFound"
  using sharded_and_legacy_agree [OF btree_ok_alist_pkg,
      of "[([BSet [1] [7], BSet [2] [8]], False), ([BDelete [1]], True)]" "[1]"]
    sharded_and_legacy_agree [OF btree_ok_alist_pkg,
      of "[([BSet [1] [7], BSet [2] [8]], False), ([BDelete [1]], True)]" "[2]"]
  by (simp add: btree_ok_alist_pkg kv_call_def)



text \<open>
  A range scan of a snapshot lists, in strictly increasing key order and each once, exactly
  the committed pairs whose key lies in the requested half-open range and is not reserved, for
  the legacy tree walk and for the sharded collect-and-sort alike.
\<close>

theorem memory_scan_exact:
  assumes "mem_invar e" "GetSnapshot e = (s, e1)"
  shows "sorted_wrt (<) (map fst (it_pairs (snap_NewIter e1 s start stop)))
    \<and> ((k, v) \<in> set (it_pairs (snap_NewIter e1 s start stop)) \<longleftrightarrow>
         engine_Get e k = Inr v \<and> in_range start stop k \<and> \<not> isReserved k)"
proof -
  have e1: "e1 = e" using assms(2) by (simp add: GetSnapshot_def)
  have s: "mem_live e s" "mem_view e s = mem_contents e"
    using mem.snapshot [OF assms(1), of s e1] assms(2) e1 by (simp_all add: memory_engine_def)
  have L: "lists_kv (it_pairs (snap_NewIter e s start stop))
      (restrict_kv (mem_contents e) (\<lambda>k. in_range start stop k \<and> \<not> isReserved k))"
    using mem.snap_iter [OF assms(1) s(1)] s(2) by (simp add: memory_engine_def)
  show ?thesis
    using lists_kv_sorted [OF L] lists_kv_set [OF L]
    by (auto simp: e1 engine_Get_contents [OF assms(1)] kv_result_def restrict_kv_def
        split: option.splits if_splits)
qed

theorem memory_scan_exact_witness:
  "([2], [8]) \<in> set (it_pairs (snap_NewIter (run_batches (NewSharded alist_pkg) [([BSet [2] [8]], False)])
     (fst (GetSnapshot (run_batches (NewSharded alist_pkg) [([BSet [2] [8]], False)]))) [1] [3]))"
proof -
  let ?e = "run_batches (NewSharded alist_pkg) [([BSet [2] [8]], False)]"
  note R = run_batches_contents [OF mem_New(3) [OF btree_ok_alist_pkg] refl]
  obtain s e1 where s: "GetSnapshot ?e = (s, e1)" by (cases "GetSnapshot ?e")
  have "e1 = ?e" using s by (simp add: GetSnapshot_def)
  moreover have "engine_Get ?e [2] = Inr [8]"
    using R by (simp add: engine_Get_contents mem_New [OF btree_ok_alist_pkg] kv_call_def)
  ultimately show ?thesis
    using memory_scan_exact [OF R(1) s, of "[1]" "[3]" "[2]" "[8]"] s
    by (simp add: in_range_def isReserved_def dpxPrefixBytes_def go_string_def)
qed

text \<open>
  Checkpoint and reopen: opening the directory \<open>CreateCheckpoint\<close> wrote restores every key
  and the applied index, whichever of the two layouts wrote it and whichever reads it, provided
  the keys and values fit the length fields of the dump format.
\<close>

theorem checkpoint_open_roundtrip:
  assumes "mem_invar e" "dump_ok (checkpoint_items e)"
    "btree_ok B" "e0 = New B \<or> e0 = NewSharded B"
  shows "\<exists>e'. engine_Open e0 (Some (CreateCheckpoint e)) = Inr e'
    \<and> (\<forall>k. engine_Get e' k = engine_Get e k) \<and> CurrentSequence e' = CurrentSequence e"
proof -
  note C = checkpoint_items [OF assms(1)]
  from mem_Open [OF assms(4,3,2)] obtain e' where
    "engine_Open e0 (Some (CreateCheckpoint e)) = Inr e'" "mem_invar e'"
    "mem_contents e' = mem_contents e" "CurrentSequence e' = CurrentSequence e"
    by (auto simp: C)
  then show ?thesis by (auto simp: engine_Get_contents assms(1))
qed

theorem checkpoint_open_roundtrip_witness:
  "\<exists>e'. engine_Open (NewSharded alist_pkg)
       (Some (CreateCheckpoint (run_batches (New alist_pkg) [([BSet [1] [7]], False)]))) = Inr e'
     \<and> engine_Get e' [1] = Inr [7]"
proof -
  let ?e = "run_batches (New alist_pkg) [([BSet [1] [7]], False)]"
  have "checkpoint_items ?e = [([1], [7])]"
    by (simp add: run_batches_def ApplyBatch_def New_def fresh_state_def checkpoint_items_def
        applyBatchLegacy_def memBatch_Set_def apply_op_def Let_def alist_pkg_def)
  then have ok: "dump_ok (checkpoint_items ?e)" by (simp add: dump_ok_def)
  note R = run_batches_contents [OF mem_New(1) [OF btree_ok_alist_pkg] refl]
  have "engine_Get ?e [1] = Inr [7]"
    using R by (simp add: engine_Get_contents mem_New [OF btree_ok_alist_pkg] kv_call_def)
  with checkpoint_open_roundtrip [OF R(1) ok btree_ok_alist_pkg, of "NewSharded alist_pkg"]
  show ?thesis by auto
qed

text \<open>
  \<open>CurrentSequence\<close> reports the index a batch commits with its applied key, also in the
  sharded layout, where only one shard sees that key and the answer is a maximum over all
  shards, as long as indices do not go backwards.
\<close>

theorem memory_current_sequence:
  assumes inv: "mem_invar e" and le: "CurrentSequence e \<le> idx"
    and b: "\<forall>c \<in> set b. call_key c \<noteq> appliedKey"
    and app: "ApplyBatch e (b @ [BSet appliedKey (encodeUint64 idx)]) sync = (r, e')"
  shows "CurrentSequence e' = idx"
proof (cases "sharded e")
  case False
  then show ?thesis
    using app by (auto simp: ApplyBatch_def applyBatchLegacy_def foldl_memBatch_call
        foldl_append [of "apply_op (pkg e)"] CurrentSequence_def apply_op_set_applied simp del: call_op.simps memBatch_call.simps foldl_append)
next
  case True
  let ?c = "BSet appliedKey (encodeUint64 idx)"
  have len: "length (shards e) = numShards" using inv True by (simp add: mem_invar_def shards_ok_def)
  have e': "e' = applyBatchSharded e (foldl shardedBatch_call [] (b @ [?c]))"
    using app True by (simp add: ApplyBatch_def)
  note A = applyBatchSharded_calls [OF len e']
  have at: "st_applied (shards e' ! shardFor appliedKey) = idx"
    using A(4) [of "shardFor appliedKey"] by (simp add: apply_op_set_applied del: call_op.simps)
  have "st_applied (shards e' ! i) \<le> idx" if i: "i < numShards" for i
  proof (cases "i = shardFor appliedKey")
    case False
    have "\<forall>op \<in> set (map call_op (calls_for (b @ [?c]) i)). bkey op \<noteq> appliedKey"
      using b False by (auto simp: calls_for_def)
    then have "st_applied (shards e' ! i) = st_applied (shards e ! i)"
      by (simp add: A(4) [OF i] apply_ops_applied)
    also have "\<dots> \<le> idx"
      using le True max_applied_upper [of "shards e ! i" "shards e"] i len
      by (auto simp: CurrentSequence_def intro: order_trans)
    finally show ?thesis .
  qed (simp add: at)
  then have "max_applied (shards e') = idx"
    using A(3) at
    by (intro max_applied_eqI [of "shards e' ! shardFor appliedKey"])
      (auto simp: in_set_conv_nth intro: shardFor_less)
  with A(1) True show ?thesis by (simp add: CurrentSequence_def)
qed

theorem memory_current_sequence_witness:
  "CurrentSequence (snd (ApplyBatch (NewSharded alist_pkg)
     ([BSet [1] [7]] @ [BSet appliedKey (encodeUint64 5)]) False)) = 5"
proof -
  obtain r e' where r: "ApplyBatch (NewSharded alist_pkg)
     ([BSet [1] [7]] @ [BSet appliedKey (encodeUint64 5)]) False = (r, e')" by fastforce
  have "CurrentSequence (NewSharded alist_pkg) = 0"
    by (simp add: CurrentSequence_def NewSharded_def max_applied_const fresh_state_def numShards_def)
  moreover have "[1] \<noteq> appliedKey" by (simp add: appliedKey_def go_string_def)
  ultimately show ?thesis
    using memory_current_sequence [OF mem_New(3) [OF btree_ok_alist_pkg] _ _ r] r by simp
qed

end
