(* ===== verification/Validation.thy ===== *)
theory Validation
  imports OCC
begin

text \<open>
  Conflict detection from the other side: a rejection always has a cause, the two shadow
  structures of \<open>src/conductor/direct.go\<close> agree when the array cannot overflow and no key is both
  credited and otherwise written in one batch, and the submission loop hands every proposal to
  exactly one batch, in order.
\<close>

subsection \<open>Why proposals are rejected\<close>

text \<open>
  A rejected proposal read a key that was written after its read, or one written at an index above
  \<open>i0\<close>, where \<open>i0\<close> is the index the batch started from or an earlier one.
\<close>

primrec rejects_justified :: "uint64 \<Rightarrow> (Proposal \<times> ApplyResult) list \<Rightarrow> uint64 \<Rightarrow> epochs \<Rightarrow> bool" where
  "rejects_justified i0 [] i ke \<longleftrightarrow> True"
| "rejects_justified i0 (pr # prs) i ke \<longleftrightarrow>
     (\<not> accepted (snd pr) \<longrightarrow>
        (\<exists>re \<in> set (ReadSet (fst pr)). stale_read ke re \<or> i0 < Epoch (epoch_at ke (rKey re))))
     \<and> rejects_justified i0 prs (i + 1)
         (if accepted (snd pr) then ke_after (i + 1) (Writes (fst pr)) ke else ke)"

lemma rejects_justified_nth:
  assumes "rejects_justified i0 prs i ke" "j < length prs" "\<not> accepted (snd (prs ! j))"
  shows "\<exists>re \<in> set (ReadSet (fst (prs ! j))).
    stale_read (replay_ke (take j prs) i ke) re
    \<or> i0 < Epoch (epoch_at (replay_ke (take j prs) i ke) (rKey re))"
  using assms
proof (induction prs arbitrary: i ke j)
  case (Cons pr prs)
  then show ?case by (cases j) auto
qed simp

text \<open>Whatever a shadow holds was written in this batch, above \<open>i0\<close>.\<close>

definition shadow_above :: "uint64 \<Rightarrow> (bytes \<Rightarrow> EpochRecord option) \<Rightarrow> epochs \<Rightarrow> bool" where
  "shadow_above i0 look ke \<longleftrightarrow> (\<forall>k. look k \<noteq> None \<longrightarrow> i0 < Epoch (epoch_at ke k))"

lemma stack_lookup_push:
  "stack_lookup (stack_push stack k' er) k =
     (if stack_lookup stack k = None \<and> k' = k \<and> length stack < maxStackShadow then Some er
      else stack_lookup stack k)"
  by (auto simp: stack_lookup_def stack_push_def find_append split: option.splits)

lemma stack_after_simps [simp]:
  "stack_after idx [] stack = stack"
  "stack_after idx (w # ws) stack = stack_after idx ws (stack_push stack (wKey w) (write_epoch idx w))"
  by (simp_all add: stack_after_def)

lemma stack_lookup_after:
  "stack_lookup (stack_after idx ws stack) k \<noteq> None \<Longrightarrow>
   stack_lookup stack k \<noteq> None \<or> k \<in> wKey ` set ws"
  by (induction ws arbitrary: stack) (fastforce simp: stack_lookup_push split: if_splits)+

lemma ke_after_domain: "ke_after idx ws ke k \<noteq> None \<Longrightarrow> ke k \<noteq> None \<or> k \<in> wKey ` set ws"
  by (induction ws arbitrary: ke) (fastforce split: if_splits)+

lemma shadow_above_after:
  assumes "shadow_above i0 look ke" "i0 < idx"
    "\<And>k. look' k \<noteq> None \<Longrightarrow> look k \<noteq> None \<or> k \<in> wKey ` set ws"
  shows "shadow_above i0 look' (ke_after idx ws ke)"
  using assms unfolding shadow_above_def epoch_at_ke_after by metis

lemma shadowed_above:
  "shadow_above i0 look ke \<Longrightarrow> shadowed_read (look (rKey re)) re \<Longrightarrow> i0 < Epoch (epoch_at ke (rKey re))"
  by (auto simp: shadow_above_def shadowed_read_def split: option.splits)

lemma stack_entries_justified:
  "unat (index d) + length ps < 2 ^ 64 \<Longrightarrow> i0 \<le> index d \<Longrightarrow>
   shadow_above i0 (stack_lookup stack) (keyEpoch (fsm d)) \<Longrightarrow>
   stack_entries ps d stack b hw = (rs, d', b', hw') \<Longrightarrow>
   rejects_justified i0 (zip ps rs) (index d) (keyEpoch (fsm d))"
proof (induction ps arbitrary: d stack b hw rs d' b' hw')
  case (Cons p ps)
  have bnd: "unat (index d) + 1 < 2 ^ 64" using Cons.prems(1) by simp
  note W = word_step [OF bnd]
  have lt: "i0 < index d + 1" using Cons.prems(2) W(1) by (rule order_le_less_trans)
  obtain r d1 stack1 b1 hw1 where e: "stack_entry p d stack b hw = (r, d1, stack1, b1, hw1)"
    by (cases "stack_entry p d stack b hw")
  obtain rs1 d2 b2 hw2 where es: "stack_entries ps d1 stack1 b1 hw1 = (rs1, d2, b2, hw2)"
    by (cases "stack_entries ps d1 stack1 b1 hw1")
  have rs: "rs = r # rs1" using Cons.prems(4) by (simp add: e es Let_def)
  let ?ke = "keyEpoch (fsm d)"
  have i1: "index d1 = index d + 1" using stack_entry_builds [OF e] by blast
  show ?case
  proof (cases "stack_conflict ?ke p stack")
    case True
    then have c: "r = result_conflict" "keyEpoch (fsm d1) = ?ke" "stack1 = stack"
      using e by (auto simp: stack_entry_def Let_def)
    from True Cons.prems(3) have "\<exists>re \<in> set (ReadSet p). stale_read ?ke re \<or> i0 < Epoch (epoch_at ?ke (rKey re))"
      by (auto simp: stack_conflict_def list_ex_iff dest: shadowed_above)
    with Cons.IH [OF _ _ _ es] Cons.prems(1,3) lt W(2) i1 c show ?thesis by (simp add: rs)
  next
    case False
    then have c: "r = result_ok" "keyEpoch (fsm d1) = ke_after (index d + 1) (Writes p) ?ke"
      "stack1 = stack_after (index d + 1) (Writes p) stack"
      using e by (auto simp: stack_entry_def Let_def stack_writes_eq)
    have "shadow_above i0 (stack_lookup stack1) (keyEpoch (fsm d1))"
      unfolding c(2) using Cons.prems(3) lt
      by (rule shadow_above_after) (unfold c(3), rule stack_lookup_after)
    with Cons.IH [OF _ _ _ es] Cons.prems(1) lt W(2) i1 c show ?thesis by (simp add: rs)
  qed
qed simp

lemma map_entries_justified:
  "list_all clean ps \<Longrightarrow> unat (index d) + length ps < 2 ^ 64 \<Longrightarrow> i0 \<le> index d \<Longrightarrow>
   shadow_above i0 shadow (keyEpoch (fsm d)) \<Longrightarrow>
   map_entries ps d shadow b hw = (rs, d', b', hw') \<Longrightarrow>
   rejects_justified i0 (zip ps rs) (index d) (keyEpoch (fsm d))"
proof (induction ps arbitrary: d shadow b hw rs d' b' hw')
  case (Cons p ps)
  have bnd: "unat (index d) + 1 < 2 ^ 64" using Cons.prems(2) by simp
  note W = word_step [OF bnd]
  have lt: "i0 < index d + 1" using Cons.prems(3) W(1) by (rule order_le_less_trans)
  have cp: "clean p" "list_all clean ps" using Cons.prems(1) by simp_all
  obtain r d1 shadow1 b1 hw1 where e: "map_entry p d shadow b hw = (r, d1, shadow1, b1, hw1)"
    by (cases "map_entry p d shadow b hw")
  obtain rs1 d2 b2 hw2 where es: "map_entries ps d1 shadow1 b1 hw1 = (rs1, d2, b2, hw2)"
    by (cases "map_entries ps d1 shadow1 b1 hw1")
  have rs: "rs = r # rs1" using Cons.prems(5) by (simp add: e es Let_def)
  let ?ke = "keyEpoch (fsm d)"
  have i1: "index d1 = index d + 1" using map_entry_builds [OF e cp(1)] by blast
  show ?case
  proof (cases "detectConflict ?ke p shadow")
    case True
    then have c: "r = result_conflict" "keyEpoch (fsm d1) = ?ke" "shadow1 = shadow"
      using e by (auto simp: map_entry_def Let_def)
    from True Cons.prems(4) have "\<exists>re \<in> set (ReadSet p). stale_read ?ke re \<or> i0 < Epoch (epoch_at ?ke (rKey re))"
      by (auto simp: detectConflict_def list_ex_iff dest: shadowed_above)
    with Cons.IH [OF cp(2) _ _ _ es] Cons.prems(2,4) lt W(2) i1 c show ?thesis by (simp add: rs)
  next
    case False
    then have c: "r = result_ok" "keyEpoch (fsm d1) = ke_after (index d + 1) (Writes p) ?ke"
      "shadow1 = ke_after (index d + 1) (Writes p) shadow"
      using e cp(1) by (auto simp: map_entry_def Let_def applyProposalToBatch_def clean_def apply_writes_ke_batch)
    have "shadow_above i0 shadow1 (keyEpoch (fsm d1))"
      unfolding c(2) using Cons.prems(4) lt
      by (rule shadow_above_after) (unfold c(3), rule ke_after_domain)
    with Cons.IH [OF cp(2) _ _ _ es] Cons.prems(2) lt W(2) i1 c show ?thesis by (simp add: rs)
  qed
qed simp

lemma build_batch_justified:
  assumes "list_all clean ps" "unat (index d) + length ps < 2 ^ 64" "i0 \<le> index d"
    "build_batch d ps = (rs, d', b, hw)"
  shows "rejects_justified i0 (zip ps rs) (index d) (keyEpoch (fsm d))"
proof -
  have sh: "shadow_above i0 (stack_lookup []) ke" "shadow_above i0 Map.empty ke" for ke
    by (simp_all add: shadow_above_def stack_lookup_def)
  show ?thesis
  proof (cases "length ps \<le> maxStackShadow")
    case True
    then show ?thesis
      using stack_entries_justified [OF assms(2,3) sh(1)] assms(4) by (simp add: build_batch_def)
  next
    case False
    then show ?thesis
      using map_entries_justified [OF assms(1-3) sh(2)] assms(4) by (simp add: build_batch_def)
  qed
qed

subsection \<open>The two shadow structures\<close>

definition credit_flags :: "(bytes \<Rightarrow> bool) \<Rightarrow> WriteEntry list \<Rightarrow> bool" where
  "credit_flags cr ws \<longleftrightarrow> list_all (\<lambda>w. (wOp w = OpCredit) = cr (wKey w)) ws"

definition shadow_sim :: "(bytes \<Rightarrow> bool) \<Rightarrow> shadowEntry list \<Rightarrow> epochs \<Rightarrow> bool" where
  "shadow_sim cr stack shadow \<longleftrightarrow>
     (\<forall>k. map_option IsCredit (stack_lookup stack k) = map_option IsCredit (shadow k)
        \<and> (\<forall>er. shadow k = Some er \<longrightarrow> IsCredit er = cr k))"

lemma shadow_sim_read:
  assumes "shadow_sim cr stack shadow"
  shows "shadowed_read (stack_lookup stack (rKey re)) re = shadowed_read (shadow (rKey re)) re"
proof -
  have "map_option IsCredit (stack_lookup stack (rKey re)) = map_option IsCredit (shadow (rKey re))"
    using assms by (simp add: shadow_sim_def)
  then show ?thesis
    by (cases "stack_lookup stack (rKey re)"; cases "shadow (rKey re)") (simp_all add: shadowed_read_def)
qed

lemma shadow_sim_push:
  assumes "shadow_sim cr stack shadow" "IsCredit er = cr k" "length stack < maxStackShadow"
  shows "shadow_sim cr (stack_push stack k er) (shadow(k \<mapsto> er))"
  unfolding shadow_sim_def
proof
  fix k'
  have "map_option IsCredit (stack_lookup stack k') = map_option IsCredit (shadow k')"
    "\<And>er. shadow k' = Some er \<Longrightarrow> IsCredit er = cr k'"
    using assms(1) by (auto simp: shadow_sim_def)
  then show "map_option IsCredit (stack_lookup (stack_push stack k er) k')
        = map_option IsCredit ((shadow(k \<mapsto> er)) k')
      \<and> (\<forall>er'. (shadow(k \<mapsto> er)) k' = Some er' \<longrightarrow> IsCredit er' = cr k')"
    using assms(2,3) by (cases "shadow k'") (auto simp: stack_lookup_push)
qed

lemma shadow_sim_after:
  "shadow_sim cr stack shadow \<Longrightarrow> credit_flags cr ws \<Longrightarrow> length stack + length ws \<le> maxStackShadow \<Longrightarrow>
   shadow_sim cr (stack_after idx ws stack) (ke_after idx ws shadow)
   \<and> length (stack_after idx ws stack) = length stack + length ws"
proof (induction ws arbitrary: stack shadow)
  case (Cons w ws)
  let ?er = "write_epoch idx w"
  have sim: "shadow_sim cr (stack_push stack (wKey w) ?er) (shadow(wKey w \<mapsto> ?er))"
    using Cons.prems by (intro shadow_sim_push) (auto simp: credit_flags_def write_epoch_def)
  have len: "length (stack_push stack (wKey w) ?er) = length stack + 1"
    using Cons.prems(3) by (simp add: stack_push_def)
  have "credit_flags cr ws" "length (stack_push stack (wKey w) ?er) + length ws \<le> maxStackShadow"
    using Cons.prems len by (simp_all add: credit_flags_def)
  note IH = Cons.IH [OF sim this]
  have "shadow_sim cr (stack_after idx (w # ws) stack) (ke_after idx (w # ws) shadow)"
    unfolding ke_after_simps stack_after_simps by (rule IH [THEN conjunct1])
  with IH len show ?case by simp
qed simp

lemma entries_agree:
  "list_all clean ps \<Longrightarrow> list_all (\<lambda>p. credit_flags cr (Writes p)) ps \<Longrightarrow>
   length stack + length (concat (map Writes ps)) \<le> maxStackShadow \<Longrightarrow> shadow_sim cr stack shadow \<Longrightarrow>
   stack_entries ps d stack b hw = map_entries ps d shadow b hw"
proof (induction ps arbitrary: d stack shadow b hw)
  case (Cons p ps)
  let ?d = "next_entry p d"
  have "clean p" using Cons.prems(1) by simp
  have same: "stack_conflict (keyEpoch (fsm ?d)) p stack = detectConflict (keyEpoch (fsm ?d)) p shadow"
    using shadow_sim_read [OF Cons.prems(4)] by (simp add: stack_conflict_def detectConflict_def)
  show ?case
  proof (cases "detectConflict (keyEpoch (fsm ?d)) p shadow")
    case True
    then show ?thesis
      using Cons.IH [OF _ _ _ Cons.prems(4), of "count_conflict ?d" b hw] Cons.prems(1-3) same
      by (simp add: stack_entry_def map_entry_def Let_def)
  next
    case False
    let ?s = "stack_after (index ?d) (Writes p) stack" and ?m = "ke_after (index ?d) (Writes p) shadow"
    have S: "shadow_sim cr ?s ?m" "length ?s = length stack + length (Writes p)"
      using shadow_sim_after [OF Cons.prems(4)] Cons.prems(2,3) by simp_all
    show ?thesis
      using Cons.IH [OF _ _ _ S(1)] S(2) Cons.prems(1-3) same False \<open>clean p\<close>
      by (simp add: stack_entry_def map_entry_def Let_def stack_writes_eq applyProposalToBatch_def
          apply_writes_ke_batch clean_def)
  qed
qed simp

subsection \<open>The submission loop\<close>

definition applier_inv :: "'e applier \<Rightarrow> bool" where
  "applier_inv a \<longleftrightarrow> map fst (delivered a) @ pending a @ submitCh a = submitted a
     \<and> length (pending a) < maxBatchSize \<and> length (submitCh a) \<le> submitBufSize"

lemma length_entries:
  "length (fst (stack_entries ps d stack b hw)) = length ps"
  "length (fst (map_entries ps d shadow b hw)) = length ps"
  by (induction ps arbitrary: d stack shadow b hw) (simp_all add: Let_def case_prod_beta)

lemma length_results: "applyBatchDirect E d ps = (rs, d') \<Longrightarrow> length rs = length ps"
proof -
  assume run: "applyBatchDirect E d ps = (rs, d')"
  obtain rs0 d1 b hw where bb: "build_batch d ps = (rs0, d1, b, hw)" by (cases "build_batch d ps")
  then have "length rs0 = length ps"
    using length_entries(1) [of ps d "[]" "[]" False] length_entries(2) [of ps d Map.empty "[]" False]
    by (simp add: build_batch_def split: if_splits)
  moreover have "length (fst (commit_batch E d1 b rs0)) = length rs0"
    by (simp add: commit_batch_def Let_def split: prod.splits option.splits)
  ultimately show ?thesis
    using run bb by (auto simp: applyBatchDirect_def Let_def split: prod.splits if_splits)
qed

lemma applier_inv_flush:
  assumes "map fst (delivered a) @ pending a @ submitCh a = submitted a" "length (submitCh a) \<le> submitBufSize"
  shows "applier_inv (flush E a)"
proof -
  obtain rs d where run: "applyBatchDirect E (proposer a) (pending a) = (rs, d)" by fastforce
  then have "map fst (zip (pending a) rs) = pending a" by (simp add: length_results)
  with assms run show ?thesis
    by (auto simp: flush_def applier_inv_def maxBatchSize_def Let_def)
qed

lemma applier_inv_step:
  assumes "applier_step E a a'" "applier_inv a"
  shows "applier_inv a'"
  using assms
proof cases
  case (submit p)
  then show ?thesis using assms(2) by (auto simp: applier_inv_def)
next
  case ticker
  then show ?thesis using assms(2) applier_inv_flush [of a E] by (simp add: applier_inv_def)
next
  case recv
  then obtain p q where q: "submitCh a = p # q" by (cases "submitCh a") auto
  let ?r = "maxBatchSize - (length (pending a) + 1)"
  have eq: "map fst (delivered (drain a)) @ pending (drain a) @ submitCh (drain a) = submitted (drain a)"
    and le: "length (submitCh (drain a)) \<le> submitBufSize"
    using assms(2) q by (auto simp: drain_def applier_inv_def Let_def)
  show ?thesis
  proof (cases "length (pending (drain a)) \<ge> maxBatchSize")
    case True
    then show ?thesis using recv eq le by (simp add: receive_def Let_def applier_inv_flush)
  next
    case False
    then show ?thesis using recv eq le by (simp add: receive_def Let_def applier_inv_def)
  qed
next
  case stop
  then show ?thesis
    using applier_inv_flush [of a E] assms(2) by (auto simp: applier_inv_def)
qed

lemma applier_inv_reachable:
  "(applier_step E)\<^sup>*\<^sup>* (start_applier d) a \<Longrightarrow> applier_inv a"
proof (induction rule: rtranclp_induct)
  case base
  then show ?case by (simp add: start_applier_def applier_inv_def maxBatchSize_def)
qed (rule applier_inv_step)

text \<open>From every state of the running loop, receives and one tick deliver everything submitted.\<close>

lemma applier_drains:
  assumes "running a" "applier_inv a"
  shows "\<exists>a'. (applier_step E)\<^sup>*\<^sup>* a a' \<and> running a' \<and> submitted a' = submitted a
    \<and> map fst (delivered a') = submitted a"
  using assms
proof (induction "length (submitCh a)" arbitrary: a rule: less_induct)
  case less
  show ?case
  proof (cases "submitCh a")
    case Nil
    have inv: "applier_inv (flush E a)"
      using less.prems(2) by (intro applier_inv_flush) (simp_all add: applier_inv_def)
    have "applier_step E a (flush E a)" using less.prems(1) by (rule ticker)
    moreover have "pending (flush E a) = [] \<and> submitCh (flush E a) = [] \<and> running (flush E a)
        \<and> submitted (flush E a) = submitted a"
      using Nil less.prems(1) by (simp add: flush_def Let_def split: prod.splits)
    ultimately show ?thesis using inv by (auto simp: applier_inv_def)
  next
    case (Cons p q)
    have st: "applier_step E a (receive E a)" using less.prems(1) Cons by (intro recv) simp_all
    have "running (receive E a)" "submitted (receive E a) = submitted a"
      "length (submitCh (receive E a)) < length (submitCh a)"
      using Cons less.prems(1)
      by (simp_all add: receive_def drain_def flush_def Let_def less_Suc_eq_le split: prod.splits)
    from less.hyps [OF this(3,1) applier_inv_step [OF st less.prems(2)]] this(2) st show ?thesis
      by (metis converse_rtranclp_into_rtranclp)
  qed
qed

end
