(* ===== verification/Direct_Props.thy ===== *)
theory Direct_Props
  imports Memory_Props Validation
begin

text \<open>
  The properties of the direct proposer over the in-memory engine: serial execution of the
  accepted proposals, currency of their reads, recovery of the key epochs, and the executions in
  which the code departs from what its documentation says.
\<close>

subsection \<open>Reachable proposers\<close>

lemma memory_never_fails: "fst (eApplyBatch memory_engine e b sync) = None"
  by (simp add: memory_engine_def ApplyBatch_def)

lemma fresh_memory:
  assumes "btree_ok B" "e = New B \<or> e = NewSharded B" "newDirectProposer memory_engine e pol w = Inr d"
  shows "mem_invar (engine (fsm d))" "mem_contents (engine (fsm d)) = Map.empty"
    "keyEpoch (fsm d) = Map.empty" "index d = 0" "engine (fsm d) = e"
proof -
  have "mem_invar e" "mem_contents e = Map.empty" using assms(1,2) mem_New by blast+
  from mem.newDirectProposer_fresh [OF this, of pol w] assms(3) this
  show "mem_invar (engine (fsm d))" "mem_contents (engine (fsm d)) = Map.empty"
    "keyEpoch (fsm d) = Map.empty" "index d = 0" "engine (fsm d) = e" by auto
qed

text \<open>A proposer opened on a fresh engine that has applied some batches of clean proposals.\<close>

definition memory_run ::
  "'t btree_pkg \<Rightarrow> 't Engine \<Rightarrow> SyncPolicy \<Rightarrow> bool \<Rightarrow> Proposal list list \<Rightarrow> 't Engine directProposer \<Rightarrow> bool" where
  "memory_run B e pol w pss d \<longleftrightarrow>
     btree_ok B \<and> (e = New B \<or> e = NewSharded B) \<and> list_all (list_all clean) pss
     \<and> length (concat pss) < 2 ^ 64
     \<and> (\<exists>d0. newDirectProposer memory_engine e pol w = Inr d0 \<and> d = run_direct memory_engine d0 pss)"

lemma memory_run_facts:
  assumes "memory_run B e pol w pss d"
  shows "mem_invar (engine (fsm d))" "unat (index d) = length (concat pss)"
    "version_bound (mem_contents (engine (fsm d))) (index d)"
    "versions_match (mem_contents (engine (fsm d))) (keyEpoch (fsm d))"
proof -
  from assms obtain d0 where d0: "newDirectProposer memory_engine e pol w = Inr d0"
    "d = run_direct memory_engine d0 pss" and c: "btree_ok B" "e = New B \<or> e = NewSharded B"
    "list_all (list_all clean) pss" "length (concat pss) < 2 ^ 64"
    by (auto simp: memory_run_def)
  note F = fresh_memory [OF c(1,2) d0(1)]
  have ov: "unat (index d0) + length (concat pss) < 2 ^ 64" using c(4) F(4) by simp
  have vb: "version_bound (mem_contents (engine (fsm d0))) (index d0)"
    "versions_match (mem_contents (engine (fsm d0))) (keyEpoch (fsm d0))"
    by (simp_all add: F(2-4) version_bound_def versions_match_def epoch_at_def)
  note R = memt.run_direct_advance [OF F(1) c(3) d0(2) ov]
  show "mem_invar (engine (fsm d))" "version_bound (mem_contents (engine (fsm d))) (index d)"
    using R vb by blast+
  show "unat (index d) = length (concat pss)" using R c(4) F(4) by (simp add: unat_of_nat)
  show "versions_match (mem_contents (engine (fsm d))) (keyEpoch (fsm d))"
    by (rule memt.run_direct_versions_match [OF memory_never_fails F(1) c(3) d0(2) ov vb(2)])
qed

lemma run_direct_append: "run_direct E d (pss @ qss) = run_direct E (run_direct E d pss) qss"
  by (simp add: run_direct_def)

subsection \<open>A small scenario\<close>

text \<open>A proposer on an empty legacy engine, and proposals with one write or one signed addition.\<close>

definition direct0 :: "data_map Engine directProposer" where
  "direct0 = \<lparr>fsm = newFSM (New alist_pkg) SyncNone False\<lparr>skipHLC := True\<rparr>, index = 0,
     closed = False, ConflictTotal = 0\<rparr>"

definition op_p :: "ReadEntry list \<Rightarrow> byte \<Rightarrow> bytes \<Rightarrow> bytes \<Rightarrow> Proposal" where
  "op_p rs op k v = \<lparr>ReadSet = rs, Writes = [\<lparr>wOp = op, wKey = k, wValue = v\<rparr>],
     TimestampWall = 0, TimestampCounter = 0\<rparr>"

definition read_e :: "bytes \<Rightarrow> uint64 \<Rightarrow> bool \<Rightarrow> ReadEntry" where
  "read_e k ep debit = \<lparr>rKey = k, rEpoch = ep, rIsDebit = debit\<rparr>"

lemma newDirectProposer_direct0:
  "newDirectProposer memory_engine (New alist_pkg) SyncNone False = Inr direct0"
  by (simp add: newDirectProposer_def fsm_open_def open_scan.simps memory_engine_def newFSM_def
      direct0_def New_def RawIter_def rawIterLegacy_def scan_range_def fresh_state_def alist_pkg_def
      new_iter_def it_First_def it_Valid_def Let_def CurrentSequence_def)

lemma memory_run_direct0:
  "list_all (list_all clean) pss \<Longrightarrow> length (concat pss) < 2 ^ 64 \<Longrightarrow>
   memory_run alist_pkg (New alist_pkg) SyncNone False pss (run_direct memory_engine direct0 pss)"
  using btree_ok_alist_pkg newDirectProposer_direct0 by (auto simp: memory_run_def)

lemma clean_op_p: "valid_op op \<Longrightarrow> \<not> isReserved k \<Longrightarrow> clean (op_p rs op k v)"
  by (simp add: clean_def clean_write_def op_p_def)

subsection \<open>Serializability\<close>

text \<open>
  C3. One call of \<open>applyBatchDirect\<close> commits exactly its accepted proposals, in order and each as a
  whole: afterwards every user key reads as in the serial execution of the accepted proposals on
  the store before, whichever of the two shadow paths the batch size selects.
\<close>

theorem batch_is_serial:
  assumes "memory_run B e pol w pss d" "list_all clean ps" "applyBatchDirect memory_engine d ps = (rs, d')"
    "\<not> isReserved k"
  shows "engine_Get (engine (fsm d')) k
    = kv_result (serial_store (mem_contents (engine (fsm d))) (zip ps rs) k)"
proof -
  have inv: "mem_invar (engine (fsm d))" using memory_run_facts [OF assms(1)] by blast
  have "mem_invar (engine (fsm d'))"
    using inv assms(2,3) refl by (cases rule: memt.applyBatchDirect_outcome)
  then show ?thesis
    using memt.applyBatchDirect_serial [OF inv assms(2,3,4)] by (simp add: engine_Get_contents)
qed

theorem batch_is_serial_witness:
  "engine_Get (engine (fsm (snd (applyBatchDirect memory_engine direct0
      [op_p [] OpSet [1] [7], op_p [read_e [1] 0 False] OpSet [1] [8]])))) [1] = Inr [7]"
proof -
  let ?ps = "[op_p [] OpSet [1] [7], op_p [read_e [1] 0 False] OpSet [1] [8]]"
  obtain rs d' where run: "applyBatchDirect memory_engine direct0 ?ps = (rs, d')" by fastforce
  have cl: "list_all clean ?ps" by code_simp
  have k: "\<not> isReserved [1]" by code_simp
  have m: "memory_run alist_pkg (New alist_pkg) SyncNone False [] direct0"
    using memory_run_direct0 [of "[]"] by (simp add: run_direct_def)
  have "serial_store (mem_contents (engine (fsm direct0)))
      (zip ?ps (fst (applyBatchDirect memory_engine direct0 ?ps))) [1] = Some [7]" by code_simp
  with batch_is_serial [OF m cl run k] run show ?thesis by simp
qed



lemma memory_results:
  assumes "applyBatchDirect memory_engine d ps = (rs, d')"
  shows "\<exists>d1 b hw. build_batch d ps = (rs, d1, b, hw)"
proof -
  obtain rs0 d1 b hw where bb: "build_batch d ps = (rs0, d1, b, hw)" by (cases "build_batch d ps")
  then have "rs = rs0"
    using assms
    by (auto simp: applyBatchDirect_def commit_batch_def memory_engine_def ApplyBatch_def Let_def split: if_splits)
  with bb show ?thesis by blast
qed

text \<open>
  C19. No spurious conflicts: if a proposal whose reads carry the versions of a snapshot is rejected,
  then one of the keys it read was written after that snapshot, either by an earlier batch or by an
  earlier proposal of the same batch: the epoch in force at its place was issued after the snapshot.
\<close>

theorem rejections_justified:
  assumes "memory_run B e pol w pss0 d0" "GetSnapshot (engine (fsm d0)) = (s, e1)"
    and "memory_run B e pol w (pss0 @ pss @ [ps]) d'"
    and "d = run_direct memory_engine d0 pss" "applyBatchDirect memory_engine d ps = (rs, d')"
    and "j < length ps" "\<not> accepted (rs ! j)"
    and "\<forall>re \<in> set (ReadSet (ps ! j)). \<not> isReserved (rKey re) \<and> rEpoch re = Epoch (snap_GetVersion e1 s (rKey re))"
  shows "\<exists>re \<in> set (ReadSet (ps ! j)).
    index d0 < Epoch (epoch_at (replay_ke (take j (zip ps rs)) (index d) (keyEpoch (fsm d))) (rKey re))"
proof -
  note F = memory_run_facts [OF assms(1)]
  have e1: "e1 = engine (fsm d0)" using assms(2) by (simp add: GetSnapshot_def)
  have s: "mem_live e1 s" "mem_view e1 s = mem_contents e1"
    using mem.snapshot [OF F(1), of s e1] assms(2) e1 by (simp_all add: memory_engine_def)
  have v: "snap_GetVersion e1 s k = epoch_at (keyEpoch (fsm d0)) k" for k
    using mem.snap_version [of e1 s k] F(1,4) s e1 by (simp add: memory_engine_def versions_match_def)
  have c: "list_all (list_all clean) pss" "list_all clean ps"
    "unat (index d0) + length (concat pss) < 2 ^ 64"
    "unat (index d0) + length (concat pss) + length ps < 2 ^ 64"
    using assms(3) F(2) by (simp_all add: memory_run_def)
  note R = memt.run_direct_advance [OF F(1) c(1) assms(4) c(3)]
  have u: "unat (index d) = unat (index d0) + length (concat pss)"
    using R c(3) by (simp add: unat_word_ariths unat_of_nat)
  have le: "index d0 \<le> index d" using R unfolding advance_def by blast
  obtain d1 b hw where bb: "build_batch d ps = (rs, d1, b, hw)" using memory_results [OF assms(5)] by blast
  have len: "length rs = length ps" using assms(5) by (rule length_results)
  let ?prs = "take j (zip ps rs)"
  let ?ke = "replay_ke ?prs (index d) (keyEpoch (fsm d))"
  have "rejects_justified (index d0) (zip ps rs) (index d) (keyEpoch (fsm d))"
    using build_batch_justified [OF c(2) _ le bb] c(4) u by simp
  from rejects_justified_nth [OF this, of j] assms(6,7) len
  obtain re where re: "re \<in> set (ReadSet (ps ! j))"
    "stale_read ?ke re \<or> index d0 < Epoch (epoch_at ?ke (rKey re))" by auto
  have "advance (mem_contents (engine (fsm d))) (keyEpoch (fsm d)) (index d)
      (serial_store (mem_contents (engine (fsm d))) ?prs) ?ke (index d + word_of_nat (length ?prs))"
    using c(4) u assms(6) len by (intro replay_advance) simp
  with R have adv: "advance (mem_contents (engine (fsm d0))) (keyEpoch (fsm d0)) (index d0)
      (serial_store (mem_contents (engine (fsm d))) ?prs) ?ke (index d + word_of_nat (length ?prs))"
    by (blast intro: advance_trans)
  have "\<not> isReserved (rKey re)" "rEpoch re = Epoch (epoch_at (keyEpoch (fsm d0)) (rKey re))"
    using assms(8) re(1) v by auto
  with adv have "stale_read ?ke re \<Longrightarrow> index d0 < Epoch (epoch_at ?ke (rKey re))"
    by (force simp: advance_def stale_read_def Let_def)
  with re show ?thesis by blast
qed

theorem rejections_justified_witness:
  "\<exists>re \<in> set (ReadSet (op_p [read_e [1] 1 False] OpSet [2] [8])).
     index (run_direct memory_engine direct0 [[op_p [] OpSet [1] [7]]])
       < Epoch (epoch_at (keyEpoch (fsm (run_direct memory_engine direct0
           [[op_p [] OpSet [1] [7]], [op_p [] OpSet [1] [9]]]))) (rKey re))"
proof -
  let ?p = "op_p [] OpSet [1] [7]" and ?q = "op_p [] OpSet [1] [9]"
    and ?r = "op_p [read_e [1] 1 False] OpSet [2] [8]"
  let ?ds = "run_direct memory_engine direct0 [[?p]]"
  let ?d = "run_direct memory_engine ?ds [[?q]]"
  obtain rs d' where run: "applyBatchDirect memory_engine ?d [?r] = (rs, d')" by fastforce
  have m0: "memory_run alist_pkg (New alist_pkg) SyncNone False [[?p]] ?ds"
    by (rule memory_run_direct0) (code_simp, simp)
  have d': "d' = run_direct memory_engine direct0 ([[?p]] @ [[?q]] @ [[?r]])"
    using run by (simp add: run_direct_def)
  have m1: "memory_run alist_pkg (New alist_pkg) SyncNone False ([[?p]] @ [[?q]] @ [[?r]]) d'"
    unfolding d' by (rule memory_run_direct0) (code_simp, simp)
  have "\<not> sharded (engine (fsm ?ds))" by code_simp
  then have sn: "GetSnapshot (engine (fsm ?ds)) = (memSnapshot (cur (engine (fsm ?ds))), engine (fsm ?ds))"
    by (simp add: GetSnapshot_def)
  have "\<not> accepted (fst (applyBatchDirect memory_engine ?d [?r]) ! 0)" by code_simp
  then have rej: "\<not> accepted (rs ! 0)" using run by simp
  have re: "\<forall>re \<in> set (ReadSet ([?r] ! 0)). \<not> isReserved (rKey re) \<and>
      rEpoch re = Epoch (snap_GetVersion (engine (fsm ?ds)) (memSnapshot (cur (engine (fsm ?ds)))) (rKey re))"
    by code_simp
  have "?d = run_direct memory_engine direct0 [[?p], [?q]]" by (simp add: run_direct_def)
  with rejections_justified [OF m0 sn m1 refl run _ rej re] show ?thesis by simp
qed

text \<open>
  C29. Recovery: after any history, opening a new proposer on the engine rebuilds exactly the epochs
  the running proposer had, for every non-empty user key below sixteen 0xFF bytes, and reports the
  engine's applied index.
\<close>

theorem reopen_rebuilds_epochs:
  assumes "memory_run B e pol w pss d"
  shows "\<exists>d1. newDirectProposer memory_engine (engine (fsm d)) pol w = Inr d1
    \<and> engine (fsm d1) = engine (fsm d) \<and> applied (fsm d1) = CurrentSequence (engine (fsm d))
    \<and> (\<forall>k. k \<noteq> [] \<and> scanned_key k \<longrightarrow> epoch_at (keyEpoch (fsm d1)) k = epoch_at (keyEpoch (fsm d)) k)"
proof -
  note F = memory_run_facts [OF assms]
  let ?f = "newFSM (engine (fsm d)) pol w\<lparr>skipHLC := True\<rparr>"
  have f: "engine ?f = engine (fsm d)" by (simp add: newFSM_def)
  have wf: "mem_contents (engine ?f) (versionKey u) = Some v \<Longrightarrow> decodeEpochRecord v \<noteq> None" for u v
    using F(4) by (auto simp: versions_match_def f)
  have seq: "eCurrentSequence memory_engine = CurrentSequence" by (simp add: memory_engine_def)
  have inv: "mem_invar (engine ?f)" using F(1) by (simp add: f)
  have "\<exists>f'. fsm_open memory_engine ?f = Inr (CurrentSequence (engine ?f), f') \<and> engine f' = engine ?f
    \<and> applied f' = CurrentSequence (engine ?f)
    \<and> (\<forall>u. u \<noteq> [] \<and> scanned_key u \<longrightarrow>
          epoch_at (keyEpoch f') u = stored_version (mem_contents (engine ?f) (versionKey u)))"
    unfolding seq [symmetric] using inv by (rule mem.fsm_open_rebuilds) (rule wf)
  then show ?thesis
    using F(4) by (auto simp: newDirectProposer_def versions_match_def f)
qed

theorem reopen_rebuilds_epochs_witness:
  "\<exists>d1. newDirectProposer memory_engine
       (engine (fsm (run_direct memory_engine direct0 [[op_p [] OpCredit [1] [7]]]))) SyncNone False = Inr d1
     \<and> epoch_at (keyEpoch (fsm d1)) [1] = \<lparr>Epoch = 1, IsCredit = True\<rparr>"
proof -
  let ?d = "run_direct memory_engine direct0 [[op_p [] OpCredit [1] [7]]]"
  have "memory_run alist_pkg (New alist_pkg) SyncNone False [[op_p [] OpCredit [1] [7]]] ?d"
    by (rule memory_run_direct0) (code_simp, simp)
  note R = reopen_rebuilds_epochs [OF this]
  moreover have "scanned_key [1]" by code_simp
  moreover have "epoch_at (keyEpoch (fsm ?d)) [1] = \<lparr>Epoch = 1, IsCredit = True\<rparr>" by code_simp
  ultimately show ?thesis by auto
qed

subsection \<open>The two shadow structures\<close>

text \<open>
  The array used for batches of at most 64 proposals and the map used for larger ones give the
  same verdicts, epochs and engine batch, provided the batch has at most 64 writes in all and no key
  is both credited and otherwise written in it.
\<close>

theorem shadow_paths_agree:
  assumes "list_all clean ps" "\<forall>p \<in> set ps. \<forall>w \<in> set (Writes p). (wOp w = OpCredit) = cr (wKey w)"
    "length (concat (map Writes ps)) \<le> maxStackShadow"
  shows "stack_entries ps d [] b hw = map_entries ps d Map.empty b hw"
proof (rule entries_agree)
  show "list_all (\<lambda>p. credit_flags cr (Writes p)) ps"
    using assms(2) by (simp add: list_all_iff credit_flags_def)
  show "shadow_sim cr [] Map.empty" by (simp add: shadow_sim_def stack_lookup_def)
qed (use assms in simp_all)

theorem shadow_paths_agree_witness:
  "stack_entries [op_p [] OpSet [1] [7], op_p [read_e [1] 0 True] OpCredit [2] [1]] direct0 [] [] False
   = map_entries [op_p [] OpSet [1] [7], op_p [read_e [1] 0 True] OpCredit [2] [1]] direct0 Map.empty [] False"
proof (rule shadow_paths_agree [where cr = "\<lambda>k. k = [2]"])
  show "list_all clean [op_p [] OpSet [1] [7], op_p [read_e [1] 0 True] OpCredit [2] [1]]" by code_simp
qed (simp_all add: op_p_def maxStackShadow_def)

text \<open>
  Without that proviso they differ: after a set and a credit of the same key, a stale debit of
  that key is rejected through the array, which remembers the first write, and accepted through the
  map, which remembers the last.
\<close>

theorem shadow_paths_differ:
  "map Conflict (fst (stack_entries
       [op_p [] OpSet [1] (encodeInt64 100), op_p [] OpCredit [1] (encodeInt64 1),
        op_p [read_e [1] 0 True] OpDebit [1] (encodeInt64 (-5))] direct0 [] [] False)) = [False, False, True]
   \<and> map Conflict (fst (map_entries
       [op_p [] OpSet [1] (encodeInt64 100), op_p [] OpCredit [1] (encodeInt64 1),
        op_p [read_e [1] 0 True] OpDebit [1] (encodeInt64 (-5))] direct0 Map.empty [] False)) = [False, False, False]"
  by code_simp

subsection \<open>The submission loop\<close>

text \<open>
  Every proposal sent to the loop is delivered exactly once and in the order of sending: at any
  moment the answered proposals, the current batch and the channel, in this order, are all that was
  submitted, and a batch never reaches \<open>maxBatchSize\<close> without being flushed.
\<close>

theorem submissions_fifo:
  assumes "(applier_step E)\<^sup>*\<^sup>* (start_applier d) a"
  shows "map fst (delivered a) @ pending a @ submitCh a = submitted a \<and> length (pending a) < maxBatchSize"
  using applier_inv_reachable [OF assms] by (simp add: applier_inv_def)

theorem submissions_fifo_witness:
  "\<exists>a. (applier_step memory_engine)\<^sup>*\<^sup>* (start_applier direct0) a
     \<and> map fst (delivered a) @ pending a @ submitCh a = submitted a \<and> submitted a = [op_p [] OpSet [1] [7]]"
proof -
  let ?a = "start_applier direct0\<lparr>submitCh := [op_p [] OpSet [1] [7]], submitted := [op_p [] OpSet [1] [7]]\<rparr>"
  have "applier_step memory_engine (start_applier direct0) ?a"
    using submit [of "start_applier direct0" memory_engine "op_p [] OpSet [1] [7]"]
    by (simp add: start_applier_def submitBufSize_def)
  then have r: "(applier_step memory_engine)\<^sup>*\<^sup>* (start_applier direct0) ?a" by blast
  with submissions_fifo [OF r] show ?thesis by (auto simp: start_applier_def)
qed



subsection \<open>Departures from the documented behaviour\<close>

text \<open>
  Credits hide conflicting writes from debits. A transaction read a balance of 100 at epoch 1 and
  debits 80; meanwhile another debit of 80 and a credit of 1 commit. The late debit is accepted and the
  balance becomes -59. Without the credit in between it is rejected.
\<close>

theorem credit_hides_debit:
  "map accepted (fst (applyBatchDirect memory_engine (run_direct memory_engine direct0
       [[op_p [] OpSet [1] (encodeInt64 100)],
        [op_p [read_e [1] 1 True] OpDebit [1] (encodeInt64 (-80))],
        [op_p [] OpCredit [1] (encodeInt64 1)]])
       [op_p [read_e [1] 1 True] OpDebit [1] (encodeInt64 (-80))])) = [True]
   \<and> engine_Get (engine (fsm (run_direct memory_engine direct0
       [[op_p [] OpSet [1] (encodeInt64 100)],
        [op_p [read_e [1] 1 True] OpDebit [1] (encodeInt64 (-80))],
        [op_p [] OpCredit [1] (encodeInt64 1)],
        [op_p [read_e [1] 1 True] OpDebit [1] (encodeInt64 (-80))]]))) [1] = Inr (encodeInt64 (-59))
   \<and> map accepted (fst (applyBatchDirect memory_engine (run_direct memory_engine direct0
       [[op_p [] OpSet [1] (encodeInt64 100)],
        [op_p [read_e [1] 1 True] OpDebit [1] (encodeInt64 (-80))]])
       [op_p [read_e [1] 1 True] OpDebit [1] (encodeInt64 (-80))])) = [False]"
  by (intro conjI) code_simp+

text \<open>
  A reopened proposer numbers its proposals from 1 again although the rebuilt epochs are higher, so
  it misses conflicts: after two commits and a reopening, a transaction that read the value 7 at
  version 2 is accepted although another one has meanwhile replaced it by 9.
\<close>

theorem restart_misses_conflict:
  "case newDirectProposer memory_engine (engine (fsm (run_direct memory_engine direct0
       [[op_p [] OpSet [1] [6]], [op_p [] OpSet [1] [7]]]))) SyncNone False of
     Inl _ \<Rightarrow> False
   | Inr d1 \<Rightarrow>
       engine_Get (engine (fsm d1)) [1] = Inr [7]
       \<and> snap_GetVersion (engine (fsm d1)) (fst (GetSnapshot (engine (fsm d1)))) [1] = \<lparr>Epoch = 2, IsCredit = False\<rparr>
       \<and> engine_Get (engine (fsm (run_direct memory_engine d1 [[op_p [] OpSet [1] [9]]]))) [1] = Inr [9]
       \<and> map accepted (fst (applyBatchDirect memory_engine
            (run_direct memory_engine d1 [[op_p [] OpSet [1] [9]]])
            [op_p [read_e [1] 2 False] OpSet [2] [8]])) = [True]"
  by code_simp

end
