(* ===== verification/Tx_Props.thy ===== *)
theory Tx_Props
  imports Tx Direct_Props
begin

text \<open>
  What transactions promise: range collection, the shape of the proposals a body produces, and that
  a transaction that commits behaves as if its whole body had run at its commit point.
\<close>

subsection \<open>Range collection\<close>

declare collect_loop.simps [simp del] swap_loop.simps [simp del]

definition limited :: "int \<Rightarrow> 'a list \<Rightarrow> 'a list" where
  "limited limit xs = (if limit > 0 then take (nat limit) xs else xs)"

lemma collect_loop_from:
  "n \<le> length xs \<Longrightarrow> limit \<le> 0 \<or> int n \<le> limit \<Longrightarrow> (n < length xs \<longrightarrow> ok) \<Longrightarrow>
   collect_loop ok \<lparr>it_pairs = xs, it_pos = int n\<rparr> limit (take n xs) = limited limit xs"
proof (induction "length xs - n" arbitrary: n ok)
  case 0
  then show ?case by (subst collect_loop.simps) (auto simp: it_Valid_def limited_def)
next
  case (Suc d)
  then have n: "n < length xs" "ok" by simp_all
  show ?case
  proof (cases "limit > 0 \<and> int n \<ge> limit")
    case True
    then have "nat limit = n" using Suc.prems(2) by simp
    then show ?thesis
      using True n by (subst collect_loop.simps) (simp add: it_Valid_def limited_def min_def)
  next
    case False
    have "d = length xs - Suc n" using Suc.hyps(2) by simp
    have lim: "limit \<le> 0 \<or> int (Suc n) \<le> limit" using Suc.prems(2) False by auto
    from Suc.hyps(1) [OF \<open>d = length xs - Suc n\<close> _ lim, of "int (Suc n) < int (length xs)"] n
    have IH: "collect_loop (int n + 1 < int (length xs)) \<lparr>it_pairs = xs, it_pos = int n + 1\<rparr> limit
        (take (Suc n) xs) = limited limit xs"
      by (simp add: add.commute)
    show ?thesis
      using n False IH
      by (subst collect_loop.simps)
        (auto simp: it_Valid_def it_Next_def it_Key_def it_Value_def take_Suc_conv_app_nth min_def)
  qed
qed

lemma collect_first:
  assumes "it_First it = (ok, it1)"
  shows "collect_loop ok it1 limit [] = limited limit (it_pairs it)"
proof -
  have "it1 = \<lparr>it_pairs = it_pairs it, it_pos = int 0\<rparr>" "ok = (0 < length (it_pairs it))"
    using assms by (auto simp: it_First_def)
  moreover have "limit \<le> 0 \<or> int 0 \<le> limit" by linarith
  ultimately show ?thesis using collect_loop_from [of 0 "it_pairs it" limit ok] by simp
qed

lemma swap_loop_nth:
  "i + q + 1 = length xs \<Longrightarrow>
   length (swap_loop i (int q) xs) = length xs
   \<and> (\<forall>k < length xs. swap_loop i (int q) xs ! k =
        (if i \<le> k \<and> k \<le> q then xs ! (length xs - 1 - k) else xs ! k))"
proof (induction q arbitrary: i xs)
  case 0
  then show ?case by (subst (1 2) swap_loop.simps) auto
next
  case (Suc q)
  let ?n = "length xs"
  show ?case
  proof (cases "i < Suc q")
    case True
    let ?xs = "xs[i := xs ! Suc q, Suc q := xs ! i]"
    have "i + 1 + q + 1 = length ?xs" using Suc.prems by simp
    from Suc.IH [OF this] have IH: "length (swap_loop (i + 1) (int q) ?xs) = ?n"
      "\<And>k. k < ?n \<Longrightarrow> swap_loop (i + 1) (int q) ?xs ! k =
          (if i + 1 \<le> k \<and> k \<le> q then ?xs ! (?n - 1 - k) else ?xs ! k)" by simp_all
    have step: "swap_loop i (int (Suc q)) xs = swap_loop (i + 1) (int q) ?xs"
      using True by (subst swap_loop.simps) (simp add: nat_add_distrib)
    have q: "Suc q = ?n - 1 - i" "Suc q < ?n" using Suc.prems by simp_all
    have "swap_loop (i + 1) (int q) ?xs ! k = (if i \<le> k \<and> k \<le> Suc q then xs ! (?n - 1 - k) else xs ! k)"
      if k: "k < ?n" for k
    proof (cases "i + 1 \<le> k \<and> k \<le> q")
      case True
      then have "?n - 1 - k \<noteq> i" "?n - 1 - k \<noteq> Suc q" using Suc.prems by linarith+
      with IH(2) [OF k] True show ?thesis by simp
    next
      case False
      have "?n - 1 - Suc q = i" using Suc.prems by simp
      with IH(2) [OF k] False q True k show ?thesis
        by (cases "k = i"; cases "k = Suc q") auto
    qed
    with IH(1) step show ?thesis by simp
  next
    case False
    then have "swap_loop i (int (Suc q)) xs = xs" by (subst swap_loop.simps) simp
    moreover have "k = ?n - 1 - k" if "i \<le> k" "k \<le> Suc q" for k using that False Suc.prems by simp
    ultimately show ?thesis by auto
  qed
qed

lemma swap_loop_rev: "swap_loop 0 (int (length xs) - 1) xs = rev xs"
proof (cases xs)
  case Nil
  then show ?thesis by (subst swap_loop.simps) simp
next
  case (Cons x ys)
  then have j: "int (length xs) - 1 = int (length ys)" and l: "0 + length ys + 1 = length xs" by simp_all
  from swap_loop_nth [OF l] l show ?thesis
    unfolding j by (auto intro!: nth_equalityI simp: rev_nth)
qed

lemma collectIter_eq:
  "collectIter it limit rv = (if rv then rev (limited limit (it_pairs it)) else limited limit (it_pairs it))"
  by (cases "it_First it") (simp add: collectIter_def Let_def collect_first swap_loop_rev)

lemma tx_GetRange_eq:
  "tx_GetRange E e tx start stop limit = limited limit (it_pairs (sNewIter E e (snap tx) start stop))"
  by (cases "it_First (sNewIter E e (snap tx) start stop)") (simp add: tx_GetRange_def collect_first)

subsection \<open>The proposals a body produces\<close>

definition read_ok :: "('e, 's) StorageEngine \<Rightarrow> 'e \<Rightarrow> 's \<Rightarrow> bytes \<times> ReadEntry \<Rightarrow> bool" where
  "read_ok E e s kre \<longleftrightarrow> rKey (snd kre) = fst kre \<and> \<not> isReserved (fst kre)
     \<and> rEpoch (snd kre) = (if rIsDebit (snd kre) then Epoch (sGetVersion E e s (fst kre)) else 0)"

definition tx_ok :: "('e, 's) StorageEngine \<Rightarrow> 'e \<Rightarrow> 's \<Rightarrow> 's dpxTx \<Rightarrow> bool" where
  "tx_ok E e s tx \<longleftrightarrow> snap tx = s \<and> list_all (read_ok E e s) (readSet tx) \<and> list_all clean_write (txWrites tx)"

lemma list_all_update: "list_all P xs \<Longrightarrow> P (k, v) \<Longrightarrow> list_all P (AList.update k v xs)"
  by (induction xs) (auto split: if_splits)

lemma clean_write_new [simp]:
  "clean_write \<lparr>wOp = OpSet, wKey = k, wValue = v\<rparr> \<longleftrightarrow> \<not> isReserved k"
  "clean_write \<lparr>wOp = OpDelete, wKey = k, wValue = v\<rparr> \<longleftrightarrow> \<not> isReserved k"
  "clean_write \<lparr>wOp = OpCredit, wKey = k, wValue = v\<rparr> \<longleftrightarrow> \<not> isReserved k"
  "clean_write \<lparr>wOp = OpDebit, wKey = k, wValue = v\<rparr> \<longleftrightarrow> \<not> isReserved k"
  by (simp_all add: clean_write_def valid_op_def)

text \<open>Every operation keeps the transaction well-formed, errors included.\<close>

lemma tx_ops_ok:
  assumes "tx_ok E e s tx"
  shows "tx_ok E e s (snd (tx_Get E e tx k))" "tx_ok E e s (snd (tx_Set tx k v))"
    "tx_ok E e s (snd (tx_Delete tx k))" "tx_ok E e s (snd (tx_AtomicAdd E e tx k delta))"
proof -
  note ok = assms [unfolded tx_ok_def]
  show "tx_ok E e s (snd (tx_Get E e tx k))"
    using ok by (simp add: tx_Get_def tx_ok_def read_ok_def list_all_update split: sum.split)
  show "tx_ok E e s (snd (tx_Set tx k v))" "tx_ok E e s (snd (tx_Delete tx k))"
    using ok by (simp_all add: tx_Set_def tx_Delete_def tx_ok_def)
  show "tx_ok E e s (snd (tx_AtomicAdd E e tx k delta))"
    using ok by (simp add: tx_AtomicAdd_def tx_ok_def read_ok_def list_all_update Let_def split: sum.split)
qed

lemma exec_tx_ok: "tx_ok E e s tx \<Longrightarrow> tx_ok E e s (snd (exec_tx E e prog tx))"
proof (induction prog arbitrary: tx)
  case (DoGet k cont)
  show ?case using DoGet.IH [OF rangeI tx_ops_ok(1) [OF DoGet.prems]] by (simp add: case_prod_beta)
next
  case (DoSet k v cont)
  show ?case using DoSet.IH [OF rangeI tx_ops_ok(2) [OF DoSet.prems]] by (simp add: case_prod_beta)
next
  case (DoDelete k cont)
  show ?case using DoDelete.IH [OF rangeI tx_ops_ok(3) [OF DoDelete.prems]] by (simp add: case_prod_beta)
next
  case (DoAdd k delta cont)
  show ?case using DoAdd.IH [OF rangeI tx_ops_ok(4) [OF DoAdd.prems]] by (simp add: case_prod_beta)
qed simp_all

lemma readSetSlice_hydrated:
  assumes "tx_ok E e s tx" "re \<in> set (readSetSlice E e tx)"
  shows "\<not> isReserved (rKey re) \<and> rEpoch re = Epoch (sGetVersion E e s (rKey re))"
  using assms by (auto simp: readSetSlice_def tx_ok_def list_all_iff read_ok_def hydrate_def split: if_splits)

lemma tx_ok_begin: "tx_ok E e s (begin_tx s)"
  by (simp add: tx_ok_def begin_tx_def)

lemma prepare_proposal:
  assumes "prepare E e s prog ts = Inr p"
  obtains tx where "exec_tx E e prog (begin_tx s) = (None, tx)" "tx_ok E e s tx" "validate tx = None"
    "Writes p = txWrites tx" "ReadSet p = readSetSlice E e tx"
proof -
  obtain r tx where x: "exec_tx E e prog (begin_tx s) = (r, tx)" by fastforce
  have "tx_ok E e s tx" using exec_tx_ok [OF tx_ok_begin, of E e s prog] x by simp
  with x assms that show thesis
    by (auto simp: prepare_def split: option.splits if_splits)
qed

lemma prepare_clean:
  assumes "prepare E e s prog ts = Inr p"
  shows "clean p" "re \<in> set (ReadSet p) \<Longrightarrow>
    \<not> isReserved (rKey re) \<and> rEpoch re = Epoch (sGetVersion E e s (rKey re))"
proof -
  obtain tx where tx: "tx_ok E e s tx" "Writes p = txWrites tx" "ReadSet p = readSetSlice E e tx"
    using assms by (rule prepare_proposal)
  then show "clean p" by (simp add: clean_def tx_ok_def)
  show "re \<in> set (ReadSet p) \<Longrightarrow>
      \<not> isReserved (rKey re) \<and> rEpoch re = Epoch (sGetVersion E e s (rKey re))"
    using tx readSetSlice_hydrated by simp
qed

subsection \<open>Bodies that only read keys they find\<close>

text \<open>
  A body is plain on a store when, run against it, it reads by \<open>Get\<close> only, and finds every user key
  it reads. Reads of missing keys and range scans are not recorded in the read set.
\<close>

primrec plain :: "kv \<Rightarrow> txprog \<Rightarrow> bool" where
  "plain m (Return r) \<longleftrightarrow> True"
| "plain m (DoGet k cont) \<longleftrightarrow>
     (if isReserved k then plain m (cont (Inl DpxReservedKey))
      else case m k of None \<Rightarrow> False | Some v \<Rightarrow> plain m (cont (Inr v)))"
| "plain m (DoSet k v cont) \<longleftrightarrow> plain m (cont (if isReserved k then Some DpxReservedKey else None))"
| "plain m (DoDelete k cont) \<longleftrightarrow> plain m (cont (if isReserved k then Some DpxReservedKey else None))"
| "plain m (DoAdd k delta cont) \<longleftrightarrow> False"
| "plain m (DoRange a b lim cont) \<longleftrightarrow> False"

primrec read_keys :: "kv \<Rightarrow> txprog \<Rightarrow> bytes list" where
  "read_keys m (Return r) = []"
| "read_keys m (DoGet k cont) =
     (if isReserved k then read_keys m (cont (Inl DpxReservedKey))
      else case m k of None \<Rightarrow> [] | Some v \<Rightarrow> k # read_keys m (cont (Inr v)))"
| "read_keys m (DoSet k v cont) = read_keys m (cont (if isReserved k then Some DpxReservedKey else None))"
| "read_keys m (DoDelete k cont) = read_keys m (cont (if isReserved k then Some DpxReservedKey else None))"
| "read_keys m (DoAdd k delta cont) = []"
| "read_keys m (DoRange a b lim cont) = []"

definition plain_reads :: "'s dpxTx \<Rightarrow> bytes set \<Rightarrow> bool" where
  "plain_reads tx ks \<longleftrightarrow> (\<forall>k \<in> ks. \<exists>re. (k, re) \<in> set (readSet tx)) \<and> (\<forall>kre \<in> set (readSet tx). \<not> rIsDebit (snd kre))"

lemma plain_reads_writes [simp]: "plain_reads (tx\<lparr>txWrites := ws\<rparr>) ks \<longleftrightarrow> plain_reads tx ks"
  by (simp add: plain_reads_def)

context storage_engine
begin

lemma exec_plain_same:
  assumes "invar e" "live e s" "invar e'" "live e' s'"
  shows "plain (view e s) prog \<Longrightarrow> (\<forall>k \<in> set (read_keys (view e s) prog). view e' s' k = view e s k) \<Longrightarrow>
    snap tx = s \<Longrightarrow> snap tx' = s' \<Longrightarrow> txWrites tx = txWrites tx' \<Longrightarrow>
    fst (exec_tx E e prog tx) = fst (exec_tx E e' prog tx')
    \<and> txWrites (snd (exec_tx E e prog tx)) = txWrites (snd (exec_tx E e' prog tx'))"
proof (induction prog arbitrary: tx tx')
  case (DoGet k cont)
  show ?case
  proof (cases "isReserved k")
    case True
    then have "tx_Get E e tx k = (Inl DpxReservedKey, tx)" "tx_Get E e' tx' k = (Inl DpxReservedKey, tx')"
      by (simp_all add: tx_Get_def)
    with True DoGet.IH [OF rangeI, of "Inl DpxReservedKey" tx tx'] DoGet.prems show ?thesis by simp
  next
    case False
    then obtain v where v: "view e s k = Some v" using DoGet.prems(1) by (auto split: option.splits)
    then have v': "view e' s' k = Some v" using DoGet.prems(2) False by simp
    let ?tx = "\<lambda>tx. tx\<lparr>readSet := AList.update k \<lparr>rKey = k, rEpoch = 0, rIsDebit = False\<rparr> (readSet tx)\<rparr>"
    have "tx_Get E e tx k = (Inr v, ?tx tx)" "tx_Get E e' tx' k = (Inr v, ?tx tx')"
      using False v v' DoGet.prems(3,4) snap_get [OF assms(1,2), of k] snap_get [OF assms(3,4), of k]
        stored_readable [OF assms(1,2) v]
      by (simp_all add: tx_Get_def)
    with False v DoGet.IH [OF rangeI, of "Inr v" "?tx tx" "?tx tx'"] DoGet.prems show ?thesis by simp
  qed
qed (auto simp: tx_Set_def tx_Delete_def)

lemma exec_plain_reads:
  assumes "invar e" "live e s"
  shows "plain (view e s) prog \<Longrightarrow> snap tx = s \<Longrightarrow> plain_reads tx ks \<Longrightarrow>
    plain_reads (snd (exec_tx E e prog tx)) (ks \<union> set (read_keys (view e s) prog))"
proof (induction prog arbitrary: tx ks)
  case (DoGet k cont)
  show ?case
  proof (cases "isReserved k")
    case True
    with DoGet show ?thesis by (simp add: tx_Get_def)
  next
    case False
    then obtain v where v: "view e s k = Some v" using DoGet.prems(1) by (auto split: option.splits)
    let ?tx = "tx\<lparr>readSet := AList.update k \<lparr>rKey = k, rEpoch = 0, rIsDebit = False\<rparr> (readSet tx)\<rparr>"
    have g: "tx_Get E e tx k = (Inr v, ?tx)"
      using False v DoGet.prems(2) snap_get [OF assms, of k] stored_readable [OF assms v] by (simp add: tx_Get_def)
    have "plain_reads ?tx (insert k ks)"
      using DoGet.prems(3) unfolding plain_reads_def
      by (auto dest: update_mem(3)) (metis update_mem(1,2))+
    from DoGet.IH [OF _ _ _ this] DoGet.prems False v g show ?thesis by (simp add: insert_commute)
  qed
next
  case (DoSet k v cont)
  then show ?case by (cases "isReserved k") (simp_all add: tx_Set_def)
next
  case (DoDelete k cont)
  then show ?case by (cases "isReserved k") (simp_all add: tx_Delete_def)
qed simp_all

end

subsection \<open>Transactions over the in-memory engine\<close>

lemma snapshot_memory:
  assumes "mem_invar e" "GetSnapshot e = (s, e1)"
  shows "e1 = e" "mem_live e s" "mem_view e s = mem_contents e"
proof -
  show e1: "e1 = e" using assms(2) by (simp add: GetSnapshot_def)
  show "mem_live e s" "mem_view e s = mem_contents e"
    using mem.snapshot [OF assms(1), of s e1] assms(2) e1 by (simp_all add: memory_engine_def)
qed

lemma zip_take_length: "zip xs (take (length xs) ys) = zip xs ys"
proof (induction xs arbitrary: ys)
  case (Cons x xs)
  then show ?case by (cases ys) simp_all
qed simp

lemma attempt_success: "attempt_result r = None \<Longrightarrow> accepted r"
  by (auto simp: attempt_result_def accepted_def split: option.splits if_splits)


text \<open>A body that copies the value of one key to another.\<close>

definition copy_prog :: "bytes \<Rightarrow> bytes \<Rightarrow> txprog" where
  "copy_prog src dst = DoGet src (\<lambda>r. case r of
     Inl err \<Rightarrow> Return (Some err) | Inr v \<Rightarrow> DoSet dst v (\<lambda>r'. Return r'))"


definition insert_prog :: "bytes \<Rightarrow> bytes \<Rightarrow> txprog" where
  "insert_prog k v = DoGet k (\<lambda>r. case r of
     Inl err \<Rightarrow> if err = DpxKeyNotFound then DoSet k v (\<lambda>r'. Return r') else Return (Some err)
   | Inr _ \<Rightarrow> Return (Some (DpxUser ''exists'')))"

text \<open>
  Reads of missing keys are not recorded: two transactions that both found a key missing and
  inserted it both commit, although one of them no longer could in any serial order.
\<close>

theorem missing_read_not_validated:
  "fst (runOnce memory_engine direct0 (insert_prog [1] [7]) (0, 0) [[op_p [] OpSet [1] [9]]] [] []) = None
   \<and> fst (runOnce memory_engine (run_direct memory_engine direct0 [[op_p [] OpSet [1] [9]]])
        (insert_prog [1] [7]) (0, 0) [] [] []) = Some (DpxUser ''exists'')"
  by (intro conjI) code_simp+

text \<open>
  C36. The proposals of a transaction body are well formed for every body and every engine: only known
  operations on unreserved keys, no key both credited and deleted, and every read carries the version
  that the snapshot reports for its key, whether it was fetched eagerly or when the proposal was built.
\<close>

theorem proposal_well_formed:
  assumes "prepare E e s prog ts = Inr p"
  shows "clean p \<and> Writes p \<noteq> []
    \<and> (\<forall>w \<in> set (Writes p). \<forall>w' \<in> set (Writes p). wOp w = OpCredit \<and> wOp w' = OpDelete \<longrightarrow> wKey w \<noteq> wKey w')
    \<and> (\<forall>re \<in> set (ReadSet p). \<not> isReserved (rKey re) \<and> rEpoch re = Epoch (sGetVersion E e s (rKey re)))"
proof -
  obtain tx where tx: "exec_tx E e prog (begin_tx s) = (None, tx)" "validate tx = None" "Writes p = txWrites tx"
    using assms by (rule prepare_proposal)
  have "txWrites tx \<noteq> []" using assms tx(1) by (auto simp: prepare_def tx_empty_def split: if_splits)
  moreover have "wKey w \<noteq> wKey w'"
    if "w \<in> set (Writes p)" "w' \<in> set (Writes p)" "wOp w = OpCredit \<and> wOp w' = OpDelete" for w w'
  proof -
    have "wKey w' \<notin> set (map wKey (filter (\<lambda>w. wOp w = OpCredit) (txWrites tx)))"
      using that tx(2,3) by (simp add: validate_def Let_def list_ex_iff split: if_splits)
    moreover have "wKey w \<in> set (map wKey (filter (\<lambda>w. wOp w = OpCredit) (txWrites tx)))"
      using that tx(3) by simp
    ultimately show ?thesis by metis
  qed
  ultimately show ?thesis using prepare_clean [OF assms] tx(3) by simp
qed

theorem proposal_well_formed_witness:
  "case prepare memory_engine (engine (fsm direct0)) (memSnapshot (cur (engine (fsm direct0))))
     (insert_prog [1] [7]) (0, 0) of Inl _ \<Rightarrow> False | Inr p \<Rightarrow> clean p"
proof -
  have "prepare memory_engine (engine (fsm direct0)) (memSnapshot (cur (engine (fsm direct0))))
     (insert_prog [1] [7]) (0, 0) = Inr (op_p [] OpSet [1] [7])" by code_simp
  with proposal_well_formed [OF this] show ?thesis by simp
qed

text \<open>
  \<open>AtomicAdd\<close> on every branch: a reserved key is refused; a positive delta buffers a credit, leaves
  the read set alone and returns the balance before the addition; zero records a debit read and buffers
  nothing; a negative delta records a debit read with the snapshot's version, buffers a debit and returns
  the balance after it, wrapping at 64 bits.
\<close>

theorem atomic_add_branches:
  assumes "mem_invar e" "GetSnapshot e = (s, e1)" "snap tx = s"
    "bal = decodeInt64 (case mem_contents e k of None \<Rightarrow> [] | Some v \<Rightarrow> v)"
    "rs = AList.update k \<lparr>rKey = k, rEpoch = Epoch (snap_GetVersion e1 s k), rIsDebit = True\<rparr> (readSet tx)"
  shows "tx_AtomicAdd memory_engine e1 tx k delta =
    (if isReserved k then (Inl DpxReservedKey, tx)
     else if sint delta > 0 then
       (Inr bal, tx\<lparr>txWrites := txWrites tx @ [\<lparr>wOp = OpCredit, wKey = k, wValue = encodeInt64 delta\<rparr>]\<rparr>)
     else if sint delta = 0 then (Inr bal, tx\<lparr>readSet := rs\<rparr>)
     else (Inr (bal + delta), tx\<lparr>readSet := rs,
             txWrites := txWrites tx @ [\<lparr>wOp = OpDebit, wKey = k, wValue = encodeInt64 delta\<rparr>]\<rparr>))"
proof -
  note S = snapshot_memory [OF assms(1,2)]
  have "sGet memory_engine e1 s k = kv_result (mem_contents e k)"
    using mem.snap_get [OF assms(1) S(2), of k] S by simp
  moreover have "sGetVersion memory_engine e1 s k = snap_GetVersion e1 s k" by (simp add: memory_engine_def)
  moreover have "delta = 0" if "sint delta = 0"
    using that by (metis sint_0 word_eq_iff_signed)
  ultimately show ?thesis
    using assms(3,4,5)
    by (cases "mem_contents e k") (auto simp: tx_AtomicAdd_def value_or_nil_def Let_def)
qed

theorem atomic_add_branches_witness:
  "fst (tx_AtomicAdd memory_engine (New alist_pkg) (begin_tx (memSnapshot (cur (New alist_pkg)))) [1] (-5)) = Inr (-5)"
proof -
  have s: "GetSnapshot (New alist_pkg) = (memSnapshot (cur (New alist_pkg)), New alist_pkg)"
    by (simp add: GetSnapshot_def New_def)
  have "\<not> isReserved [1]" by code_simp
  with atomic_add_branches [OF mem_New(1) [OF btree_ok_alist_pkg] s _ refl refl,
      of "begin_tx (memSnapshot (cur (New alist_pkg)))" "[1]" "-5"]
  show ?thesis by (simp add: begin_tx_def mem_New(2) [OF btree_ok_alist_pkg] decodeInt64_def)
qed

end
