(* ===== verification/Node_Props.thy ===== *)
theory Node_Props
  imports Tx_Props
begin

text \<open>
  The node's entry points of \<open>src/dpx.go\<close>: the outcome of \<open>RunInTx\<close> over the retry library, and the
  range scans outside transactions.
\<close>

subsection \<open>Retries\<close>

text \<open>An instance of the retry library for the witnesses.\<close>

primrec retry_from :: "nat \<Rightarrow> nat \<Rightarrow> 'd attempts \<Rightarrow> 'd \<Rightarrow> (dpx_error option \<times> bool) \<times> 'd" where
  "retry_from 0 i f d = ((None, False), d)"
| "retry_from (Suc k) i f d =
     (let (r, d') = f i d
      in if r \<noteq> Some DpxConflict then ((r, False), d')
         else if k = 0 then ((r, True), d') else retry_from k (Suc i) f d')"

lemma retry_from_attempts:
  "\<exists>n. i \<le> n \<and> n < i + Suc k \<and> (\<forall>j. i \<le> j \<and> j < n \<longrightarrow> attempt_error f d j = Some DpxConflict)
     \<and> retry_from (Suc k) i f (attempt_state f d i)
        = ((attempt_error f d n, attempt_error f d n = Some DpxConflict), attempt_state f d (Suc n))
     \<and> (attempt_error f d n = Some DpxConflict \<longrightarrow> Suc n = i + Suc k)"
proof (induction k arbitrary: i)
  case 0
  show ?case
    by (rule exI [of _ i]) (auto simp: attempt_error_def case_prod_beta)
next
  case (Suc k)
  show ?case
  proof (cases "attempt_error f d i = Some DpxConflict")
    case True
    have step: "retry_from (Suc (Suc k)) i f (attempt_state f d i) = retry_from (Suc k) (Suc i) f (attempt_state f d (Suc i))"
      using True by (simp add: attempt_error_def case_prod_beta)
    obtain n where n: "Suc i \<le> n" "n < Suc i + Suc k"
      "\<And>j. Suc i \<le> j \<Longrightarrow> j < n \<Longrightarrow> attempt_error f d j = Some DpxConflict"
      "retry_from (Suc k) (Suc i) f (attempt_state f d (Suc i))
        = ((attempt_error f d n, attempt_error f d n = Some DpxConflict), attempt_state f d (Suc n))"
      "attempt_error f d n = Some DpxConflict \<longrightarrow> Suc n = Suc i + Suc k"
      using Suc.IH [of "Suc i"] by blast
    have "attempt_error f d j = Some DpxConflict" if "i \<le> j" "j < n" for j
      using that n(3) [of j] True by (cases "j = i") auto
    with n step show ?thesis by (intro exI [of _ n]) auto
  next
    case False
    then show ?thesis
      by (intro exI [of _ i]) (auto simp: attempt_error_def case_prod_beta)
  qed
qed

lemma retry_ok_retry_from: "retry_ok (Suc k) (retry_from (Suc k) 0)"
  unfolding retry_ok_def
proof (intro allI)
  fix f :: "'d attempts" and d
  show "\<exists>n < Suc k. (\<forall>i < n. attempt_error f d i = Some DpxConflict)
      \<and> retry_from (Suc k) 0 f d = ((attempt_error f d n, attempt_error f d n = Some DpxConflict), attempt_state f d (Suc n))
      \<and> (attempt_error f d n = Some DpxConflict \<longrightarrow> Suc n = Suc k)"
    using retry_from_attempts [of 0 k f d] by auto
qed



subsection \<open>Range scans\<close>

text \<open>
  \<open>GetRange\<close> and \<open>GetRangeReverse\<close> return the committed user pairs of the half-open range in key
  order, cut after the first \<open>limit\<close> ones when a positive limit is given; the reverse scan is that same
  list reversed by swapping in place. The engine is left as it was.
\<close>

theorem node_range_exact:
  assumes "mem_invar e"
  shows "\<exists>xs. sorted_wrt (<) (map fst xs)
    \<and> (\<forall>k v. (k, v) \<in> set xs \<longleftrightarrow> engine_Get e k = Inr v \<and> in_range start stop k \<and> \<not> isReserved k)
    \<and> node_GetRange memory_engine False e start stop limit False = (Inr (limited limit xs), e)
    \<and> node_GetRange memory_engine False e start stop limit True = (Inr (rev (limited limit xs)), e)"
proof -
  obtain s e1 where s: "GetSnapshot e = (s, e1)" by fastforce
  note S = snapshot_memory [OF assms s]
  have L: "lists_kv (it_pairs (snap_NewIter e s start stop))
      (restrict_kv (mem_contents e) (\<lambda>k. in_range start stop k \<and> \<not> isReserved k))"
    using mem.snap_iter [OF assms S(2)] S(3) by (simp add: memory_engine_def)
  have "(k, v) \<in> set (it_pairs (snap_NewIter e s start stop)) \<longleftrightarrow>
      engine_Get e k = Inr v \<and> in_range start stop k \<and> \<not> isReserved k" for k v
    using lists_kv_set [OF L]
    by (auto simp: engine_Get_contents [OF assms] kv_result_def restrict_kv_def split: option.splits if_splits)
  moreover have "node_GetRange memory_engine False e start stop limit rv
      = (Inr (collectIter (snap_NewIter e s start stop) limit rv), e)" for rv
    using s S(1) by (simp add: node_GetRange_def memory_engine_def)
  ultimately show ?thesis
    using lists_kv_sorted [OF L]
    by (intro exI [of _ "it_pairs (snap_NewIter e s start stop)"]) (simp add: collectIter_eq)
qed

theorem node_range_exact_witness:
  "\<exists>xs. sorted_wrt (<) (map fst xs)
    \<and> node_GetRange memory_engine False (New alist_pkg) [] [] 5 False = (Inr (limited 5 xs), New alist_pkg)"
  using node_range_exact [OF mem_New(1) [OF btree_ok_alist_pkg], of "[]" "[]" 5] by blast

text \<open>
  A reverse scan with a limit returns the lowest keys of the range, in descending order, not the
  highest ones.
\<close>

theorem reverse_limit_takes_lowest:
  "fst (node_GetRange memory_engine False
     (run_batches (New alist_pkg) [([BSet [1] [7], BSet [2] [8], BSet [3] [9]], False)]) [1] [4] 2 True)
   = Inr [([2], [8]), ([1], [7])]"
  by code_simp

end
