(* ===== verification/Watch_Props.thy ===== *)
theory Watch_Props
  imports Watch "HOL-Library.Multiset"
begin

text \<open>
  The watcher map keeps its invariant under every interleaving of its clients, so no send or close
  panics, and a notification reaches exactly the channels registered under a prefix of the key.
\<close>

subsection \<open>Channels of an association list\<close>

definition slot :: "(bytes \<times> nat list) list \<Rightarrow> bytes \<Rightarrow> nat list" where
  "slot al pre = (case map_of al pre of None \<Rightarrow> [] | Some arr \<Rightarrow> arr)"

lemma slot_simps [simp]:
  "slot [] pre = []" "slot ((q, arr) # al) pre = (if q = pre then arr else slot al pre)"
  "slot (AList.update q arr al) pre = (if q = pre then arr else slot al pre)"
  "slot (AList.delete q al) pre = (if q = pre then [] else slot al pre)"
  by (simp_all add: slot_def update_conv delete_conv)

lemma slot_fresh: "pre \<notin> fst ` set al \<Longrightarrow> slot al pre = []"
  by (induction al) auto

lemma watchers_of_slot: "watchers_of w pre = slot (watches w) pre"
  by (simp add: watchers_of_def slot_def)

lemma mset_update_slot:
  "distinct (map fst al) \<Longrightarrow>
   mset (concat (map snd (AList.update pre arr al))) + mset (slot al pre) = mset (concat (map snd al)) + mset arr"
proof (induction al)
  case (Cons x al)
  have "slot al pre = []" if "fst x = pre"
    using Cons.prems that by (intro slot_fresh) auto
  with Cons show ?case by (cases x) (auto simp: ac_simps)
qed simp

lemma mset_delete_slot:
  "distinct (map fst al) \<Longrightarrow>
   mset (concat (map snd (AList.delete pre al))) + mset (slot al pre) = mset (concat (map snd al))"
proof (induction al)
  case (Cons x al)
  have "AList.delete pre al = al \<and> slot al pre = []" if "fst x = pre"
    using Cons.prems that by (auto simp: delete_id slot_fresh)
  with Cons show ?case by (cases x) (auto simp: ac_simps)
qed simp

lemma slot_subset: "set (slot al pre) \<subseteq> set (concat (map snd al))"
  by (induction al) (auto split: if_splits)

lemma slot_distinct: "distinct (concat (map snd al)) \<Longrightarrow> distinct (slot al pre)"
  by (induction al) (auto split: if_splits)

lemma watched_iff:
  "distinct (map fst al) \<Longrightarrow> ch \<in> set (concat (map snd al)) \<longleftrightarrow> (\<exists>pre. ch \<in> set (slot al pre))"
proof (induction al)
  case (Cons x al)
  have "slot al (fst x) = []" using Cons.prems by (intro slot_fresh) simp
  with Cons show ?case by (cases x) (auto split: if_splits, metis empty_iff list.set(1))
qed simp

subsection \<open>Sending\<close>

definition bump :: "watchChan \<Rightarrow> watchChan" where
  "bump c = (if buffered c < watchChanBuf then c\<lparr>buffered := buffered c + 1\<rparr> else c)"

definition signalled :: "nat list \<Rightarrow> watchChan list \<Rightarrow> watchChan list" where
  "signalled chs cs = map (\<lambda>i. if i \<in> set chs then bump (cs ! i) else cs ! i) [0..<length cs]"

lemma length_signalled [simp]: "length (signalled chs cs) = length cs"
  by (simp add: signalled_def)

lemma signalled_nth [simp]: "i < length cs \<Longrightarrow> signalled chs cs ! i = (if i \<in> set chs then bump (cs ! i) else cs ! i)"
  by (simp add: signalled_def)

lemma bump_closed [simp]: "chClosed (bump c) = chClosed c"
  by (simp add: bump_def)

definition full_chans :: "nat list \<Rightarrow> watchChan list \<Rightarrow> nat" where
  "full_chans chs cs = length (filter (\<lambda>ch. \<not> buffered (cs ! ch) < watchChanBuf) chs)"

lemma send_all_eq:
  assumes "distinct chs" "\<forall>ch \<in> set chs. ch < length (chans w) \<and> \<not> chClosed (chans w ! ch)"
  shows "send_all chs w = Some (w\<lparr>chans := signalled chs (chans w),
    WatchDropped := WatchDropped w + full_chans chs (chans w)\<rparr>)"
  using assms
proof (induction chs arbitrary: w)
  case Nil
  have "signalled [] (chans w) = chans w" by (simp add: signalled_def map_nth)
  then show ?case by (simp add: full_chans_def)
next
  case (Cons ch chs)
  let ?w1 = "w\<lparr>chans := (chans w)[ch := bump (chans w ! ch)],
    WatchDropped := WatchDropped w + (if buffered (chans w ! ch) < watchChanBuf then 0 else 1)\<rparr>"
  have 1: "send_signal w ch = Some ?w1"
    using Cons.prems by (simp add: send_signal_def bump_def Let_def)
  have same: "(chans w)[ch := bump (chans w ! ch)] ! c = chans w ! c" if "c \<in> set chs" for c
    using Cons.prems(1) that by (intro nth_list_update_neq) auto
  have "send_all chs ?w1 = Some (?w1\<lparr>chans := signalled chs (chans ?w1),
      WatchDropped := WatchDropped ?w1 + full_chans chs (chans ?w1)\<rparr>)"
    using Cons.prems same by (intro Cons.IH) auto
  moreover have "signalled chs (chans ?w1) = signalled (ch # chs) (chans w)"
    using Cons.prems by (intro nth_equalityI) (auto simp: nth_list_update)
  moreover have "full_chans chs (chans ?w1) = full_chans chs (chans w)"
    unfolding full_chans_def using same by (intro arg_cong [of _ _ length] filter_cong) simp_all
  ultimately show ?case by (simp add: 1 full_chans_def)
qed

definition notified_chans :: "bytes \<Rightarrow> watcherMap \<Rightarrow> nat list" where
  "notified_chans key w = concat (map snd (filter (\<lambda>pc. prefix (fst pc) key) (watches w)))"

lemma send_all_append: "send_all (xs @ ys) w = Option.bind (send_all xs w) (send_all ys)"
  by (induction xs arbitrary: w) (auto simp: Option.bind_eq_None_conv split: option.splits bind_splits)

lemma notify_prefixes_eq:
  "notify_prefixes key pcs w = send_all (concat (map snd (filter (\<lambda>pc. prefix (fst pc) key) pcs))) w"
  by (induction pcs arbitrary: w) (auto simp: send_all_append split: bind_splits)

lemma notified_sub: "set (notified_chans key w) \<subseteq> set (watched_chans w)"
  by (auto simp: notified_chans_def watched_chans_def)

lemma distinct_concat_filter: "distinct (concat (map f xs)) \<Longrightarrow> distinct (concat (map f (filter P xs)))"
  by (induction xs) auto

lemma notify_eq:
  assumes "watch_invar w" "\<not> wClosed w"
  shows "notify w key = Some (w\<lparr>chans := signalled (notified_chans key w) (chans w),
    WatchDropped := WatchDropped w + full_chans (notified_chans key w) (chans w)\<rparr>)"
proof -
  have "distinct (notified_chans key w)"
    using assms(1) by (auto simp: watch_invar_def notified_chans_def watched_chans_def intro: distinct_concat_filter)
  moreover have "\<forall>ch \<in> set (notified_chans key w). ch < length (chans w) \<and> \<not> chClosed (chans w ! ch)"
    using assms(1) notified_sub by (fastforce simp: watch_invar_def)
  ultimately show ?thesis
    using assms(2) by (simp add: notify_def notify_prefixes_eq send_all_eq flip: notified_chans_def)
qed

subsection \<open>Preservation\<close>

lemma chans_bounded:
  "(\<forall>c \<in> set (chans w). buffered c \<le> watchChanBuf) \<longleftrightarrow> (\<forall>i < length (chans w). buffered (chans w ! i) \<le> watchChanBuf)"
  by (metis in_set_conv_nth)

text \<open>Changes of the channels alone that keep the open ones open and the buffers bounded.\<close>

lemma watch_invar_chans:
  assumes "watch_invar w" "length cs = length (chans w)" "\<forall>i < length cs. chClosed (cs ! i) = chClosed (chans w ! i)"
    "\<forall>i < length cs. buffered (cs ! i) \<le> watchChanBuf"
  shows "watch_invar (w\<lparr>chans := cs\<rparr>)" "watch_invar (w\<lparr>chans := cs, WatchDropped := n\<rparr>)"
  using assms by (auto simp: watch_invar_def watched_chans_def watchers_of_def in_set_conv_nth)

lemma watch_invar_notify:
  assumes "watch_invar w" "notify w key = r"
  obtains w' where "r = Some w'" "watch_invar w'" "watches w' = watches w" "wClosed w' = wClosed w"
    "length (chans w') = length (chans w)"
    "\<And>i. \<not> wClosed w \<Longrightarrow> i < length (chans w) \<Longrightarrow>
       chans w' ! i = (if i \<in> set (notified_chans key w) then bump (chans w ! i) else chans w ! i)"
proof (cases "wClosed w")
  case True
  then show ?thesis using assms by (intro that [of w]) (auto simp: notify_def)
next
  case False
  let ?w = "w\<lparr>chans := signalled (notified_chans key w) (chans w),
      WatchDropped := WatchDropped w + full_chans (notified_chans key w) (chans w)\<rparr>"
  have "watch_invar ?w"
    using assms(1) chans_bounded [of w] by (intro watch_invar_chans) (auto simp: watch_invar_def bump_def)
  then show ?thesis using assms(2) notify_eq [OF assms(1) False, of key] by (intro that [of ?w]) simp_all
qed

lemma concat_unique:
  "distinct (concat (map snd al)) \<Longrightarrow> x \<in> set al \<Longrightarrow> y \<in> set al \<Longrightarrow> ch \<in> set (snd x) \<Longrightarrow> ch \<in> set (snd y) \<Longrightarrow> x = y"
  by (induction al) auto

lemma notified_watcher:
  assumes "watch_invar w" "ch \<in> set (watchers_of w pre)"
  shows "ch \<in> set (notified_chans key w) \<longleftrightarrow> prefix pre key" "ch < length (chans w)"
proof -
  let ?al = "watches w"
  have d: "distinct (map fst ?al)" "distinct (concat (map snd ?al))"
    using assms(1) by (auto simp: watch_invar_def watched_chans_def)
  from assms(2) obtain arr where arr: "map_of ?al pre = Some arr" "ch \<in> set arr"
    by (cases "map_of ?al pre") (simp_all add: watchers_of_def)
  have uniq: "q = pre" if "(q, arr') \<in> set ?al" "ch \<in> set arr'" for q arr'
    using concat_unique [OF d(2) that(1) map_of_SomeD [OF arr(1)]] that(2) arr(2) by simp
  have "(pre, arr) \<in> set ?al" using arr(1) by (rule map_of_SomeD)
  moreover have "ch \<in> set (notified_chans key w) \<longleftrightarrow> (\<exists>q arr'. (q, arr') \<in> set ?al \<and> prefix q key \<and> ch \<in> set arr')"
    by (auto simp: notified_chans_def)
  ultimately show "ch \<in> set (notified_chans key w) \<longleftrightarrow> prefix pre key" using uniq arr(2) by blast
  have "ch \<in> set (watched_chans w)" using \<open>(pre, arr) \<in> set ?al\<close> arr(2) by (force simp: watched_chans_def)
  then show "ch < length (chans w)" using assms(1) by (simp add: watch_invar_def)
qed

text \<open>How often the keys of a batch meet a prefix.\<close>

definition matches :: "bytes \<Rightarrow> WriteEntry list \<Rightarrow> nat" where
  "matches pre writes = length (filter (\<lambda>e. prefix pre (wKey e)) writes)"

lemma notify_writes_invar:
  assumes "watch_invar w"
  shows "\<exists>w'. notify_writes writes w = Some w' \<and> watch_invar w' \<and> watches w' = watches w \<and> wClosed w' = wClosed w
    \<and> length (chans w') = length (chans w)
    \<and> (\<forall>ch. \<not> wClosed w \<longrightarrow> ch < length (chans w) \<longrightarrow> ch \<notin> set (watched_chans w) \<longrightarrow> chans w' ! ch = chans w ! ch)
    \<and> (\<forall>pre. \<forall>ch \<in> set (watchers_of w pre). \<not> wClosed w \<longrightarrow>
         buffered (chans w' ! ch) = min watchChanBuf (buffered (chans w ! ch) + matches pre writes))"
  using assms
proof (induction writes arbitrary: w)
  case Nil
  have "buffered (chans w ! ch) \<le> watchChanBuf" if "ch \<in> set (watchers_of w pre)" for ch pre
    using Nil notified_watcher(2) [OF Nil that] chans_bounded [of w] by (simp add: watch_invar_def)
  with Nil show ?case by (simp add: matches_def min_absorb2)
next
  case (Cons e es)
  obtain w1 where w1: "notify w (wKey e) = Some w1" "watch_invar w1" "watches w1 = watches w" "wClosed w1 = wClosed w"
    "length (chans w1) = length (chans w)"
    "\<And>i. \<not> wClosed w \<Longrightarrow> i < length (chans w) \<Longrightarrow>
       chans w1 ! i = (if i \<in> set (notified_chans (wKey e) w) then bump (chans w ! i) else chans w ! i)"
    using watch_invar_notify [OF Cons.prems refl] by metis
  have of1: "watchers_of w1 = watchers_of w" "watched_chans w1 = watched_chans w"
    using w1(3) by (auto simp: watchers_of_def watched_chans_def fun_eq_iff)
  from Cons.IH [OF w1(2)] obtain w' where w':
    "notify_writes es w1 = Some w'" "watch_invar w'" "watches w' = watches w" "wClosed w' = wClosed w"
    "length (chans w') = length (chans w)"
    "\<And>ch. \<not> wClosed w \<Longrightarrow> ch < length (chans w) \<Longrightarrow> ch \<notin> set (watched_chans w) \<Longrightarrow> chans w' ! ch = chans w1 ! ch"
    "\<And>pre ch. ch \<in> set (watchers_of w pre) \<Longrightarrow> \<not> wClosed w \<Longrightarrow>
       buffered (chans w' ! ch) = min watchChanBuf (buffered (chans w1 ! ch) + matches pre es)"
    using w1(3-5) of1 by auto
  have "chans w' ! ch = chans w ! ch"
    if "\<not> wClosed w" "ch < length (chans w)" "ch \<notin> set (watched_chans w)" for ch
    using w'(6) [OF that] w1(6) [OF that(1,2)] notified_sub [of "wKey e" w] that(3) by auto
  moreover have "buffered (chans w' ! ch) = min watchChanBuf (buffered (chans w ! ch) + matches pre (e # es))"
    if "ch \<in> set (watchers_of w pre)" "\<not> wClosed w" for pre ch
    using w'(7) [OF that] w1(6) [OF that(2) notified_watcher(2) [OF Cons.prems that(1)]]
      notified_watcher(1) [OF Cons.prems that(1), of "wKey e"]
    by (auto simp: matches_def bump_def min_def)
  ultimately show ?case using w1(1) w'(1-5) by auto
qed

lemma watched_frame [simp]:
  "watched_chans (w\<lparr>chans := cs\<rparr>) = watched_chans w" "watchers_of (w\<lparr>chans := cs\<rparr>) = watchers_of w"
  by (simp_all add: watched_chans_def watchers_of_def fun_eq_iff)

lemma open_chans_grow:
  "\<forall>ch \<in> A. ch < length cs \<and> \<not> chClosed (cs ! ch) \<Longrightarrow>
   \<forall>ch \<in> A. ch < length (cs @ [c]) \<and> \<not> chClosed ((cs @ [c]) ! ch)"
  by (auto simp: nth_append less_SucI)

lemma watch_invar_grow:
  assumes "watch_invar w" "buffered c \<le> watchChanBuf"
  shows "watch_invar (w\<lparr>chans := chans w @ [c]\<rparr>)"
  using assms open_chans_grow [of "set (watched_chans w @ closing w)" "chans w" c]
  by (simp add: watch_invar_def)

lemma watch_invar_register:
  assumes inv: "watch_invar w" and run: "register w pre = (ch, w')"
  shows "watch_invar w'"
proof (cases "wClosed w")
  case True
  then have "w' = w\<lparr>chans := chans w @ [\<lparr>buffered = 0, chClosed = True\<rparr>]\<rparr>"
    using run by (simp add: register_def Let_def)
  with inv show ?thesis by (simp add: watch_invar_grow)
next
  case False
  let ?al = "AList.update pre (slot (watches w) pre @ [ch]) (watches w)"
  have ch: "ch = length (chans w)" and w': "w' = w\<lparr>chans := chans w @ [\<lparr>buffered = 0, chClosed = False\<rparr>],
      watches := ?al, waiting := waiting w @ [(ch, pre)]\<rparr>"
    using run False by (auto simp: register_def Let_def watchers_of_slot)
  have d: "distinct (map fst (watches w))" using inv by (simp add: watch_invar_def)
  from mset_update_slot [OF d, of pre "slot (watches w) pre @ [ch]"]
  have m: "mset (concat (map snd ?al) @ closing w) = mset (ch # watched_chans w @ closing w)"
    by (simp add: watched_chans_def ac_simps)
  have new: "ch \<notin> set (watched_chans w @ closing w)" using inv ch by (force simp: watch_invar_def)
  have "distinct (concat (map snd ?al) @ closing w)"
    using mset_eq_imp_distinct_iff [OF m] new inv by (simp add: watch_invar_def)
  moreover have "set (concat (map snd ?al) @ closing w) = insert ch (set (watched_chans w @ closing w))"
    using mset_eq_setD [OF m] by simp
  moreover have "(ch, q) \<notin> set (waiting w)" for q
    using inv new slot_subset [of "watches w" q] by (auto simp: watch_invar_def watchers_of_slot watched_chans_def)
  moreover have "\<forall>(q, arr) \<in> set ?al. arr \<noteq> []"
    using inv update_mem(3) by (fastforce simp: watch_invar_def)
  moreover have "\<forall>c \<in> set (watched_chans w @ closing w). c < length (chans w @ [\<lparr>buffered = 0, chClosed = False\<rparr>])
      \<and> \<not> chClosed ((chans w @ [\<lparr>buffered = 0, chClosed = False\<rparr>]) ! c)"
    using inv by (intro open_chans_grow) (simp add: watch_invar_def)
  moreover have "slot ?al q = (if q = pre then slot (watches w) pre @ [ch] else slot (watches w) q)" for q by auto
  ultimately show ?thesis
    using inv ch d by (auto simp: w' watch_invar_def watched_chans_def watchers_of_slot distinct_update)
qed

lemma watch_invar_unregister:
  assumes inv: "watch_invar w" and mem: "(ch, pre) \<in> set (waiting w)"
  shows "watch_invar (unregister w ch pre)"
proof -
  let ?arr = "remove1 ch (slot (watches w) pre)"
  let ?al = "if ?arr = [] then AList.delete pre (watches w) else AList.update pre ?arr (watches w)"
  have w': "unregister w ch pre = w\<lparr>watches := ?al, waiting := remove1 (ch, pre) (waiting w), closing := closing w @ [ch]\<rparr>"
    by (simp add: unregister_def Let_def watchers_of_slot)
  have d: "distinct (map fst (watches w))" "distinct (concat (map snd (watches w)))"
    using inv by (auto simp: watch_invar_def watched_chans_def)
  have ch: "ch \<in> set (slot (watches w) pre)" using inv mem by (simp add: watch_invar_def watchers_of_slot)
  then have s: "mset (slot (watches w) pre) = add_mset ch (mset ?arr)" by simp
  have "mset (concat (map snd ?al)) + mset (slot (watches w) pre) = mset (concat (map snd (watches w))) + mset ?arr"
    using mset_delete_slot [OF d(1), of pre] mset_update_slot [OF d(1), of pre ?arr]
    by (cases "?arr = []") (simp_all del: mset_remove1)
  then have m: "mset (concat (map snd ?al) @ closing w @ [ch]) = mset (watched_chans w @ closing w)"
    unfolding s by (simp add: watched_chans_def)
  have "distinct (concat (map snd ?al) @ closing w @ [ch])"
    using mset_eq_imp_distinct_iff [OF m] inv by (simp add: watch_invar_def)
  moreover have "set (concat (map snd ?al) @ closing w @ [ch]) = set (watched_chans w @ closing w)"
    using mset_eq_setD [OF m] .
  moreover have "\<forall>(q, arr) \<in> set ?al. arr \<noteq> []"
    using inv update_mem(3) by (fastforce simp: watch_invar_def AList.delete_eq split: if_splits)
  moreover have "slot ?al q = (if q = pre then ?arr else slot (watches w) q)" for q by auto
  moreover have "set ?arr = set (slot (watches w) pre) - {ch}" using slot_distinct [OF d(2)] by simp
  moreover have "distinct (map fst ?al)" using d(1) by (simp add: distinct_update distinct_delete)
  ultimately show ?thesis
    using inv by (auto simp: w' watch_invar_def watched_chans_def watchers_of_slot)
qed

lemma watch_invar_close:
  assumes inv: "watch_invar w" and mem: "ch \<in> set (closing w)"
  shows "\<exists>w'. close_chan w ch = Some w' \<and> watch_invar w'"
proof -
  let ?cs = "(chans w)[ch := (chans w ! ch)\<lparr>chClosed := True\<rparr>]"
  let ?w = "w\<lparr>chans := ?cs, closing := remove1 ch (closing w)\<rparr>"
  have d: "distinct (watched_chans w @ closing w)" and
    op: "\<forall>c \<in> set (watched_chans w @ closing w). c < length (chans w) \<and> \<not> chClosed (chans w ! c)"
    using inv by (simp_all add: watch_invar_def)
  have "close_chan w ch = Some ?w" using op mem by (simp add: close_chan_def)
  moreover have "\<forall>c \<in> set (watched_chans w @ remove1 ch (closing w)). c < length ?cs \<and> \<not> chClosed (?cs ! c)"
    using d op mem by (auto simp: nth_list_update)
  moreover have "\<forall>c \<in> set ?cs. buffered c \<le> watchChanBuf"
    using inv op mem by (auto simp: watch_invar_def dest!: set_update_subset_insert [THEN subsetD])
  moreover have "watched_chans ?w = watched_chans w" "watchers_of ?w = watchers_of w"
    by (simp_all add: watched_chans_def watchers_of_def fun_eq_iff)
  ultimately show ?thesis
    using inv d by (auto simp: watch_invar_def dest: notin_set_remove1)
qed

lemma watch_step_safe:
  assumes "watch_step w r" "watch_invar w"
  shows "\<exists>w'. r = Some w' \<and> watch_invar w'"
  using assms
proof cases
  case (w_register pre ch w')
  then show ?thesis using assms(2) watch_invar_register by blast
next
  case (w_leave ch pre)
  then show ?thesis using assms(2) watch_invar_unregister by blast
next
  case (w_close ch)
  then show ?thesis using assms(2) watch_invar_close by blast
next
  case (w_notify writes)
  then show ?thesis using assms(2) notify_writes_invar [OF assms(2), of writes] by (auto simp: NotifyBatch_def)
next
  case (w_receive ch)
  let ?cs = "(chans w)[ch := (chans w ! ch)\<lparr>buffered := buffered (chans w ! ch) - 1\<rparr>]"
  have "\<forall>i < length (chans w). buffered (chans w ! i) \<le> watchChanBuf"
    using assms(2) unfolding watch_invar_def chans_bounded by blast
  then have "\<forall>i < length ?cs. buffered (?cs ! i) \<le> watchChanBuf"
    using w_receive(2) by (auto simp: nth_list_update le_diff_conv trans_le_add1)
  then have "watch_invar (w\<lparr>chans := ?cs\<rparr>)"
    using assms(2) w_receive(2) by (intro watch_invar_chans) (auto simp: nth_list_update)
  then show ?thesis using w_receive by (simp add: receive_signal_def)
next
  case w_closeAll
  then show ?thesis using assms(2) by (auto simp: closeAll_def watch_invar_def watched_chans_def watchers_of_def)
qed

lemma watch_reach_invar: "watch_reach w \<Longrightarrow> watch_invar w"
proof (induction rule: watch_reach.induct)
  case w_init
  show ?case by (simp add: watch_invar_def newWatcherMap_def watched_chans_def watchers_of_def)
next
  case (w_step w w')
  then show ?case using watch_step_safe [of w "Some w'"] by auto
qed

subsection \<open>Properties\<close>

text \<open>
  C17. No interleaving of registrations, cancellations, notifications, receives and the shutdown makes
  the watcher map panic: a notification never sends on a closed channel and a goroutine never
  closes a channel twice, because a channel leaves the map before it is closed. No channel ever buffers
  more than 256 signals.
\<close>

theorem watch_never_panics:
  assumes "watch_reach w" "watch_step w r"
  shows "r \<noteq> None \<and> (\<forall>c \<in> set (chans w). buffered c \<le> watchChanBuf)"
proof -
  have "watch_invar w" using watch_reach_invar [OF assms(1)] .
  with watch_step_safe [OF assms(2)] show ?thesis by (auto simp: watch_invar_def)
qed

lemma register_reach: "watch_reach w \<Longrightarrow> watch_reach (snd (register w pre))"
  by (rule watch_reach.w_step) (auto intro: watch_step.w_register [OF surjective_pairing])

theorem watch_never_panics_witness:
  "NotifyBatch (snd (register newWatcherMap [1])) [\<lparr>wOp = OpSet, wKey = [1, 2], wValue = []\<rparr>] \<noteq> None"
  using watch_never_panics [OF register_reach [OF watch_reach.w_init] watch_step.w_notify] by blast

text \<open>
  A batch of writes signals a channel registered under a prefix once for every key with that prefix,
  up to the capacity of its buffer; the channels that are not registered stay as they are. After the
  shutdown nothing is signalled.
\<close>

theorem notify_batch_delivers:
  assumes "watch_reach w"
  shows "\<exists>w'. NotifyBatch w writes = Some w' \<and> watches w' = watches w
    \<and> (wClosed w \<longrightarrow> w' = w)
    \<and> (\<not> wClosed w \<longrightarrow>
        (\<forall>pre. \<forall>ch \<in> set (watchers_of w pre).
           buffered (chans w' ! ch) = min watchChanBuf (buffered (chans w ! ch) + matches pre writes))
        \<and> (\<forall>ch < length (chans w). ch \<notin> set (watched_chans w) \<longrightarrow> chans w' ! ch = chans w ! ch))"
proof (cases "length (watches w) = 0")
  case True
  then show ?thesis by (simp add: NotifyBatch_def watchers_of_def)
next
  case False
  have closed: "wClosed w \<Longrightarrow> notify_writes writes w = Some w"
    by (induction writes) (simp_all add: notify_def)
  from notify_writes_invar [OF watch_reach_invar [OF assms], of writes] closed False
  show ?thesis by (auto simp: NotifyBatch_def)
qed

theorem notify_batch_delivers_witness:
  "\<exists>w'. NotifyBatch (snd (register newWatcherMap [1]))
      [\<lparr>wOp = OpSet, wKey = [1, 2], wValue = []\<rparr>, \<lparr>wOp = OpSet, wKey = [3], wValue = []\<rparr>] = Some w'
    \<and> buffered (chans w' ! 0) = 1"
proof -
  let ?w = "snd (register newWatcherMap [1])"
  have "0 \<in> set (watchers_of ?w [1])" "\<not> wClosed ?w" "buffered (chans ?w ! 0) = 0" by code_simp+
  then show ?thesis
    using notify_batch_delivers [OF register_reach [OF watch_reach.w_init], of "[1]"
        "[\<lparr>wOp = OpSet, wKey = [1, 2], wValue = []\<rparr>, \<lparr>wOp = OpSet, wKey = [3], wValue = []\<rparr>]"]
    by (fastforce simp: matches_def watchChanBuf_def)
qed

end
