(* ===== verification/Node_Runs.thy ===== *)
theory Node_Runs
  imports Node Node_Props Watch_Props
begin

text \<open>
  Properties of whole node runs (\<open>src/dpx.go\<close>): sequence numbers, the delivery of committed writes to
  watchers, and what is left of a node after \<open>Close\<close>.
\<close>

subsection \<open>The proposer's notifications\<close>

lemma observe_notified [simp]: "notified (observe p f) = notified f" "hasWatchers (observe p f) = hasWatchers f"
  by (simp_all add: observe_def)

lemma set_epochs_notified [simp]:
  "notified (fsm (set_epochs ke d)) = notified (fsm d)" "hasWatchers (fsm (set_epochs ke d)) = hasWatchers (fsm d)"
  "notified (fsm (count_conflict d)) = notified (fsm d)" "hasWatchers (fsm (count_conflict d)) = hasWatchers (fsm d)"
  by (simp_all add: set_epochs_def count_conflict_def)

lemma stack_entries_notified:
  "stack_entries ps d stack b hw = (rs, d', b', hw') \<Longrightarrow>
     notified (fsm d') = notified (fsm d) \<and> hasWatchers (fsm d') = hasWatchers (fsm d)"
  by (induction ps arbitrary: d stack b hw rs b' hw')
    (auto simp: stack_entry_def Let_def split: prod.splits if_splits)

lemma map_entries_notified:
  "map_entries ps d shadow b hw = (rs, d', b', hw') \<Longrightarrow>
     notified (fsm d') = notified (fsm d) \<and> hasWatchers (fsm d') = hasWatchers (fsm d)"
  by (induction ps arbitrary: d shadow b hw rs b' hw')
    (auto simp: map_entry_def Let_def split: prod.splits if_splits option.splits)

definition committed_writes :: "Proposal list \<Rightarrow> ApplyResult list \<Rightarrow> WriteEntry list list" where
  "committed_writes ps rs = map (\<lambda>pr. Writes (fst pr)) (filter (\<lambda>pr. accepted (snd pr)) (zip ps rs))"

lemma notify_entries_notified:
  "hasWatchers (notify_entries prs f) = hasWatchers f"
  "hasWatchers f \<Longrightarrow> notified (notify_entries prs f)
     = notified f @ map (\<lambda>pr. Writes (fst pr)) (filter (\<lambda>pr. accepted (snd pr)) prs)"
  by (induction prs arbitrary: f) (simp_all add: notifyBatch_def)

lemma applyBatchDirect_notified:
  assumes "applyBatchDirect E d ps = (rs, d')" "hasWatchers (fsm d)"
  shows "hasWatchers (fsm d') \<and> notified (fsm d') = notified (fsm d) @ committed_writes ps rs"
proof -
  obtain rs0 d1 b hw where bb: "build_batch d ps = (rs0, d1, b, hw)" by (cases "build_batch d ps")
  then have "notified (fsm d1) = notified (fsm d)" "hasWatchers (fsm d1)"
    using assms(2) by (auto simp: build_batch_def split: if_splits dest!: stack_entries_notified map_entries_notified)
  with assms(1) bb show ?thesis
    by (auto simp: applyBatchDirect_def commit_batch_def committed_writes_def notify_entries_notified Let_def
        split: if_splits prod.splits option.splits)
qed

lemma set_engine_notified [simp]:
  "notified (fsm (set_engine e d)) = notified (fsm d)" "hasWatchers (fsm (set_engine e d)) = hasWatchers (fsm d)"
  by (simp_all add: set_engine_def)

lemma run_direct_watched: "hasWatchers (fsm d) \<Longrightarrow> hasWatchers (fsm (run_direct E d pss))"
  unfolding run_direct_def
  by (induction pss arbitrary: d) (auto dest: applyBatchDirect_notified [OF surjective_pairing])

lemma runOnce_watched:
  assumes "runOnce E d prog ts pss before after = (r, d')" "hasWatchers (fsm d)"
  shows "hasWatchers (fsm d')"
proof -
  have "hasWatchers (fsm (snd (applyBatchDirect E (run_direct E (set_engine e d) pss) qs)))" for e qs
    using applyBatchDirect_notified [OF surjective_pairing] run_direct_watched [of "set_engine e d" E pss] assms(2)
    by (metis set_engine_notified(2))
  with assms show ?thesis
    by (fastforce simp: runOnce_def Let_def case_prod_beta split: sum.splits)
qed

lemma attempts_watched: "hasWatchers (fsm d) \<Longrightarrow> hasWatchers (fsm (attempt_state (run_attempt E prog env) d n))"
proof (induction n)
  case (Suc n)
  then show ?case
    by (auto simp: run_attempt_def split: prod.split intro!: runOnce_watched [OF surjective_pairing])
qed simp

lemma retry_watched: "retry_ok m do \<Longrightarrow> hasWatchers (fsm d) \<Longrightarrow> hasWatchers (fsm (snd (do (run_attempt E prog env) d)))"
  unfolding retry_ok_def using attempts_watched by (metis snd_conv)

subsection \<open>Delivery\<close>

lemma NotifyBatch_writes: "NotifyBatch w ws = notify_writes ws w"
proof -
  have "notify_writes ws w = Some w" if "watches w = []"
    using that by (induction ws) (simp_all add: notify_def)
  then show ?thesis by (simp add: NotifyBatch_def)
qed

lemma notify_writes_append: "notify_writes (xs @ ys) w = Option.bind (notify_writes xs w) (notify_writes ys)"
  by (induction xs arbitrary: w) (auto split: Option.bind_splits)

lemma deliver_writes: "deliver wss w = notify_writes (concat wss) w"
proof (induction wss arbitrary: w)
  case (Cons ws wss)
  then have "deliver wss = notify_writes (concat wss)" by auto
  then show ?case by (simp add: NotifyBatch_writes notify_writes_append)
qed simp

lemma set_proposer_total:
  assumes "node_invar n" "hasWatchers (fsm d)"
  obtains n' where "set_proposer d n = Some n'" "node_invar n'" "nodeProposer n' = d"
    "seqCounter n' = seqCounter n" "nodeClosed n' = nodeClosed n"
    "deliver (drop (length (notified (fsm (nodeProposer n)))) (notified (fsm d))) (nodeWatchers n) = Some (nodeWatchers n')"
proof -
  obtain w where "deliver (drop (length (notified (fsm (nodeProposer n)))) (notified (fsm d))) (nodeWatchers n) = Some w"
    "watch_invar w"
    using notify_writes_invar [of "nodeWatchers n"] assms(1) unfolding node_invar_def deliver_writes by blast
  with that [of "n\<lparr>nodeProposer := d, nodeWatchers := w\<rparr>"] assms(2) show thesis
    by (simp add: set_proposer_def node_invar_def)
qed

lemma node_applyBatch_total:
  assumes "node_invar n"
  obtains n' rs where "node_applyBatch E n ps = Some (rs, n')" "rs = fst (applyBatchDirect E (nodeProposer n) ps)"
    "node_invar n'" "seqCounter n' = seqCounter n"
    "notify_writes (concat (committed_writes ps rs)) (nodeWatchers n) = Some (nodeWatchers n')"
proof -
  obtain rs d where a: "applyBatchDirect E (nodeProposer n) ps = (rs, d)" by fastforce
  have d: "hasWatchers (fsm d)" "notified (fsm d) = notified (fsm (nodeProposer n)) @ committed_writes ps rs"
    using applyBatchDirect_notified [OF a] assms by (auto simp: node_invar_def)
  obtain n' where n': "set_proposer d n = Some n'" "node_invar n'" "seqCounter n' = seqCounter n"
    "deliver (drop (length (notified (fsm (nodeProposer n)))) (notified (fsm d))) (nodeWatchers n) = Some (nodeWatchers n')"
    by (rule set_proposer_total [OF assms d(1)])
  show thesis
  proof (rule that)
    show "node_applyBatch E n ps = Some (rs, n')" by (simp add: node_applyBatch_def a n'(1))
    show "notify_writes (concat (committed_writes ps rs)) (nodeWatchers n) = Some (nodeWatchers n')"
      using n'(4) by (simp add: d(2) deliver_writes)
  qed (simp_all add: a n'(2,3))
qed

subsection \<open>Steps\<close>

lemma closeAll_invar: "watch_invar w \<Longrightarrow> watch_invar (closeAll w)"
  using watch_step_safe [OF watch_step.w_closeAll] by auto

lemma node_Close_closed:
  assumes "trigger_ok trigger" "\<not> nodeClosed n"
  shows "node_Close trigger ce n = n\<lparr>nodeClosed := True, nodeWatchers := closeAll (nodeWatchers n),
    nodeProposer := set_engine (ce (engine (fsm (nodeProposer n)))) (direct_Shutdown (nodeProposer n))\<rparr>"
  using assms by (auto simp: trigger_ok_def node_Close_def shutdown_hooks_def direct_Shutdown_def)

lemma direct_Shutdown_fsm [simp]: "fsm (direct_Shutdown d) = fsm d" "closed (direct_Shutdown d)"
  by (simp_all add: direct_Shutdown_def)

lemma node_step_invar:
  assumes "node_step E ce n i n'" "node_invar n"
  shows "node_invar n' \<and> seqCounter n' = seqCounter n + (if i = None then 0 else 1)
    \<and> (case i of None \<Rightarrow> True | Some j \<Rightarrow> j = seqCounter n + 1)"
  using assms
proof cases
  case (n_apply ps rs)
  obtain n1 rs1 where "node_applyBatch E n ps = Some (rs1, n1)" "node_invar n1" "seqCounter n1 = seqCounter n"
    by (rule node_applyBatch_total [OF assms(2)])
  with n_apply show ?thesis by simp
next
  case (n_tx maxAttempts do prog env r)
  obtain q d where a: "do (run_attempt E prog env) (nodeProposer n) = (q, d)" by fastforce
  have "hasWatchers (fsm d)"
    using retry_watched [OF n_tx(2), of "nodeProposer n" E prog env] a assms(2) by (simp add: node_invar_def)
  from set_proposer_total [OF assms(2) this] obtain n1 where "set_proposer d n = Some n1" "node_invar n1"
    "seqCounter n1 = seqCounter n" .
  with n_tx a assms(2) show ?thesis
    by (auto simp: node_RunInTx_def node_invar_def split: if_splits prod.splits)
next
  case (n_close trigger)
  with assms(2) closeAll_invar show ?thesis
    by (cases "nodeClosed n") (simp add: node_Close_def, simp add: node_Close_closed node_invar_def)
qed (use assms(2) watch_invar_register watch_step_safe in \<open>force simp: AllocateNextSequence_def WatchKey_def
    Backup_def node_GetRange_of_def SetBatchConfig_def node_invar_def Let_def
    split: if_splits prod.splits option.splits sum.splits\<close>)+

lemma node_run_invar: "node_run E ce n0 xs n \<Longrightarrow> node_invar n0 \<Longrightarrow> node_invar n"
  by (induction rule: node_run.induct) (auto dest: node_step_invar)

lemma node_Open_invar: "node_Open cfg eng dump = Inr n \<Longrightarrow> node_invar n \<and> seqCounter n = 0 \<and> \<not> nodeClosed n"
  by (auto simp: node_Open_def node_invar_def newDirectProposer_def newFSM_def fsm_open_def watch_reach_invar watch_reach.w_init
      Let_def split: option.splits sum.splits prod.splits)

subsection \<open>Properties\<close>

text \<open>
  Sequence numbers. Whatever transactions, batches, watches, scans, backups and shutdowns a node runs
  in between, the numbers that \<open>AllocateNextSequence\<close> hands out from its opening on are one, two, three and so
  on, until 64 bits are used up, and \<open>GetSafeReadPoint\<close> is the last of them: it counts allocations, and
  committed writes do not move it.
\<close>

theorem sequences_consecutive:
  assumes "node_Open cfg eng dump = Inr n0" "node_run memory_engine ce n0 xs n" "length xs < 2 ^ 64"
  shows "map unat xs = [1..<length xs + 1] \<and> unat (GetSafeReadPoint n) = length xs"
proof -
  have "node_invar n0" "seqCounter n0 = 0" using node_Open_invar [OF assms(1)] by auto
  with assms(2) have "xs = map word_of_nat [1..<length xs + 1] \<and> seqCounter n = word_of_nat (length xs)"
  proof (induction rule: node_run.induct)
    case (n_next xs n i n')
    note S = node_step_invar [OF n_next.hyps(2) node_run_invar [OF n_next.hyps(1) n_next.prems(1)]]
    from n_next.IH [OF n_next.prems] S show ?case by (cases i) (auto simp: add.commute)
  qed simp
  moreover have "map (\<lambda>k. unat (word_of_nat k :: uint64)) [1..<length xs + 1] = [1..<length xs + 1]"
  proof (intro map_idI)
    fix k assume "k \<in> set [1..<length xs + 1]"
    then have "k < 2 ^ 64" using assms(3) by auto
    then show "unat (word_of_nat k :: uint64) = k" by (simp add: unat_of_nat)
  qed
  moreover have "unat (word_of_nat (length xs) :: uint64) = length xs" using assms(3) by (simp add: unat_of_nat)
  moreover have "map unat (map word_of_nat ks :: uint64 list) = map (\<lambda>k. unat (word_of_nat k :: uint64)) ks" for ks
    by simp
  ultimately show ?thesis unfolding GetSafeReadPoint_def by metis
qed

definition cfg0 :: Config where
  "cfg0 = \<lparr>NodeID = [], cfgSyncPolicy = SyncNone, cfgPeers = [],
     cfgBatch = \<lparr>MaxEntries = 0, MaxBytes = 0, MinAge = 0, MaxAge = 0, EMAAlpha = 0, bcK = 0\<rparr>,
     cfgRetry = \<lparr>MaxAttempts = 0, BaseDelay = 0, MaxDelay = 0, Multiplier = 0\<rparr>, ShutdownTimeout = 0\<rparr>"

text \<open>A node opened on an empty engine.\<close>

definition node0 :: "(bytes \<times> bytes) list Engine Node" where
  "node0 = (case node_Open cfg0 (Some (New alist_pkg)) None of Inr n \<Rightarrow> n)"

lemma node0_open: "node_Open cfg0 (Some (New alist_pkg)) None = Inr node0"
proof -
  have "\<not> isl (node_Open cfg0 (Some (New alist_pkg)) None)" by code_simp
  then show ?thesis by (auto simp: node0_def split: sum.split)
qed

lemmas node0_invar = node_Open_invar [OF node0_open]

text \<open>Two allocations around a committed write: the numbers follow each other.\<close>

theorem sequences_consecutive_witness:
  "\<exists>n. node_run memory_engine id node0 [1, 2] n \<and> map unat [1, 2 :: uint64] = [1..<length [1, 2 :: uint64] + 1]
     \<and> unat (GetSafeReadPoint n) = 2"
proof -
  let ?a = "snd (AllocateNextSequence node0)"
  have a: "AllocateNextSequence node0 = (1, ?a)" "node_invar ?a" "seqCounter ?a = 1"
    using node0_invar by (simp_all add: AllocateNextSequence_def node_invar_def)
  obtain b rs where b: "node_applyBatch memory_engine ?a [op_p [] OpSet [1] [7]] = Some (rs, b)" "seqCounter b = 1"
    using node_applyBatch_total [OF a(2)] a(3) by metis
  have c: "AllocateNextSequence b = (2, snd (AllocateNextSequence b))" using b(2) by (simp add: AllocateNextSequence_def)
  have "node_run memory_engine id node0 [1] ?a"
    using node_run.n_next [OF node_run.n_start node_step.n_sequence [OF a(1)]] by simp
  from node_run.n_next [OF this node_step.n_apply [OF b(1)]] have "node_run memory_engine id node0 [1] b" by simp
  from node_run.n_next [OF this node_step.n_sequence [OF c]]
  have "node_run memory_engine id node0 [1, 2] (snd (AllocateNextSequence b))" by simp
  moreover from sequences_consecutive [OF node0_open this] have "unat (GetSafeReadPoint (snd (AllocateNextSequence b))) = 2"
    "map unat [1, 2 :: uint64] = [1..<length [1, 2 :: uint64] + 1]" by simp_all
  ultimately show ?thesis by blast
qed

text \<open>
  C18. Committed writes reach the watchers. Applying a batch on a reachable node never panics, and a
  channel registered under a prefix receives one signal for every key with that prefix written by an accepted
  proposal of the batch, up to the capacity of its buffer. Rejected proposals signal nothing.
\<close>

theorem commits_signal_watchers:
  assumes "node_Open cfg eng dump = Inr n0" "node_run memory_engine ce n0 xs n"
    and "\<not> wClosed (nodeWatchers n)" "ch \<in> set (watchers_of (nodeWatchers n) pre)"
  shows "\<exists>rs n'. node_applyBatch memory_engine n ps = Some (rs, n')
    \<and> rs = fst (applyBatchDirect memory_engine (nodeProposer n) ps)
    \<and> buffered (chans (nodeWatchers n') ! ch)
       = min watchChanBuf (buffered (chans (nodeWatchers n) ! ch) + matches pre (concat (committed_writes ps rs)))"
proof -
  have inv: "node_invar n" using node_run_invar [OF assms(2)] node_Open_invar [OF assms(1)] by blast
  obtain n' rs where n': "node_applyBatch memory_engine n ps = Some (rs, n')"
    "rs = fst (applyBatchDirect memory_engine (nodeProposer n) ps)"
    "notify_writes (concat (committed_writes ps rs)) (nodeWatchers n) = Some (nodeWatchers n')"
    using node_applyBatch_total [OF inv] by metis
  moreover have "watch_invar (nodeWatchers n)" using inv by (simp add: node_invar_def)
  ultimately show ?thesis using notify_writes_invar [of "nodeWatchers n"] assms(3,4) by (metis option.inject)
qed

theorem commits_signal_watchers_witness:
  "\<exists>n n'. WatchKey node0 [1] = (Inr 0, n) \<and> node_applyBatch memory_engine n [op_p [] OpSet [1, 2] [7]] = Some ([result_ok], n')
     \<and> buffered (chans (nodeWatchers n') ! 0) = 1"
proof -
  let ?n = "snd (WatchKey node0 [1])" and ?ps = "[op_p [] OpSet [1, 2] [7]]"
  have "fst (WatchKey node0 [1]) = Inr 0" by code_simp
  then have reg: "WatchKey node0 [1] = (Inr 0, ?n)" by (metis prod.collapse)
  have w: "\<not> wClosed (nodeWatchers ?n)" "0 \<in> set (watchers_of (nodeWatchers ?n) [1])"
    "buffered (chans (nodeWatchers ?n) ! 0) = 0"
    "fst (applyBatchDirect memory_engine (nodeProposer ?n) ?ps) = [result_ok]"
    "matches [1] (concat (committed_writes ?ps [result_ok])) = 1" by code_simp+
  have "node_run memory_engine id node0 [] ?n"
    using node_run.n_next [OF node_run.n_start node_step.n_watchKey [OF reg]] by simp
  from commits_signal_watchers [OF node0_open this w(1,2), of ?ps] w reg show ?thesis by (auto simp: watchChanBuf_def)
qed

text \<open>
  After \<open>Close\<close> a node is inert: transactions, scans, watches and backups report the closed store and
  change nothing, a second \<open>Close\<close> does nothing, the proposer is shut down, and the watcher map
  delivers nothing more.
\<close>

theorem closed_node_inert:
  assumes "trigger_ok trigger" "\<not> nodeClosed n" "n' = node_Close trigger ce n"
  shows "node_RunInTx E do n' prog env = Some (Some DpxStoreClosed, n')
    \<and> fst (node_GetRange_of E n' start stop limit rv) = Inl DpxStoreClosed
    \<and> snd (node_GetRange_of E n' start stop limit rv) = n'
    \<and> WatchKey n' pre = (Inl DpxStoreClosed, n') \<and> Backup E checkpoint n' = (Inl DpxStoreClosed, n')
    \<and> node_Close trigger ce n' = n' \<and> closed (nodeProposer n') \<and> NotifyBatch (nodeWatchers n') ws = Some (nodeWatchers n')
    \<and> engine (fsm (nodeProposer n')) = ce (engine (fsm (nodeProposer n)))"
proof -
  have w: "wClosed (nodeWatchers n')" and c: "nodeClosed n'" "closed (nodeProposer n')"
    "engine (fsm (nodeProposer n')) = ce (engine (fsm (nodeProposer n)))"
    using assms by (auto simp: node_Close_closed closeAll_def set_engine_def)
  have "notify_writes ws (nodeWatchers n') = Some (nodeWatchers n')"
    using w by (induction ws) (simp_all add: notify_def)
  with c show ?thesis
    by (auto simp: node_RunInTx_def node_GetRange_of_def node_GetRange_def WatchKey_def
        Backup_def node_Close_def NotifyBatch_writes set_engine_def)
qed

lemma trigger_ok_fold: "trigger_ok (fold (\<lambda>h. h))"
  by (simp add: trigger_ok_def)

theorem closed_node_inert_witness:
  "WatchKey (node_Close (fold (\<lambda>h. h)) id node0) [1] = (Inl DpxStoreClosed, node_Close (fold (\<lambda>h. h)) id node0)"
proof -
  have "\<not> nodeClosed node0" using node0_invar by simp
  from closed_node_inert [OF trigger_ok_fold this refl] show ?thesis by blast
qed

end
