(* ===== verification/MVCC_Engine.thy ===== *)
theory MVCC_Engine
  imports Memory_Engine
begin

text \<open>
  The multi-version engine of \<open>src/engine/memory/mvcc.go\<close>. Every key has a slice of versions in
  commit order; a snapshot is a sequence number. A shard's Go map is iterated by \<open>Compact\<close>,
  \<open>CreateCheckpoint\<close> and the iterators, hence an association list. The commit protocol of
  \<open>ApplyBatch\<close> is split into the steps other goroutines can observe: reserve a sequence number,
  write the shards, publish. Temporary directories, the compaction ticker and telemetry are left out.
\<close>

subsection \<open>State\<close>

record mvccEntry =
  meSeq :: uint64
  meValue :: bytes
  meDeleted :: bool

type_synonym mvccShard = "(bytes \<times> mvccEntry list) list"

record MVCCEngine =
  mvShards :: "mvccShard list"
  seqCounter :: uint64
  lastCommitted :: uint64
  oldestSnapshot :: uint64
  snapshotCount :: int

definition NewMVCC :: MVCCEngine where
  "NewMVCC = \<lparr>mvShards = replicate numShards [], seqCounter = 0, lastCommitted = 0,
     oldestSnapshot = 0, snapshotCount = 0\<rparr>"

text \<open>\<open>s.data[key]\<close>, an absent key having the empty slice of a fresh \<open>atomicValue\<close>.\<close>

definition shard_entries :: "mvccShard \<Rightarrow> bytes \<Rightarrow> mvccEntry list" where
  "shard_entries s key = (case map_of s key of None \<Rightarrow> [] | Some es \<Rightarrow> es)"

definition entries_of :: "MVCCEngine \<Rightarrow> bytes \<Rightarrow> mvccEntry list" where
  "entries_of e key = shard_entries (mvShards e ! shardFor key) key"

subsection \<open>Writing\<close>

definition getCurrentValue :: "mvccEntry list \<Rightarrow> bytes" where
  "getCurrentValue es = (case find (\<lambda>en. \<not> meDeleted en) (rev es) of None \<Rightarrow> [] | Some en \<Rightarrow> meValue en)"

definition entry_op :: "uint64 \<Rightarrow> mvccEntry list \<Rightarrow> batchOp \<Rightarrow> mvccEntry list" where
  "entry_op commitSeq es op =
     (let entry = \<lparr>meSeq = commitSeq, meValue = bvalue op, meDeleted = (bop op = CHR ''d'')\<rparr>
      in if bop op = CHR ''s'' \<or> bop op = CHR ''d'' then es @ [entry]
         else if bop op = CHR ''m'' then
           es @ [entry\<lparr>meValue := encodeInt64 (decodeInt64 (getCurrentValue es) + decodeInt64 (bvalue op))\<rparr>]
         else es)"

definition mvcc_append :: "uint64 \<Rightarrow> mvccShard \<Rightarrow> batchOp \<Rightarrow> mvccShard" where
  "mvcc_append commitSeq s op = AList.update (bkey op) (entry_op commitSeq (shard_entries s (bkey op)) op) s"

definition group_op :: "shardedBatch \<Rightarrow> batchOp \<Rightarrow> shardedBatch" where
  "group_op byShard op =
     (let sh = shardFor (bkey op); ops = (case map_of byShard sh of None \<Rightarrow> [] | Some ops \<Rightarrow> ops)
      in AList.update sh (ops @ [op]) byShard)"

definition reserve_seq :: "nat \<Rightarrow> MVCCEngine \<Rightarrow> uint64 \<times> MVCCEngine" where
  "reserve_seq n e = (seqCounter e + word_of_nat n, e\<lparr>seqCounter := seqCounter e + word_of_nat n\<rparr>)"

definition write_shard :: "uint64 \<Rightarrow> MVCCEngine \<Rightarrow> nat \<times> batchOp list \<Rightarrow> MVCCEngine" where
  "write_shard commitSeq e shops =
     (case shops of (sh, ops) \<Rightarrow>
        e\<lparr>mvShards := (mvShards e)[sh := foldl (mvcc_append commitSeq) (mvShards e ! sh) ops]\<rparr>)"

definition publish :: "uint64 \<Rightarrow> MVCCEngine \<Rightarrow> MVCCEngine" where
  "publish commitSeq e = (if commitSeq \<le> lastCommitted e then e else e\<lparr>lastCommitted := commitSeq\<rparr>)"

definition mvcc_ApplyBatch :: "MVCCEngine \<Rightarrow> batch \<Rightarrow> bool \<Rightarrow> engine_error option \<times> MVCCEngine" where
  "mvcc_ApplyBatch e b sync =
     (let ops = foldl memBatch_call [] b
      in if ops = [] then (None, e)
         else let (commitSeq, e1) = reserve_seq (length ops) e;
                  byShard = foldl group_op [] ops;
                  e2 = foldl (write_shard commitSeq) e1 byShard
              in (None, publish commitSeq e2))"

text \<open>The path of the sharded proposer: all writes go to the shard the caller names.\<close>

definition mvcc_ApplyShardDirect :: "MVCCEngine \<Rightarrow> nat \<Rightarrow> batchOp list \<Rightarrow> uint64 \<times> MVCCEngine" where
  "mvcc_ApplyShardDirect e shardIdx writes =
     (let (commitSeq, e1) = reserve_seq (length writes) e
      in (commitSeq, publish commitSeq (write_shard commitSeq e1 (shardIdx, writes))))"

subsection \<open>Reading\<close>

definition mvcc_Get :: "MVCCEngine \<Rightarrow> bytes \<Rightarrow> engine_error + bytes" where
  "mvcc_Get e key =
     (let es = entries_of e key
      in if es = [] then Inl ErrKeyNotFound
         else if meDeleted (last es) then Inl ErrKeyNotFound else Inr (meValue (last es)))"

text \<open>The binary search, over Go's signed indices.\<close>

function find_loop :: "mvccEntry list \<Rightarrow> uint64 \<Rightarrow> int \<Rightarrow> int \<Rightarrow> int \<Rightarrow> int" where
  "find_loop es target low hi result =
     (if low \<le> hi then
        (let mid = low + (hi - low) div 2
         in if meSeq (es ! nat mid) \<le> target then find_loop es target (mid + 1) hi mid
            else find_loop es target low (mid - 1) result)
      else result)"
  by pat_completeness auto
termination
  by (relation "measure (\<lambda>(es, target, low, hi, result). nat (hi - low + 1))") auto

definition findVersion :: "mvccEntry list \<Rightarrow> uint64 \<Rightarrow> int" where
  "findVersion es target = find_loop es target 0 (int (length es) - 1) (-1)"

primrec linear_from :: "mvccEntry list \<Rightarrow> uint64 \<Rightarrow> nat \<Rightarrow> int" where
  "linear_from es target 0 = -1"
| "linear_from es target (Suc i) = (if meSeq (es ! i) \<le> target then int i else linear_from es target i)"

definition findVersionLinear :: "mvccEntry list \<Rightarrow> uint64 \<Rightarrow> int" where
  "findVersionLinear es target = linear_from es target (length es)"

definition mvcc_GetSnapshot :: "MVCCEngine \<Rightarrow> uint64 \<times> MVCCEngine" where
  "mvcc_GetSnapshot e =
     (let seq = lastCommitted e; e1 = e\<lparr>snapshotCount := snapshotCount e + 1\<rparr>
      in (seq, if oldestSnapshot e1 = 0 \<or> seq < oldestSnapshot e1 then e1\<lparr>oldestSnapshot := seq\<rparr> else e1))"

definition mvcc_snap_Get :: "MVCCEngine \<Rightarrow> uint64 \<Rightarrow> bytes \<Rightarrow> engine_error + bytes" where
  "mvcc_snap_Get e seq key =
     (let es = entries_of e key
      in if es = [] then Inl ErrKeyNotFound
         else let idx = findVersion es seq
              in if idx < 0 then Inl ErrKeyNotFound
                 else let entry = es ! nat idx
                      in if meDeleted entry then Inl ErrKeyNotFound else Inr (meValue entry))"

definition mvcc_snap_GetVersion :: "MVCCEngine \<Rightarrow> uint64 \<Rightarrow> bytes \<Rightarrow> EpochRecord" where
  "mvcc_snap_GetVersion e seq key =
     (let es = entries_of e (versionKey key)
      in if es = [] then zero_epoch
         else let idx = findVersion es seq
              in if idx < 0 then zero_epoch else decodeEpochRecord0 (meValue (es ! nat idx)))"

definition mvcc_pair :: "bytes \<Rightarrow> bytes \<Rightarrow> uint64 \<Rightarrow> bytes \<times> mvccEntry list \<Rightarrow> (bytes \<times> bytes) option" where
  "mvcc_pair start stop seq kes =
     (case kes of (k, es) \<Rightarrow>
        if k < start then None
        else if stop \<noteq> [] \<and> stop \<le> k then None
        else if isReserved k then None
        else if es = [] then None
        else let idx = findVersionLinear es seq
             in if idx \<ge> 0 \<and> \<not> meDeleted (es ! nat idx) then Some (k, meValue (es ! nat idx)) else None)"

definition mvcc_newIterator :: "MVCCEngine \<Rightarrow> bytes \<Rightarrow> bytes \<Rightarrow> uint64 \<Rightarrow> memIter" where
  "mvcc_newIterator e start stop seq =
     new_iter (sort_key fst (concat (map (\<lambda>s. List.map_filter (mvcc_pair start stop seq) s) (mvShards e))))"

definition mvcc_RawIter :: "MVCCEngine \<Rightarrow> bytes \<Rightarrow> bytes \<Rightarrow> memIter" where
  "mvcc_RawIter e start stop = mvcc_newIterator e start stop (seqCounter e)"

definition mvcc_CurrentSequence :: "MVCCEngine \<Rightarrow> uint64" where
  "mvcc_CurrentSequence e = seqCounter e"

definition mvcc_Close :: "MVCCEngine \<Rightarrow> uint64 \<Rightarrow> MVCCEngine" where
  "mvcc_Close e s = e\<lparr>snapshotCount := snapshotCount e - 1\<rparr>"

subsection \<open>Compaction\<close>

text \<open>The new slice of a key, or \<open>None\<close> when the key is deleted from the map.\<close>

definition compact_key :: "uint64 \<Rightarrow> mvccEntry list \<Rightarrow> mvccEntry list option" where
  "compact_key safeSeq es =
     (if safeSeq = 0 \<and> length es \<ge> 1 \<and> meDeleted (last es) then None
      else if length es \<le> 2 then Some es
      else
        (let removeCount =
               (if safeSeq > 0 then
                  (let n = length (takeWhile (\<lambda>en. meSeq en < safeSeq) es)
                   in if length es - n < 2 then length es - 2 else n)
                else length es - 2)
         in Some (drop removeCount es)))"

definition compact_shard :: "uint64 \<Rightarrow> mvccShard \<Rightarrow> mvccShard" where
  "compact_shard safeSeq s =
     List.map_filter (\<lambda>(k, es). map_option (Pair k) (compact_key safeSeq es)) s"

definition removed_versions :: "uint64 \<Rightarrow> mvccShard \<Rightarrow> nat" where
  "removed_versions safeSeq s =
     sum_list (map (\<lambda>(k, es). case compact_key safeSeq es of None \<Rightarrow> length es | Some es' \<Rightarrow> length es - length es') s)"

definition Compact :: "MVCCEngine \<Rightarrow> nat \<times> MVCCEngine" where
  "Compact e =
     (let safeSeq = (if snapshotCount e > 0 then oldestSnapshot e else 0)
      in (sum_list (map (removed_versions safeSeq) (mvShards e)),
          e\<lparr>mvShards := map (compact_shard safeSeq) (mvShards e)\<rparr>))"

subsection \<open>Checkpoints\<close>

definition checkpoint_key :: "data_map \<times> uint64 \<Rightarrow> bytes \<times> mvccEntry list \<Rightarrow> data_map \<times> uint64" where
  "checkpoint_key acc kes =
     (case acc of (allData, mx) \<Rightarrow> case kes of (k, es) \<Rightarrow>
        (case find (\<lambda>en. \<not> meDeleted en) (rev es) of
           None \<Rightarrow> (allData, mx)
         | Some en \<Rightarrow> (AList.update k (meValue en) allData, if meSeq en > mx then meSeq en else mx)))"

definition mvcc_CreateCheckpoint :: "MVCCEngine \<Rightarrow> bytes" where
  "mvcc_CreateCheckpoint e =
     (case foldl (foldl checkpoint_key) ([], 0) (mvShards e) of (allData, mx) \<Rightarrow> encodeDump allData mx)"

definition mvcc_load :: "uint64 \<Rightarrow> MVCCEngine \<Rightarrow> bytes \<times> bytes \<Rightarrow> MVCCEngine" where
  "mvcc_load ap e kv =
     (case kv of (k, v) \<Rightarrow>
        (let sh = shardFor k; s = mvShards e ! sh
         in e\<lparr>mvShards := (mvShards e)[sh := AList.update k
              (shard_entries s k @ [\<lparr>meSeq = ap, meValue = v, meDeleted = False\<rparr>]) s]\<rparr>))"

definition mvcc_Open :: "MVCCEngine \<Rightarrow> bytes option \<Rightarrow> dump_error + MVCCEngine" where
  "mvcc_Open e file =
     (case file of
        None \<Rightarrow> Inr e
      | Some b \<Rightarrow>
          (case decodeDump b of
             Inl err \<Rightarrow> Inl err
           | Inr (data, ap) \<Rightarrow> Inr (foldl (mvcc_load ap) (e\<lparr>seqCounter := ap\<rparr>) data)))"

definition mvcc_engine :: "(MVCCEngine, uint64) StorageEngine" where
  "mvcc_engine =
     \<lparr>eGet = mvcc_Get, eGetSnapshot = mvcc_GetSnapshot, eApplyBatch = mvcc_ApplyBatch,
      eSync = (\<lambda>e. (None, e)), eCurrentSequence = mvcc_CurrentSequence, eRawIter = mvcc_RawIter,
      sGet = mvcc_snap_Get, sGetVersion = mvcc_snap_GetVersion,
      sNewIter = (\<lambda>e s start stop. mvcc_newIterator e start stop s),
      sSequence = (\<lambda>e s. s), sClose = mvcc_Close\<rparr>"

end
