(* ===== verification/Sharded.thy ===== *)
theory Sharded
  imports Direct MVCC_Engine
begin

text \<open>
  The sharded proposer of \<open>src/conductor/sharded_direct.go\<close>: 128 shards with key epochs and an
  index each, over one engine. A proposal is routed by its first write and applied at once on its
  shard. The spin lock serialises a shard, so an application is one step of the model. An engine that
  is a sharded multi-version engine is written through its \<open>ApplyShardDirect\<close>; this type switch is
  the optional argument \<open>mv\<close>. Buffers of the pool are left out, except for \<open>epochBuf\<close>, whose
  aliasing is observable.
\<close>

subsection \<open>State\<close>

record shardProposer =
  spEpochs :: epochs
  spIndex :: uint64
  spApplied :: uint64
  shardIdx :: nat

record 'e shardedDirectProposer =
  shEngine :: 'e
  shShards :: "shardProposer list"
  shClosed :: bool
  shSyncPolicy :: SyncPolicy
  shConflicts :: nat
  shWatched :: bool
  shNotified :: "WriteEntry list list"

type_synonym 'e shard_direct = "'e \<Rightarrow> nat \<Rightarrow> batchOp list \<Rightarrow> uint64 \<times> 'e"

text \<open>The loop that opens one state machine per shard, ending at the first error.\<close>

primrec open_shards ::
  "('e, 's) StorageEngine \<Rightarrow> 'e \<Rightarrow> SyncPolicy \<Rightarrow> bool \<Rightarrow> nat list \<Rightarrow> fsm_error + shardProposer list" where
  "open_shards E eng policy w [] = Inr []"
| "open_shards E eng policy w (i # is) =
     (case fsm_open E (newFSM eng policy w\<lparr>skipHLC := True\<rparr>) of
        Inl err \<Rightarrow> Inl err
      | Inr (_, f) \<Rightarrow>
          (case open_shards E eng policy w is of
             Inl err \<Rightarrow> Inl err
           | Inr sps \<Rightarrow>
               Inr (\<lparr>spEpochs = keyEpoch f, spIndex = 0, spApplied = applied f, shardIdx = i\<rparr> # sps)))"

definition newShardedDirectProposer ::
  "('e, 's) StorageEngine \<Rightarrow> 'e \<Rightarrow> SyncPolicy \<Rightarrow> bool \<Rightarrow> fsm_error + 'e shardedDirectProposer" where
  "newShardedDirectProposer E eng policy w =
     (case open_shards E eng policy w [0..<numShards] of
        Inl err \<Rightarrow> Inl err
      | Inr sps \<Rightarrow> Inr \<lparr>shEngine = eng, shShards = sps, shClosed = False, shSyncPolicy = policy,
                        shConflicts = 0, shWatched = w, shNotified = []\<rparr>)"

definition route :: "Proposal \<Rightarrow> nat" where
  "route p =
     (if length (Writes p) > 0 then shardFor (wKey (Writes p ! 0))
      else if length (ReadSet p) > 0 then shardFor (rKey (ReadSet p ! 0))
      else 0)"

subsection \<open>Applying a proposal\<close>

text \<open>
  Conflict detection: skipped for more than 64 reads. The array of shadow entries stays empty, since a
  single proposal is applied.
\<close>

definition inline_conflict :: "epochs \<Rightarrow> Proposal \<Rightarrow> bool" where
  "inline_conflict ke p \<longleftrightarrow> length (ReadSet p) \<le> maxStackShadow \<and> stack_conflict ke p []"

text \<open>The loop over the writes of the fallback path.\<close>

primrec inline_writes :: "uint64 \<Rightarrow> WriteEntry list \<Rightarrow> epochs \<Rightarrow> batch \<Rightarrow> epochs \<times> batch" where
  "inline_writes idx [] ke b = (ke, b)"
| "inline_writes idx (w # ws) ke b =
     (let b1 = (case op_call w of None \<Rightarrow> b | Some c \<Rightarrow> b @ [c])
      in inline_writes idx ws (ke(wKey w \<mapsto> write_epoch idx w)) (b1 @ [version_call idx w]))"

text \<open>
  The loop of the multi-version path. All version records and the applied record share \<open>epochBuf\<close>,
  which the engine keeps without copying: what they hold in the end is the index, and in the
  ninth byte the credit flag of the last write, here \<open>cr\<close>.
\<close>

definition mvcc_op :: "WriteEntry \<Rightarrow> batchOp list" where
  "mvcc_op w =
     (if wOp w = OpSet then [\<lparr>bop = CHR ''s'', bkey = wKey w, bvalue = wValue w\<rparr>]
      else if wOp w = OpDelete then [\<lparr>bop = CHR ''d'', bkey = wKey w, bvalue = []\<rparr>]
      else if wOp w = OpCredit \<or> wOp w = OpDebit then [\<lparr>bop = CHR ''m'', bkey = wKey w, bvalue = wValue w\<rparr>]
      else [])"

primrec mvcc_inline_writes ::
  "uint64 \<Rightarrow> bool \<Rightarrow> WriteEntry list \<Rightarrow> epochs \<Rightarrow> batchOp list \<Rightarrow> epochs \<times> batchOp list" where
  "mvcc_inline_writes idx cr [] ke ops = (ke, ops)"
| "mvcc_inline_writes idx cr (w # ws) ke ops =
     mvcc_inline_writes idx cr ws (ke(wKey w \<mapsto> write_epoch idx w))
       (ops @ mvcc_op w @ [\<lparr>bop = CHR ''s'', bkey = versionKey (wKey w),
                            bvalue = encodeEpochRecord \<lparr>Epoch = idx, IsCredit = cr\<rparr>\<rparr>])"

definition last_credit :: "Proposal \<Rightarrow> bool" where
  "last_credit p \<longleftrightarrow> Writes p \<noteq> [] \<and> wOp (last (Writes p)) = OpCredit"

definition mvcc_inline ::
  "'e shard_direct \<Rightarrow> uint64 \<Rightarrow> Proposal \<Rightarrow> 'e \<Rightarrow> shardProposer \<Rightarrow> shardProposer \<times> 'e" where
  "mvcc_inline applyDirect idx p e sp =
     (let (ke, ops) = mvcc_inline_writes idx (last_credit p) (Writes p) (spEpochs sp) [];
          (commitSeq, e') = applyDirect e (shardIdx sp)
             (ops @ [\<lparr>bop = CHR ''s'', bkey = appliedKey, bvalue = encodeUint64 idx\<rparr>])
      in (sp\<lparr>spEpochs := ke, spApplied := commitSeq\<rparr>, e'))"

definition batch_inline ::
  "('e, 's) StorageEngine \<Rightarrow> SyncPolicy \<Rightarrow> uint64 \<Rightarrow> Proposal \<Rightarrow> 'e \<Rightarrow> shardProposer \<Rightarrow>
     engine_error option \<times> shardProposer \<times> 'e" where
  "batch_inline E policy idx p e sp =
     (let (ke, b) = inline_writes idx (Writes p) (spEpochs sp) [];
          sp1 = sp\<lparr>spEpochs := ke\<rparr>;
          (err, e1) = eApplyBatch E e (b @ [applied_call idx]) (policy = SyncFull)
      in case err of
           Some er \<Rightarrow> (Some er, sp1, e1)
         | None \<Rightarrow> (None, sp1\<lparr>spApplied := spIndex sp1\<rparr>,
                    if policy = SyncBatch then snd (eSync E e1) else e1))"

definition set_shard :: "nat \<Rightarrow> shardProposer \<Rightarrow> 'e shardedDirectProposer \<Rightarrow> 'e shardedDirectProposer" where
  "set_shard i sp s = s\<lparr>shShards := (shShards s)[i := sp]\<rparr>"

definition notify_sharded :: "WriteEntry list \<Rightarrow> 'e shardedDirectProposer \<Rightarrow> 'e shardedDirectProposer" where
  "notify_sharded ws s = (if shWatched s then s\<lparr>shNotified := shNotified s @ [ws]\<rparr> else s)"

definition applyInline ::
  "('e, 's) StorageEngine \<Rightarrow> 'e shard_direct option \<Rightarrow> nat \<Rightarrow> Proposal \<Rightarrow> 'e shardedDirectProposer \<Rightarrow>
     ApplyResult \<times> 'e shardedDirectProposer" where
  "applyInline E mv i p s =
     (let sp = (shShards s ! i)\<lparr>spIndex := spIndex (shShards s ! i) + 1\<rparr>; idx = spIndex sp
      in if inline_conflict (spEpochs sp) p
         then (result_conflict, set_shard i sp s\<lparr>shConflicts := shConflicts s + 1\<rparr>)
         else case mv of
           Some applyDirect \<Rightarrow>
             (let (sp', e') = mvcc_inline applyDirect idx p (shEngine s) sp
              in (result_ok, notify_sharded (Writes p) (set_shard i sp' s\<lparr>shEngine := e'\<rparr>)))
         | None \<Rightarrow>
             (case batch_inline E (shSyncPolicy s) idx p (shEngine s) sp of
                (Some er, sp', e') \<Rightarrow> (result_err (EngineFailed er), set_shard i sp' s\<lparr>shEngine := e'\<rparr>)
              | (None, sp', e') \<Rightarrow> (result_ok, notify_sharded (Writes p) (set_shard i sp' s\<lparr>shEngine := e'\<rparr>))))"

datatype propose_error =
    ErrShardedClosed
  | ErrDirectClosed
  | BadProposal unmarshal_error

definition sharded_ProposeDirect ::
  "('e, 's) StorageEngine \<Rightarrow> 'e shard_direct option \<Rightarrow> Proposal \<Rightarrow> 'e shardedDirectProposer \<Rightarrow>
     (propose_error + ApplyResult) \<times> 'e shardedDirectProposer" where
  "sharded_ProposeDirect E mv p s =
     (if shClosed s then (Inl ErrShardedClosed, s)
      else let (r, s') = applyInline E mv (route p) p s in (Inr r, s'))"

definition sharded_Propose ::
  "('e, 's) StorageEngine \<Rightarrow> 'e shard_direct option \<Rightarrow> bytes \<Rightarrow> 'e shardedDirectProposer \<Rightarrow>
     (propose_error + ApplyResult) \<times> 'e shardedDirectProposer" where
  "sharded_Propose E mv data s =
     (if shClosed s then (Inl ErrShardedClosed, s)
      else case Unmarshal zero_proposal data of
        Inl err \<Rightarrow> (Inl (BadProposal err), s)
      | Inr p \<Rightarrow> sharded_ProposeDirect E mv p s)"

definition sharded_Shutdown :: "'e shardedDirectProposer \<Rightarrow> 'e shardedDirectProposer" where
  "sharded_Shutdown s = s\<lparr>shClosed := True\<rparr>"

end
