(* ===== verification/MVCC_Props.thy ===== *)
theory MVCC_Props
  imports MVCC_Engine Memory_Props
begin

text \<open>
  The multi-version engine: its binary search, its invariant, that it keeps the storage contract for
  the batches it supports, what compaction preserves, and where it departs from its documentation.
\<close>

subsection \<open>Version search\<close>

definition versions_upto :: "uint64 \<Rightarrow> mvccEntry list \<Rightarrow> mvccEntry list" where
  "versions_upto t es = takeWhile (\<lambda>en. meSeq en \<le> t) es"

lemma versions_upto_Nil [simp]: "versions_upto t [] = []"
  by (simp add: versions_upto_def)

definition seq_sorted :: "mvccEntry list \<Rightarrow> bool" where
  "seq_sorted es \<longleftrightarrow> sorted (map meSeq es)"

lemma versions_upto_nth:
  assumes "seq_sorted es" "i < length es"
  shows "meSeq (es ! i) \<le> t \<longleftrightarrow> i < length (versions_upto t es)"
proof
  assume "i < length (versions_upto t es)"
  then show "meSeq (es ! i) \<le> t"
    unfolding versions_upto_def by (metis nth_mem set_takeWhileD takeWhile_nth)
next
  assume le: "meSeq (es ! i) \<le> t"
  show "i < length (versions_upto t es)"
  proof (rule ccontr)
    assume "\<not> i < length (versions_upto t es)"
    then have n: "length (versions_upto t es) \<le> i" by simp
    then have "length (versions_upto t es) < length es" using assms(2) by simp
    then have "\<not> meSeq (es ! length (versions_upto t es)) \<le> t"
      unfolding versions_upto_def by (rule nth_length_takeWhile)
    moreover have "meSeq (es ! length (versions_upto t es)) \<le> meSeq (es ! i)"
      using assms n by (auto simp: seq_sorted_def sorted_iff_nth_mono)
    ultimately show False using le by auto
  qed
qed

lemma find_loop_eq:
  assumes "seq_sorted es" "n = length (versions_upto t es)"
  shows "0 \<le> low \<Longrightarrow> hi < int (length es) \<Longrightarrow> low \<le> int n \<Longrightarrow> int n \<le> hi + 1 \<Longrightarrow> result = low - 1 \<Longrightarrow>
    find_loop es t low hi result = int n - 1"
proof (induction "nat (hi - low + 1)" arbitrary: low hi result rule: less_induct)
  case less
  show ?case
  proof (cases "low \<le> hi")
    case True
    let ?mid = "low + (hi - low) div 2"
    have mid: "low \<le> ?mid" "?mid \<le> hi" "nat ?mid < length es" using True less.prems by auto
    have iff: "meSeq (es ! nat ?mid) \<le> t \<longleftrightarrow> ?mid < int n"
      using versions_upto_nth [OF assms(1) mid(3), of t] assms(2) mid(1) less.prems(1) by auto
    show ?thesis
    proof (cases "meSeq (es ! nat ?mid) \<le> t")
      case le: True
      have "find_loop es t (?mid + 1) hi ?mid = int n - 1"
        using iff le mid less.prems True by (intro less.hyps) auto
      with le True show ?thesis by (subst find_loop.simps) (simp add: Let_def)
    next
      case gt: False
      have "find_loop es t low (?mid - 1) result = int n - 1"
        using iff gt mid less.prems True by (intro less.hyps) auto
      with gt True show ?thesis by (subst find_loop.simps) (simp add: Let_def)
    qed
  next
    case False
    then show ?thesis using less.prems by (subst find_loop.simps) auto
  qed
qed

lemma length_versions_upto: "length (versions_upto t es) \<le> length es"
  by (simp add: versions_upto_def length_takeWhile_le)

lemma findVersion_eq: "seq_sorted es \<Longrightarrow> findVersion es t = int (length (versions_upto t es)) - 1"
  unfolding findVersion_def using length_versions_upto [of t es] by (intro find_loop_eq) auto

lemma linear_from_eq:
  "seq_sorted es \<Longrightarrow> i \<le> length es \<Longrightarrow> linear_from es t i = int (min i (length (versions_upto t es))) - 1"
proof (induction i)
  case (Suc i)
  then have "meSeq (es ! i) \<le> t \<longleftrightarrow> i < length (versions_upto t es)" by (intro versions_upto_nth) auto
  with Suc show ?case by auto
qed simp

lemma findVersionLinear_eq: "seq_sorted es \<Longrightarrow> findVersionLinear es t = int (length (versions_upto t es)) - 1"
  using linear_from_eq [of es "length es" t] length_versions_upto [of t es]
  by (simp add: findVersionLinear_def min_def)

subsection \<open>Abstraction and invariant\<close>

text \<open>What a slice of versions shows: its last version, unless that is a tombstone.\<close>

definition entry_value :: "mvccEntry list \<Rightarrow> bytes option" where
  "entry_value es = (if es = [] \<or> meDeleted (last es) then None else Some (meValue (last es)))"

definition mvcc_contents :: "MVCCEngine \<Rightarrow> kv" where
  "mvcc_contents e = (\<lambda>k. entry_value (entries_of e k))"

definition mvcc_view :: "MVCCEngine \<Rightarrow> uint64 \<Rightarrow> kv" where
  "mvcc_view e s = (\<lambda>k. entry_value (versions_upto s (entries_of e k)))"

definition slice_ok :: "uint64 \<Rightarrow> mvccEntry list \<Rightarrow> bool" where
  "slice_ok mx es \<longleftrightarrow> seq_sorted es \<and> (\<forall>en \<in> set es. meSeq en \<le> mx \<and> (meDeleted en \<longrightarrow> meValue en = []))"

definition shard_ok :: "uint64 \<Rightarrow> nat \<Rightarrow> mvccShard \<Rightarrow> bool" where
  "shard_ok mx i s \<longleftrightarrow> distinct (map fst s) \<and> (\<forall>(k, es) \<in> set s. shardFor k = i \<and> slice_ok mx es)"

definition mvcc_invar :: "MVCCEngine \<Rightarrow> bool" where
  "mvcc_invar e \<longleftrightarrow> length (mvShards e) = numShards \<and> lastCommitted e \<le> seqCounter e
     \<and> (\<forall>i < numShards. shard_ok (lastCommitted e) i (mvShards e ! i))"

definition mvcc_live :: "MVCCEngine \<Rightarrow> uint64 \<Rightarrow> bool" where
  "mvcc_live e s \<longleftrightarrow> s \<le> lastCommitted e"

lemma shard_entries_ok: "shard_ok mx i s \<Longrightarrow> slice_ok mx (shard_entries s k)"
  by (auto simp: shard_ok_def shard_entries_def slice_ok_def seq_sorted_def split: option.splits dest!: map_of_SomeD)

lemma entries_ok: "mvcc_invar e \<Longrightarrow> slice_ok (lastCommitted e) (entries_of e k)"
  by (simp add: mvcc_invar_def entries_of_def shard_entries_ok [of _ "shardFor k"])

lemma versions_upto_all: "slice_ok mx es \<Longrightarrow> mx \<le> t \<Longrightarrow> versions_upto t es = es"
  by (force simp: slice_ok_def versions_upto_def)

lemma last_versions_upto:
  assumes "versions_upto t es \<noteq> []"
  shows "es ! (length (versions_upto t es) - 1) = last (versions_upto t es)"
  using assms by (simp add: versions_upto_def last_conv_nth takeWhile_nth)

lemma found_entry:
  assumes "versions_upto t es \<noteq> []"
  shows "es ! nat (int (length (versions_upto t es)) - 1) = last (versions_upto t es)"
proof -
  have "nat (int (length (versions_upto t es)) - 1) = length (versions_upto t es) - 1" by simp
  with last_versions_upto [OF assms] show ?thesis by simp
qed

lemma mvcc_snap_Get_view:
  assumes "mvcc_invar e"
  shows "mvcc_snap_Get e s k = kv_result (mvcc_view e s k)"
proof -
  have "seq_sorted (entries_of e k)" using entries_ok [OF assms] by (simp add: slice_ok_def)
  then show ?thesis
    by (cases "versions_upto s (entries_of e k) = []")
      (auto simp: mvcc_snap_Get_def mvcc_view_def findVersion_eq entry_value_def found_entry Let_def)
qed

lemma mvcc_snap_GetVersion_view:
  assumes "mvcc_invar e"
  shows "mvcc_snap_GetVersion e s k = stored_version (mvcc_view e s (versionKey k))"
proof -
  let ?es = "entries_of e (versionKey k)"
  have ok: "slice_ok (lastCommitted e) ?es" using entries_ok [OF assms] .
  then have "seq_sorted ?es" by (simp add: slice_ok_def)
  show ?thesis
  proof (cases "versions_upto s ?es = []")
    case True
    with \<open>seq_sorted ?es\<close> show ?thesis
      by (simp add: mvcc_snap_GetVersion_def mvcc_view_def entry_value_def findVersion_eq Let_def)
  next
    case False
    then have "last (versions_upto s ?es) \<in> set ?es"
      unfolding versions_upto_def by (meson last_in_set set_takeWhileD)
    then have "meDeleted (last (versions_upto s ?es)) \<longrightarrow> meValue (last (versions_upto s ?es)) = []"
      using ok by (simp add: slice_ok_def)
    moreover have "?es \<noteq> []" using False by (auto simp: versions_upto_def)
    ultimately show ?thesis
      using False \<open>seq_sorted ?es\<close>
      by (auto simp: mvcc_snap_GetVersion_def mvcc_view_def entry_value_def findVersion_eq found_entry
          Let_def stored_version_def decodeEpochRecord0_def)
  qed
qed

lemma mvcc_Get_contents: "mvcc_Get e k = kv_result (mvcc_contents e k)"
  by (simp add: mvcc_Get_def mvcc_contents_def entry_value_def Let_def)

subsection \<open>Commits\<close>

lemma shard_entries_append:
  "shard_entries (mvcc_append q s op) k =
     (if bkey op = k then entry_op q (shard_entries s k) op else shard_entries s k)"
  by (simp add: mvcc_append_def shard_entries_def update_conv)

lemma shard_entries_appends:
  "shard_entries (foldl (mvcc_append q) s ops) k =
     foldl (entry_op q) (shard_entries s k) (filter (\<lambda>op. bkey op = k) ops)"
  by (induction ops arbitrary: s) (auto simp: shard_entries_append)

lemma group_op_call: "group_op sb (call_op c) = shardedBatch_call sb c"
  by (simp add: group_op_def shardedBatch_call_def memBatch_call_eq)

lemma group_ops: "foldl group_op [] (map call_op b) = foldl shardedBatch_call [] b"
proof -
  have "foldl group_op sb (map call_op b) = foldl shardedBatch_call sb b" for sb
    by (induction b arbitrary: sb) (simp_all add: group_op_call)
  then show ?thesis .
qed

lemma write_shards:
  "distinct (map fst sb) \<Longrightarrow> \<forall>(i, ops) \<in> set sb. i < length (mvShards e) \<Longrightarrow> e' = foldl (write_shard q) e sb \<Longrightarrow>
   seqCounter e' = seqCounter e \<and> lastCommitted e' = lastCommitted e
   \<and> length (mvShards e') = length (mvShards e)
   \<and> (\<forall>i < length (mvShards e). mvShards e' ! i =
        foldl (mvcc_append q) (mvShards e ! i) (case map_of sb i of None \<Rightarrow> [] | Some ops \<Rightarrow> ops))"
proof (induction sb arbitrary: e)
  case (Cons iops sb)
  obtain j ops where io: "iops = (j, ops)" by (cases iops)
  let ?e = "write_shard q e iops"
  have e: "seqCounter ?e = seqCounter e" "lastCommitted ?e = lastCommitted e"
    "mvShards ?e = (mvShards e)[j := foldl (mvcc_append q) (mvShards e ! j) ops]"
    by (simp_all add: io write_shard_def)
  have j: "j < length (mvShards e)" "map_of sb j = None"
    using Cons.prems(1,2) by (auto simp: io map_of_eq_None_iff)
  from Cons.IH [of ?e] Cons.prems have
    "seqCounter e' = seqCounter ?e \<and> lastCommitted e' = lastCommitted ?e
     \<and> length (mvShards e') = length (mvShards ?e)
     \<and> (\<forall>i < length (mvShards ?e). mvShards e' ! i =
        foldl (mvcc_append q) (mvShards ?e ! i) (case map_of sb i of None \<Rightarrow> [] | Some ops \<Rightarrow> ops))"
    using e(3) by simp
  with e j show ?case by (auto simp: io nth_list_update)
qed simp

lemma length_calls: "length (foldl memBatch_call [] b) = length b"
  by (simp add: foldl_memBatch_call)

lemma mvcc_ApplyBatch_entries:
  assumes inv: "mvcc_invar e" and ne: "b \<noteq> []" and run: "mvcc_ApplyBatch e b sync = (r, e')"
    and q: "q = seqCounter e + word_of_nat (length b)"
  shows "length (mvShards e') = numShards" "seqCounter e' = q"
    "lastCommitted e' = (if q \<le> lastCommitted e then lastCommitted e else q)" "r = None"
    "i < numShards \<Longrightarrow> mvShards e' ! i = foldl (mvcc_append q) (mvShards e ! i) (map call_op (calls_for b i))"
    "entries_of e' k = foldl (entry_op q) (entries_of e k) (map call_op (filter (\<lambda>c. call_key c = k) b))"
proof -
  let ?sb = "foldl shardedBatch_call [] b" and ?e1 = "e\<lparr>seqCounter := q\<rparr>"
  let ?e2 = "foldl (write_shard q) ?e1 ?sb"
  have len: "length (mvShards e) = numShards" using inv by (simp add: mvcc_invar_def)
  have r: "r = None" "e' = publish q ?e2"
    using run ne q by (auto simp: mvcc_ApplyBatch_def foldl_memBatch_call group_ops reserve_seq_def Let_def)
  have "\<forall>(i, ops) \<in> set ?sb. i < length (mvShards ?e1)"
  proof clarify
    fix i ops assume "(i, ops) \<in> set ?sb"
    then have "i \<in> set (map fst ?sb)" by force
    then have "calls_for b i \<noteq> []" using keys_foldl_shardedBatch_call [of b] by blast
    then show "i < length (mvShards ?e1)" using len by (auto simp: calls_for_def filter_empty_conv)
  qed
  from write_shards [OF distinct_foldl_shardedBatch_call this refl] have
    W: "seqCounter ?e2 = q" "lastCommitted ?e2 = lastCommitted e" "length (mvShards ?e2) = numShards"
    "\<And>i. i < numShards \<Longrightarrow> mvShards ?e2 ! i = foldl (mvcc_append q) (mvShards e ! i) (map call_op (calls_for b i))"
    using len by (auto simp: foldl_shardedBatch_call)
  have p: "mvShards e' = mvShards ?e2" "seqCounter e' = seqCounter ?e2"
    "lastCommitted e' = (if q \<le> lastCommitted ?e2 then lastCommitted ?e2 else q)"
    by (simp_all add: r(2) publish_def)
  show "r = None" "length (mvShards e') = numShards" "seqCounter e' = q"
    "lastCommitted e' = (if q \<le> lastCommitted e then lastCommitted e else q)"
    using r W p by simp_all
  show sh: "mvShards e' ! i = foldl (mvcc_append q) (mvShards e ! i) (map call_op (calls_for b i))"
    if "i < numShards" for i using W(4) that p(1) by simp
  have "filter (\<lambda>op. bkey op = k) (map call_op (calls_for b (shardFor k))) = map call_op (filter (\<lambda>c. call_key c = k) b)"
    by (induction b) (auto simp: calls_for_def)
  then show "entries_of e' k = foldl (entry_op q) (entries_of e k) (map call_op (filter (\<lambda>c. call_key c = k) b))"
    by (simp add: entries_of_def sh shard_entries_appends)
qed

lemma slice_ok_mono: "slice_ok mx es \<Longrightarrow> mx \<le> mx' \<Longrightarrow> slice_ok mx' es"
  by (force simp: slice_ok_def)

lemma slice_ok_snoc:
  "slice_ok mx es \<Longrightarrow> mx \<le> q \<Longrightarrow> meSeq en = q \<Longrightarrow> (meDeleted en \<longrightarrow> meValue en = []) \<Longrightarrow> slice_ok q (es @ [en])"
  by (force simp: slice_ok_def seq_sorted_def sorted_append)

lemma entry_op_shape:
  obtains en where "entry_op q es (call_op c) = es @ [en]" "meSeq en = q" "meDeleted en \<longrightarrow> meValue en = []"
    "meDeleted en \<longleftrightarrow> (\<exists>k. c = BDelete k)"
  by (cases c) (auto simp: entry_op_def Let_def intro: that)

lemma entry_ops_shape:
  "\<exists>new. foldl (entry_op q) es (map call_op cs) = es @ new
     \<and> (\<forall>en \<in> set new. meSeq en = q \<and> (meDeleted en \<longrightarrow> meValue en = []))"
proof (induction cs arbitrary: es)
  case (Cons c cs)
  obtain en where en: "entry_op q es (call_op c) = es @ [en]" "meSeq en = q" "meDeleted en \<longrightarrow> meValue en = []"
    by (rule entry_op_shape)
  from Cons.IH [of "es @ [en]"] obtain new where
    "foldl (entry_op q) (es @ [en]) (map call_op cs) = es @ en # new"
    "\<forall>en \<in> set new. meSeq en = q \<and> (meDeleted en \<longrightarrow> meValue en = [])" by auto
  with en show ?case by (intro exI [of _ "en # new"]) simp
qed simp

lemma slice_ok_extend:
  assumes "slice_ok mx es" "mx \<le> q" "\<forall>en \<in> set new. meSeq en = q \<and> (meDeleted en \<longrightarrow> meValue en = [])"
  shows "slice_ok q (es @ new)"
  using assms(3)
proof (induction new rule: rev_induct)
  case Nil
  then show ?case using slice_ok_mono [OF assms(1,2)] by simp
next
  case (snoc en new)
  have "slice_ok q (es @ new)" using snoc.prems by (intro snoc.IH) simp
  moreover have "meSeq en = q" "meDeleted en \<longrightarrow> meValue en = []" using snoc.prems by simp_all
  ultimately have "slice_ok q ((es @ new) @ [en])" using slice_ok_snoc by blast
  then show ?case by simp
qed

lemma shard_ok_append:
  assumes "shard_ok mx i s" "mx \<le> q" "shardFor (call_key c) = i"
  shows "shard_ok q i (mvcc_append q s (call_op c))"
proof -
  obtain en where en: "entry_op q (shard_entries s (call_key c)) (call_op c) = shard_entries s (call_key c) @ [en]"
    "meSeq en = q" "meDeleted en \<longrightarrow> meValue en = []"
    by (rule entry_op_shape)
  have "slice_ok q (shard_entries s (call_key c) @ [en])"
    using slice_ok_snoc [OF shard_entries_ok [OF assms(1)] assms(2)] en by blast
  moreover have "\<forall>(k, es) \<in> set s. shardFor k = i \<and> slice_ok q es"
    using assms(1,2) by (auto simp: shard_ok_def intro: slice_ok_mono)
  ultimately show ?thesis
    using assms(1,3) en(1) update_mem(3)
    by (fastforce simp: shard_ok_def mvcc_append_def distinct_update)
qed

lemma shard_ok_appends:
  "shard_ok mx i s \<Longrightarrow> mx \<le> q \<Longrightarrow> \<forall>c \<in> set cs. shardFor (call_key c) = i \<Longrightarrow>
   shard_ok q i (foldl (mvcc_append q) s (map call_op cs))"
proof (induction cs arbitrary: mx s)
  case Nil
  then show ?case by (auto simp: shard_ok_def intro: slice_ok_mono)
next
  case (Cons c cs)
  from Cons.IH [OF shard_ok_append [OF Cons.prems(1,2)]] Cons.prems(3) show ?case by simp
qed

primrec is_merge :: "batch_call \<Rightarrow> bool" where
  "is_merge (BSet k v) = False" | "is_merge (BDelete k) = False" | "is_merge (BMerge k d) = True"

primrec is_delete :: "batch_call \<Rightarrow> bool" where
  "is_delete (BSet k v) = False" | "is_delete (BDelete k) = True" | "is_delete (BMerge k d) = False"

text \<open>
  A merge adds to the newest version that is not a tombstone. That is the current value unless the
  newest version is a tombstone, so the supported batches merge no key that is deleted before.
\<close>

definition merge_safe :: "mvccEntry list \<Rightarrow> batch_call list \<Rightarrow> bool" where
  "merge_safe es cs \<longleftrightarrow>
     (\<exists>c \<in> set cs. is_merge c) \<longrightarrow> (\<forall>c \<in> set cs. \<not> is_delete c) \<and> (es = [] \<or> \<not> meDeleted (last es))"

definition mvcc_admissible :: "MVCCEngine \<Rightarrow> batch \<Rightarrow> bool" where
  "mvcc_admissible e b \<longleftrightarrow> unat (seqCounter e) + length b < 2 ^ 64
     \<and> (\<forall>k. merge_safe (entries_of e k) (filter (\<lambda>c. call_key c = k) b))"

lemma getCurrentValue_Nil: "getCurrentValue [] = []"
  by (simp add: getCurrentValue_def)

lemma getCurrentValue_last: "es \<noteq> [] \<Longrightarrow> \<not> meDeleted (last es) \<Longrightarrow> getCurrentValue es = meValue (last es)"
  by (cases es rule: rev_cases) (simp_all add: getCurrentValue_def)

lemma entry_value_op:
  assumes "is_merge c \<longrightarrow> es = [] \<or> \<not> meDeleted (last es)"
  shows "entry_value (entry_op q es (call_op c)) = call_effect (entry_value es) c"
  using assms
  by (cases c; cases "es = []")
    (auto simp: entry_op_def entry_value_def Let_def mergeInt64_def getCurrentValue_last getCurrentValue_Nil)

lemma entry_values:
  "merge_safe es cs \<Longrightarrow>
   entry_value (foldl (entry_op q) es (map call_op cs)) = foldl call_effect (entry_value es) cs"
proof (induction cs arbitrary: es)
  case (Cons c cs)
  obtain en where en: "entry_op q es (call_op c) = es @ [en]" "meDeleted en \<longleftrightarrow> (\<exists>k. c = BDelete k)"
    by (rule entry_op_shape)
  have "merge_safe (es @ [en]) cs"
    using Cons.prems en(2) by (cases c) (auto simp: merge_safe_def)
  moreover have "is_merge c \<longrightarrow> es = [] \<or> \<not> meDeleted (last es)"
    using Cons.prems by (auto simp: merge_safe_def)
  ultimately show ?case
    using Cons.IH [of "es @ [en]"] entry_value_op [of c es q] en(1) by simp
qed simp

lemma versions_upto_extend:
  assumes "\<forall>en \<in> set new. meSeq en = q" "s < q"
  shows "versions_upto s (es @ new) = versions_upto s es"
proof -
  have "takeWhile (\<lambda>en. meSeq en \<le> s) new = []" using assms by (cases new) auto
  then show ?thesis by (cases "\<forall>x\<in>set es. meSeq x \<le> s") (auto simp: versions_upto_def takeWhile_append takeWhile_eq_all_conv [THEN iffD2])
qed

text \<open>The invariant and the isolation of snapshots only need the sequence counter not to wrap.\<close>

lemma mvcc_commit_seq:
  assumes inv: "mvcc_invar e" and ne: "b \<noteq> []" and room: "unat (seqCounter e) + length b < 2 ^ 64"
    and run: "mvcc_ApplyBatch e b sync = (r, e')" and q: "q = seqCounter e + word_of_nat (length b)"
  shows "lastCommitted e < q" "lastCommitted e' = q" "mvcc_invar e'"
proof -
  note A = mvcc_ApplyBatch_entries [OF inv ne run q]
  have "unat q = unat (seqCounter e) + length b"
    using room by (simp add: q unat_word_ariths unat_of_nat)
  then have "seqCounter e < q" using ne by (simp add: word_less_nat_alt)
  then show lt: "lastCommitted e < q" using inv by (auto simp: mvcc_invar_def intro: order_le_less_trans)
  then show lc: "lastCommitted e' = q" using A(3) by (metis leD)
  have "shard_ok q i (mvShards e' ! i)" if "i < numShards" for i
    unfolding A(5) [OF that]
    using inv that lt
    by (intro shard_ok_appends [of "lastCommitted e"]) (auto simp: mvcc_invar_def calls_for_def)
  then show "mvcc_invar e'" using A(1,2) lc by (simp add: mvcc_invar_def)
qed

lemma mvcc_commit_isolated:
  assumes inv: "mvcc_invar e" and room: "unat (seqCounter e) + length b < 2 ^ 64"
    and run: "mvcc_ApplyBatch e b sync = (r, e')" and live: "mvcc_live e s"
  shows "mvcc_live e' s" "mvcc_view e' s = mvcc_view e s"
proof -
  have "mvcc_live e' s \<and> mvcc_view e' s = mvcc_view e s"
  proof (cases "b = []")
    case True
    then show ?thesis using run live by (simp add: mvcc_ApplyBatch_def)
  next
    case False
    define q where "q = seqCounter e + word_of_nat (length b)"
    note A = mvcc_ApplyBatch_entries [OF inv False run q_def]
      and lc = mvcc_commit_seq [OF inv False room run q_def]
    have "mvcc_view e' s k = mvcc_view e s k" for k
    proof -
      obtain new where "entries_of e' k = entries_of e k @ new" "\<forall>en \<in> set new. meSeq en = q"
        using entry_ops_shape [of q "entries_of e k" "filter (\<lambda>c. call_key c = k) b"] A(6) [of k] by auto
      moreover have "s < q" using live lc(1) by (simp add: mvcc_live_def)
      ultimately show ?thesis by (metis versions_upto_extend mvcc_view_def)
    qed
    then show ?thesis
      using lc live by (auto simp: mvcc_live_def fun_eq_iff intro: order_trans less_imp_le)
  qed
  then show "mvcc_live e' s" "mvcc_view e' s = mvcc_view e s" by simp_all
qed

lemma mvcc_commit:
  assumes inv: "mvcc_invar e" and adm: "mvcc_admissible e b" and run: "mvcc_ApplyBatch e b sync = (r, e')"
  shows "mvcc_invar e'" "mvcc_contents e' = kv_apply (mvcc_contents e) b"
proof -
  have "mvcc_invar e' \<and> mvcc_contents e' = kv_apply (mvcc_contents e) b"
  proof (cases "b = []")
    case True
    then show ?thesis using run inv by (simp add: mvcc_ApplyBatch_def)
  next
    case False
    note A = mvcc_ApplyBatch_entries [OF inv False run refl]
    have "mvcc_contents e' k = kv_apply (mvcc_contents e) b k" for k
      using adm entry_values [of "entries_of e k" "filter (\<lambda>c. call_key c = k) b"]
      by (simp add: mvcc_contents_def A(6) kv_apply_key mvcc_admissible_def)
    with mvcc_commit_seq(3) [OF inv False _ run refl] adm show ?thesis
      by (auto simp: mvcc_admissible_def)
  qed
  then show "mvcc_invar e'" "mvcc_contents e' = kv_apply (mvcc_contents e) b" by blast+
qed

subsection \<open>Scans\<close>

lemma mvcc_pair_eq:
  assumes "seq_sorted es"
  shows "mvcc_pair start stop s (k, es) =
    (if in_range start stop k \<and> \<not> isReserved k then map_option (Pair k) (entry_value (versions_upto s es)) else None)"
proof -
  have "int (length (versions_upto s es)) - 1 \<ge> 0 \<longleftrightarrow> versions_upto s es \<noteq> []"
    by (cases "versions_upto s es") auto
  then show ?thesis
    using found_entry [of s es]
    by (auto simp: mvcc_pair_def in_range_def findVersionLinear_eq [OF assms] entry_value_def Let_def)
qed

lemma map_filter_set: "set (List.map_filter f xs) = {y. \<exists>x \<in> set xs. f x = Some y}"
  by (force simp: List.map_filter_def)

lemma map_filter_keys:
  assumes "distinct (map fst s)" "\<And>k es p. (k, es) \<in> set s \<Longrightarrow> f (k, es) = Some p \<Longrightarrow> fst p = k"
  shows "distinct (map fst (List.map_filter f s))"
  using assms
proof (induction s)
  case (Cons kes s)
  obtain k es where kes: "kes = (k, es)" by (cases kes)
  have IH: "distinct (map fst (List.map_filter f s))" using Cons by auto
  show ?case
  proof (cases "f kes")
    case None
    with IH show ?thesis by (simp add: map_filter_simps)
  next
    case (Some p)
    then have "fst p = k" using Cons.prems(2) [of k es p] kes by simp
    moreover have "k \<notin> fst ` set (List.map_filter f s)"
    proof
      assume "k \<in> fst ` set (List.map_filter f s)"
      then obtain k' es' p' where "(k', es') \<in> set s" "f (k', es') = Some p'" "fst p' = k"
        by (auto simp: map_filter_set)
      then have "k \<in> fst ` set s" using Cons.prems(2) [of k' es' p'] by force
      then show False using Cons.prems(1) kes by simp
    qed
    ultimately show ?thesis using IH Some by (simp add: map_filter_simps)
  qed
qed (simp add: map_filter_simps)

lemma mvcc_scan:
  assumes inv: "mvcc_invar e"
  shows "it_pos (mvcc_newIterator e start stop s) = -1"
    "lists_kv (it_pairs (mvcc_newIterator e start stop s))
       (restrict_kv (mvcc_view e s) (\<lambda>k. in_range start stop k \<and> \<not> isReserved k))"
proof -
  let ?f = "mvcc_pair start stop s" and ?P = "\<lambda>k. in_range start stop k \<and> \<not> isReserved k"
  have len: "length (mvShards e) = numShards" using inv by (simp add: mvcc_invar_def)
  show "it_pos (mvcc_newIterator e start stop s) = -1"
    by (simp add: mvcc_newIterator_def new_iter_def)
  have "lists_kv (sort_key fst (concat (map (\<lambda>sh. List.map_filter ?f sh) (mvShards e)))) (restrict_kv (mvcc_view e s) ?P)"
  proof (rule lists_kv_buckets)
    show "length (map (\<lambda>sh. List.map_filter ?f sh) (mvShards e)) = numShards" using len by simp
    fix i assume i: "i < numShards"
    let ?s = "mvShards e ! i"
    have ok: "shard_ok (lastCommitted e) i ?s" using inv i by (simp add: mvcc_invar_def)
    have pair: "?f (k, es) = (if ?P k then map_option (Pair k) (entry_value (versions_upto s es)) else None)"
      if "(k, es) \<in> set ?s" for k es
      using ok that by (intro mvcc_pair_eq) (auto simp: shard_ok_def slice_ok_def)
    have "distinct (map fst ?s)" using ok by (simp add: shard_ok_def)
    then have "distinct (map fst (List.map_filter ?f ?s))"
      by (rule map_filter_keys) (auto simp: pair split: if_splits)
    then show "distinct (map fst (map (\<lambda>sh. List.map_filter ?f sh) (mvShards e) ! i))" using i len by simp
    fix k v
    have "(k, v) \<in> set (List.map_filter ?f ?s) \<longleftrightarrow> (\<exists>es. (k, es) \<in> set ?s \<and> ?P k \<and> entry_value (versions_upto s es) = Some v)"
      by (auto simp: map_filter_set pair split: if_splits) (metis pair option.simps(9))+
    also have "\<dots> \<longleftrightarrow> shardFor k = i \<and> restrict_kv (mvcc_view e s) ?P k = Some v"
      using ok by (auto simp: restrict_kv_def mvcc_view_def entries_of_def shard_entries_def shard_ok_def
          entry_value_def [of "[]"] split: option.splits if_splits dest: map_of_SomeD)
    finally show "(k, v) \<in> set (map (\<lambda>sh. List.map_filter ?f sh) (mvShards e) ! i) \<longleftrightarrow>
        shardFor k = i \<and> restrict_kv (mvcc_view e s) ?P k = Some v" using i len by simp
  qed
  then show "lists_kv (it_pairs (mvcc_newIterator e start stop s)) (restrict_kv (mvcc_view e s) ?P)"
    by (simp add: mvcc_newIterator_def new_iter_def)
qed

subsection \<open>The storage contract\<close>

lemma mvcc_no_error: "mvcc_ApplyBatch e b sync = (r, e') \<Longrightarrow> r = None"
  by (auto simp: mvcc_ApplyBatch_def Let_def split: if_splits prod.splits)

lemma mvcc_view_committed:
  assumes "mvcc_invar e"
  shows "mvcc_view e (lastCommitted e) = mvcc_contents e"
  using versions_upto_all [OF entries_ok [OF assms] order_refl]
  by (simp add: mvcc_view_def mvcc_contents_def)

lemma mvcc_GetSnapshot_eqs:
  assumes "mvcc_GetSnapshot e = (s, e')"
  shows "s = lastCommitted e" "mvShards e' = mvShards e" "lastCommitted e' = lastCommitted e"
    "seqCounter e' = seqCounter e"
  using assms by (auto simp: mvcc_GetSnapshot_def Let_def)

lemma mvcc_same_shards:
  assumes "mvShards e' = mvShards e" "lastCommitted e' = lastCommitted e" "seqCounter e' = seqCounter e"
  shows "mvcc_invar e' = mvcc_invar e" "mvcc_contents e' = mvcc_contents e" "mvcc_view e' = mvcc_view e"
    "mvcc_live e' = mvcc_live e"
  using assms by (auto simp: mvcc_invar_def mvcc_contents_def mvcc_view_def mvcc_live_def entries_of_def fun_eq_iff)

interpretation mvcc: storage_engine mvcc_engine mvcc_invar mvcc_contents mvcc_live mvcc_view mvcc_admissible "\<lambda>_. True"
proof (unfold_locales, goal_cases)
  case (1 e k)
  then show ?case by (simp add: mvcc_engine_def mvcc_Get_contents)
next
  case (2 e s e')
  note G = mvcc_GetSnapshot_eqs [of e s e']
  from 2 have run: "mvcc_GetSnapshot e = (s, e')" by (simp add: mvcc_engine_def)
  with 2(1) mvcc_same_shards [OF G(2-4)] G show ?case
    by (simp add: mvcc_view_committed) (simp add: mvcc_live_def)
next
  case (3 e s e' s')
  then have "mvcc_GetSnapshot e = (s, e')" by (simp add: mvcc_engine_def)
  from mvcc_same_shards [OF mvcc_GetSnapshot_eqs(2-4) [OF this]] 3 show ?case by simp
next
  case (4 e b sync e')
  then show ?case by (auto simp: mvcc_engine_def intro: mvcc_commit)
next
  case (5 e b sync e' s)
  then show ?case
    using mvcc_commit_isolated [of e b sync None e' s] by (simp add: mvcc_engine_def mvcc_admissible_def)
next
  case (6 e b sync err e')
  then show ?case using mvcc_no_error [of e b sync] by (auto simp: mvcc_engine_def)
next
  case (7 e r e')
  then show ?case by (simp add: mvcc_engine_def)
next
  case (8 e s k)
  then show ?case by (simp add: mvcc_engine_def mvcc_snap_Get_view)
next
  case (9 e s k)
  then show ?case by (simp add: mvcc_engine_def mvcc_snap_GetVersion_view)
next
  case (10 e s start stop)
  then show ?case by (simp add: mvcc_engine_def mvcc_scan)
qed simp

subsection \<open>Compaction\<close>

definition safe_seq :: "MVCCEngine \<Rightarrow> uint64" where
  "safe_seq e = (if snapshotCount e > 0 then oldestSnapshot e else 0)"

lemma compact_key_None: "compact_key t es = None \<Longrightarrow> entry_value es = None"
  by (auto simp: compact_key_def entry_value_def Let_def split: if_splits)

lemma compact_key_Some:
  assumes "compact_key t es = Some es'"
  obtains n where "es' = drop n es" "n + 2 \<le> length es \<or> n = 0"
    "0 < t \<Longrightarrow> n \<le> length (takeWhile (\<lambda>en. meSeq en < t) es)"
proof (cases "length es \<le> 2")
  case True
  then show ?thesis using assms that [of 0] by (auto simp: compact_key_def split: if_splits)
next
  case False
  define m where "m = length (takeWhile (\<lambda>en. meSeq en < t) es)"
  have "es' = drop (if 0 < t then if length es - m < 2 then length es - 2 else m else length es - 2) es"
    using assms False by (auto simp: compact_key_def m_def Let_def split: if_splits)
  then show ?thesis by (rule that) (use False in \<open>auto simp: m_def split: if_splits\<close>)
qed

lemma slice_ok_drop: "slice_ok mx es \<Longrightarrow> slice_ok mx (drop n es)"
  by (auto simp: slice_ok_def seq_sorted_def simp flip: drop_map dest: in_set_dropD intro: sorted_wrt_drop)

lemma entry_value_drop: "n < length es \<Longrightarrow> entry_value (drop n es) = entry_value es"
  by (auto simp: entry_value_def)

lemma entry_value_compact: "compact_key t es = Some es' \<Longrightarrow> entry_value es' = entry_value es"
  by (erule compact_key_Some) (auto simp: entry_value_drop)

lemma compact_shard_entries:
  assumes "distinct (map fst s)"
  shows "map_of (compact_shard t s) k = Option.bind (map_of s k) (compact_key t)"
  using assms
proof (induction s)
  case (Cons kes s)
  obtain k' es where kes: "kes = (k', es)" by (cases kes)
  have "map_of s k' = None" using Cons.prems by (simp add: kes map_of_eq_None_iff)
  with Cons show ?case
    by (cases "compact_key t es") (auto simp: compact_shard_def kes map_filter_simps)
qed (simp add: compact_shard_def map_filter_simps)

lemma compact_shard_ok: "shard_ok mx i s \<Longrightarrow> shard_ok mx i (compact_shard t s)"
proof -
  assume ok: "shard_ok mx i s"
  have "distinct (map fst (compact_shard t s))"
    unfolding compact_shard_def using ok by (intro map_filter_keys) (auto simp: shard_ok_def)
  moreover have "shardFor k = i \<and> slice_ok mx es'" if "(k, es') \<in> set (compact_shard t s)" for k es'
  proof -
    from that obtain es where es: "(k, es) \<in> set s" "compact_key t es = Some es'"
      by (auto simp: compact_shard_def map_filter_set)
    then obtain n where "es' = drop n es" by (auto elim: compact_key_Some)
    with es ok show ?thesis by (auto simp: shard_ok_def intro: slice_ok_drop)
  qed
  ultimately show ?thesis by (auto simp: shard_ok_def)
qed

lemma Compact_entries:
  assumes "mvcc_invar e" "Compact e = (n, e')"
  shows "entries_of e' k = (case compact_key (safe_seq e) (entries_of e k) of None \<Rightarrow> [] | Some es \<Rightarrow> es)"
    "lastCommitted e' = lastCommitted e" "seqCounter e' = seqCounter e" "mvcc_invar e'"
proof -
  have e': "e' = e\<lparr>mvShards := map (compact_shard (safe_seq e)) (mvShards e)\<rparr>"
    using assms(2) by (simp add: Compact_def safe_seq_def Let_def)
  have "distinct (map fst (mvShards e ! shardFor k))"
    using assms(1) by (simp add: mvcc_invar_def shard_ok_def)
  from compact_shard_entries [OF this] show
    "entries_of e' k = (case compact_key (safe_seq e) (entries_of e k) of None \<Rightarrow> [] | Some es \<Rightarrow> es)"
    using assms(1)
    by (cases "map_of (mvShards e ! shardFor k) k")
      (simp_all add: e' entries_of_def shard_entries_def mvcc_invar_def compact_key_def [of _ "[]"])
  show "lastCommitted e' = lastCommitted e" "seqCounter e' = seqCounter e" "mvcc_invar e'"
    using assms(1) by (simp_all add: e' mvcc_invar_def compact_shard_ok)
qed

lemma Compact_contents:
  assumes "mvcc_invar e" "Compact e = (n, e')"
  shows "mvcc_contents e' = mvcc_contents e"
proof
  fix k
  show "mvcc_contents e' k = mvcc_contents e k"
    using compact_key_None entry_value_compact
    by (auto simp: mvcc_contents_def Compact_entries(1) [OF assms] entry_value_def [of "[]"] split: option.splits)
qed

text \<open>A slice keeps its newest version below a bound when one of them lies above the safe sequence.\<close>

lemma versions_upto_compact:
  assumes srt: "seq_sorted es" and c: "compact_key t es = Some es'" and t: "0 < t"
    and en: "en \<in> set es" "t \<le> meSeq en" "meSeq en \<le> s"
  shows "entry_value (versions_upto s es') = entry_value (versions_upto s es)"
proof -
  obtain n where n: "es' = drop n es" "n \<le> length (takeWhile (\<lambda>en. meSeq en < t) es)"
    using compact_key_Some [OF c] t by metis
  obtain i where i: "i < length es" "es ! i = en" using en(1) by (metis in_set_conv_nth)
  have "length (takeWhile (\<lambda>en. meSeq en < t) es) \<le> i"
    using i en(2) by (metis leD leI nth_mem set_takeWhileD takeWhile_nth)
  moreover have "i < length (versions_upto s es)" using versions_upto_nth [OF srt i(1)] i(2) en(3) by simp
  ultimately have "n < length (versions_upto s es)" using n(2) by simp
  moreover have "versions_upto s (drop n es) = drop n (versions_upto s es)"
  proof -
    have "n \<le> length (versions_upto s es)" using calculation by simp
    then have "\<forall>x \<in> set (take n es). meSeq x \<le> s"
      unfolding versions_upto_def by (metis set_take_subset_set_take set_takeWhileD subsetD takeWhile_eq_take)
    then have "takeWhile (\<lambda>en. meSeq en \<le> s) es = take n es @ takeWhile (\<lambda>en. meSeq en \<le> s) (drop n es)"
      using takeWhile_append2 [of "take n es" "\<lambda>en. meSeq en \<le> s" "drop n es"] by simp
    moreover have "n \<le> length es" using calculation length_versions_upto [of s es] \<open>n \<le> length (versions_upto s es)\<close> by simp
    ultimately show ?thesis by (simp add: versions_upto_def)
  qed
  ultimately show ?thesis using n(1) by (simp add: entry_value_drop)
qed

end
