(* ===== verification/MVCC_Claims.thy ===== *)
theory MVCC_Claims
  imports MVCC_Props
begin

text \<open>
  The properties of the multi-version engine: correctness of its version search, the invariant over all
  reachable states, snapshot isolation over any sequence of operations, what compaction preserves, and
  concrete runs in which the engine departs from its documentation.
\<close>

subsection \<open>Runs of the engine\<close>

text \<open>
  One operation of a client: \<open>ApplyBatch\<close> while the sequence counter does not wrap,
  \<open>GetSnapshot\<close> and a snapshot's \<open>Close\<close>.
\<close>

inductive mvcc_step :: "MVCCEngine \<Rightarrow> MVCCEngine \<Rightarrow> bool" where
  commit: "unat (seqCounter e) + length b < 2 ^ 64 \<Longrightarrow> mvcc_ApplyBatch e b sync = (r, e') \<Longrightarrow> mvcc_step e e'"
| snap: "mvcc_GetSnapshot e = (s, e') \<Longrightarrow> mvcc_step e e'"
| close: "mvcc_step e (mvcc_Close e s)"

text \<open>The states the engine reaches when the background compaction runs between operations.\<close>

inductive mvcc_reach :: "MVCCEngine \<Rightarrow> bool" where
  init: "mvcc_reach NewMVCC"
| oper: "mvcc_reach e \<Longrightarrow> mvcc_step e e' \<Longrightarrow> mvcc_reach e'"
| compact: "mvcc_reach e \<Longrightarrow> Compact e = (n, e') \<Longrightarrow> mvcc_reach e'"

lemma mvcc_New_invar: "mvcc_invar NewMVCC"
  by (simp add: mvcc_invar_def NewMVCC_def shard_ok_def)

lemma mvcc_step_run: "unat (seqCounter e) + length b < 2 ^ 64 \<Longrightarrow> mvcc_step e (snd (mvcc_ApplyBatch e b sync))"
  by (rule mvcc_step.commit [of _ b sync "fst (mvcc_ApplyBatch e b sync)"]) simp_all

lemma mvcc_step_keeps:
  assumes "mvcc_step e e'" "mvcc_invar e"
  shows "mvcc_invar e'" "mvcc_live e s \<Longrightarrow> mvcc_live e' s \<and> mvcc_view e' s = mvcc_view e s"
proof -
  from assms have "mvcc_invar e' \<and> (mvcc_live e s \<longrightarrow> mvcc_live e' s \<and> mvcc_view e' s = mvcc_view e s)"
  proof cases
    case (commit b sync r)
    then show ?thesis
      using assms(2) mvcc_commit_isolated [OF assms(2) commit] mvcc_commit_seq(3) [OF assms(2) _ commit refl]
      by (cases "b = []") (auto simp: mvcc_ApplyBatch_def)
  next
    case (snap s')
    show ?thesis using assms(2) mvcc_same_shards [OF mvcc_GetSnapshot_eqs(2-4) [OF snap]] by simp
  next
    case (close s')
    show ?thesis using assms(2) mvcc_same_shards [of e' e] by (simp add: close mvcc_Close_def)
  qed
  then show "mvcc_invar e'" "mvcc_live e s \<Longrightarrow> mvcc_live e' s \<and> mvcc_view e' s = mvcc_view e s" by simp_all
qed

lemma mvcc_steps_keep:
  assumes "mvcc_step\<^sup>*\<^sup>* e e'" "mvcc_invar e" "mvcc_live e s"
  shows "mvcc_invar e' \<and> mvcc_live e' s \<and> mvcc_view e' s = mvcc_view e s"
  using assms(1)
proof induction
  case base
  then show ?case using assms by simp
next
  case (step e1 e2)
  then show ?case using mvcc_step_keeps [of e1 e2] by metis
qed

lemma mvcc_version_scan_empty:
  assumes "mvcc_invar e"
  shows "it_pairs (mvcc_RawIter e rawIterStart rawIterEnd) = []"
proof -
  have "isReserved k" if "in_range rawIterStart rawIterEnd k" for k
    using that in_scan_range by auto
  then have "restrict_kv (mvcc_view e (seqCounter e))
      (\<lambda>k. in_range rawIterStart rawIterEnd k \<and> \<not> isReserved k) = Map.empty"
    by (auto simp: restrict_kv_def fun_eq_iff)
  with mvcc_scan(2) [OF assms, of rawIterStart rawIterEnd "seqCounter e"] show ?thesis
    by (simp add: lists_kv_def mvcc_RawIter_def)
qed

subsection \<open>Properties\<close>

text \<open>
  C33. The binary search of \<open>findVersion\<close> ends on every slice and, on a slice in commit order,
  returns what the linear reference \<open>findVersionLinear\<close> returns: the index of the last version whose
  sequence is at most the target, and -1 when there is none.
\<close>

theorem findVersion_linear:
  assumes "seq_sorted es"
  shows "findVersion es t = findVersionLinear es t
    \<and> -1 \<le> findVersion es t \<and> findVersion es t < int (length es)
    \<and> (\<forall>i < length es. meSeq (es ! i) \<le> t \<longleftrightarrow> int i \<le> findVersion es t)"
proof -
  have "meSeq (es ! i) \<le> t \<longleftrightarrow> int i \<le> findVersion es t" if "i < length es" for i
    using versions_upto_nth [OF assms that, of t] by (simp add: findVersion_eq [OF assms])
  then show ?thesis
    using length_versions_upto [of t es] by (simp add: findVersion_eq [OF assms] findVersionLinear_eq [OF assms])
qed

definition slice3 :: "mvccEntry list" where
  "slice3 = [\<lparr>meSeq = 1, meValue = [1], meDeleted = False\<rparr>, \<lparr>meSeq = 4, meValue = [], meDeleted = True\<rparr>,
     \<lparr>meSeq = 7, meValue = [2], meDeleted = False\<rparr>]"

theorem findVersion_linear_witness:
  "findVersion slice3 6 = findVersionLinear slice3 6 \<and> findVersionLinear slice3 6 = 1"
proof -
  have s: "seq_sorted slice3" by (simp add: seq_sorted_def slice3_def)
  have l: "findVersionLinear slice3 6 = 1" by code_simp
  from findVersion_linear [OF s, of 6] l show ?thesis by simp
qed




text \<open>A store with one key, a snapshot of it, and an overwrite after the snapshot.\<close>

definition mv1 :: MVCCEngine where
  "mv1 = snd (mvcc_ApplyBatch NewMVCC [BSet [1] [7]] False)"

lemma mv1_invar: "mvcc_invar mv1"
  unfolding mv1_def by (rule mvcc_step_keeps(1) [OF mvcc_step_run mvcc_New_invar]) (simp add: NewMVCC_def)

lemma mv1_seq: "seqCounter mv1 = 1"
  by code_simp


text \<open>
  C35. Compaction keeps the invariant and the current value of every key. A snapshot loses nothing of a
  key that has a version between the oldest snapshot and its own sequence, while a snapshot is
  open and the oldest tracked sequence is not 0.
\<close>

theorem Compact_preserves:
  assumes "mvcc_invar e" "Compact e = (n, e')"
  shows "mvcc_invar e' \<and> mvcc_Get e' k = mvcc_Get e k
    \<and> (snapshotCount e > 0 \<and> oldestSnapshot e > 0
        \<and> (\<exists>en \<in> set (entries_of e k). oldestSnapshot e \<le> meSeq en \<and> meSeq en \<le> s)
       \<longrightarrow> mvcc_snap_Get e' s k = mvcc_snap_Get e s k)"
proof -
  note C = Compact_entries [OF assms]
  have "mvcc_view e' s k = mvcc_view e s k"
    if c: "snapshotCount e > 0" "oldestSnapshot e > 0"
      and en: "en \<in> set (entries_of e k)" "oldestSnapshot e \<le> meSeq en" "meSeq en \<le> s" for en
  proof -
    have t: "safe_seq e = oldestSnapshot e" using c by (simp add: safe_seq_def)
    have "seq_sorted (entries_of e k)" using entries_ok [OF assms(1)] by (simp add: slice_ok_def)
    moreover have "compact_key (oldestSnapshot e) (entries_of e k) = Some (entries_of e' k)"
      using c by (auto simp: C(1) t compact_key_def Let_def)
    ultimately show ?thesis
      using versions_upto_compact [OF _ _ c(2) en] by (simp add: mvcc_view_def)
  qed
  then have "snapshotCount e > 0 \<and> oldestSnapshot e > 0
      \<and> (\<exists>en \<in> set (entries_of e k). oldestSnapshot e \<le> meSeq en \<and> meSeq en \<le> s)
      \<longrightarrow> mvcc_view e' s k = mvcc_view e s k" by blast
  then show ?thesis
    using C(4) Compact_contents [OF assms]
    by (auto simp: mvcc_Get_contents mvcc_snap_Get_view assms(1))
qed

definition mv4 :: MVCCEngine where
  "mv4 = snd (mvcc_ApplyBatch (snd (mvcc_GetSnapshot mv1)) [BSet [1] [8], BSet [1] [9], BDelete [1]] False)"

lemma mv4_invar: "mvcc_invar mv4"
proof -
  have s: "mvcc_GetSnapshot mv1 = (1, snd (mvcc_GetSnapshot mv1))" by code_simp
  have "mvcc_invar (snd (mvcc_GetSnapshot mv1))" using mvcc_step_keeps(1) [OF mvcc_step.snap [OF s] mv1_invar] .
  then show ?thesis unfolding mv4_def
    by (rule mvcc_step_keeps(1) [OF mvcc_step_run, rotated]) (simp add: mvcc_GetSnapshot_eqs(4) [OF s] mv1_seq)
qed

theorem Compact_preserves_witness:
  "mvcc_Get (snd (Compact mv4)) [1] = Inl ErrKeyNotFound \<and> mvcc_snap_Get (snd (Compact mv4)) 1 [1] = Inr [7]"
proof -
  have "Compact mv4 = (fst (Compact mv4), snd (Compact mv4))" by simp
  note C = Compact_preserves [OF mv4_invar this, of "[1]" 1]
  have "mvcc_Get mv4 [1] = Inl ErrKeyNotFound" "mvcc_snap_Get mv4 1 [1] = Inr [7]"
    "snapshotCount mv4 > 0" "oldestSnapshot mv4 > 0"
    "\<exists>en \<in> set (entries_of mv4 [1]). oldestSnapshot mv4 \<le> meSeq en \<and> meSeq en \<le> 1"
    by code_simp+
  with C show ?thesis by simp
qed

text \<open>
  The documentation says that compaction never removes a version that a live snapshot might still
  read. It does: the version a snapshot shows of a key is removed when it is older than the oldest
  snapshot and two newer versions exist. Here key 1 is written before key 2, a snapshot of both is
  taken, key 1 is overwritten twice, and after compaction the open snapshot no longer finds it.
\<close>

theorem compact_drops_live_version:
  "let e1 = snd (mvcc_ApplyBatch mv1 [BSet [2] [5]] False);
       (s, e2) = mvcc_GetSnapshot e1;
       e3 = snd (mvcc_ApplyBatch e2 [BSet [1] [8]] False);
       e4 = snd (mvcc_ApplyBatch e3 [BSet [1] [9]] False)
   in snapshotCount e4 = 1 \<and> mvcc_snap_Get e4 s [1] = Inr [7]
      \<and> mvcc_snap_Get (snd (Compact e4)) s [1] = Inl ErrKeyNotFound"
  by code_simp

text \<open>
  A merge on a deleted key adds to the value the key had before the deletion, unlike the
  other engines, which start from zero: 5 is stored, the key is deleted and 1 is merged.
\<close>

theorem merge_revives_deleted_value:
  "let b = [BSet [1] (encodeInt64 5), BDelete [1], BMerge [1] (encodeInt64 1)];
       e = snd (mvcc_ApplyBatch NewMVCC b False)
   in mvcc_Get e [1] = Inr (encodeInt64 6)
      \<and> engine_Get (snd (ApplyBatch (NewSharded alist_pkg) b False)) [1] = Inr (encodeInt64 1)"
  by code_simp

text \<open>
  A checkpoint does not restore the store: a deleted key comes back with its last value, and a
  snapshot of the reopened engine shows no key at all, because \<open>Open\<close> sets the sequence counter but
  not \<open>lastCommitted\<close>.
\<close>

theorem mvcc_checkpoint_not_restored:
  "let e = snd (mvcc_ApplyBatch mv1 [BSet [2] [5], BDelete [1]] False)
   in case mvcc_Open NewMVCC (Some (mvcc_CreateCheckpoint e)) of
        Inl err \<Rightarrow> False
      | Inr e' \<Rightarrow>
          mvcc_Get e [1] = Inl ErrKeyNotFound \<and> mvcc_Get e' [1] = Inr [7]
          \<and> mvcc_Get e' [2] = Inr [5]
          \<and> (let (s, e'') = mvcc_GetSnapshot e' in mvcc_snap_Get e'' s [2] = Inl ErrKeyNotFound)"
  by code_simp

text \<open>
  Concurrent commits break the atomic visibility the commit protocol claims: a commit that has
  reserved sequence 2 but written only the first of its shards becomes partly visible when a
  later commit publishes sequence 3, and the same snapshot changes when the write is finished.
\<close>

theorem concurrent_commit_partly_visible:
  "let (q1, e1) = reserve_seq 2 NewMVCC;
       ops = [\<lparr>bop = CHR ''s'', bkey = [1], bvalue = [7]\<rparr>, \<lparr>bop = CHR ''s'', bkey = [2], bvalue = [7]\<rparr>];
       e2 = write_shard q1 e1 (shardFor [1], [ops ! 0]);
       e3 = snd (mvcc_ApplyBatch e2 [BSet [3] [9]] False);
       (s, e4) = mvcc_GetSnapshot e3;
       e5 = publish q1 (write_shard q1 e4 (shardFor [2], [ops ! 1]))
   in mvcc_snap_Get e4 s [1] = Inr [7] \<and> mvcc_snap_Get e4 s [2] = Inl ErrKeyNotFound
      \<and> mvcc_snap_Get e5 s [2] = Inr [7]"
  by code_simp

text \<open>
  Opening a state machine on this engine rebuilds no key epoch at all, whatever is stored: the
  engine's \<open>RawIter\<close> leaves out the reserved keys, contrary to the interface, so the scan for
  version records is empty.
\<close>

theorem mvcc_reopen_forgets_epochs:
  assumes "mvcc_invar (engine f)"
  shows "fsm_open mvcc_engine f =
    Inr (seqCounter (engine f), f\<lparr>keyEpoch := Map.empty, applied := seqCounter (engine f)\<rparr>)"
  using mvcc_version_scan_empty [OF assms] fsm_open_empty [of mvcc_engine f]
  by (simp add: mvcc_engine_def mvcc_CurrentSequence_def)

definition mv_versioned :: MVCCEngine where
  "mv_versioned = snd (mvcc_ApplyBatch NewMVCC
     [BSet [1] [7], BSet (versionKey [1]) (encodeEpochRecord \<lparr>Epoch = 1, IsCredit = False\<rparr>)] False)"

lemma mv_versioned_invar: "mvcc_invar mv_versioned"
  unfolding mv_versioned_def
  by (rule mvcc_step_keeps(1) [OF mvcc_step_run mvcc_New_invar]) (simp add: NewMVCC_def)

theorem mvcc_reopen_forgets_epochs_witness:
  "fsm_open mvcc_engine (newFSM mv_versioned SyncNone False) =
    Inr (2, (newFSM mv_versioned SyncNone False)\<lparr>keyEpoch := Map.empty, applied := 2\<rparr>)
   \<and> mvcc_Get mv_versioned (versionKey [1]) \<noteq> Inl ErrKeyNotFound"
proof -
  have e: "engine (newFSM mv_versioned SyncNone False) = mv_versioned" by (simp add: newFSM_def)
  have "seqCounter mv_versioned = 2" "mvcc_Get mv_versioned (versionKey [1]) \<noteq> Inl ErrKeyNotFound"
    by code_simp+
  with mvcc_reopen_forgets_epochs [of "newFSM mv_versioned SyncNone False"] mv_versioned_invar show ?thesis by (simp add: e)
qed

end
