(* ===== verification/Sharded_Props.thy ===== *)
theory Sharded_Props
  imports Sharded Tx_Props MVCC_Claims
begin

text \<open>
  The sharded proposer: on proposals that stay within one shard it does what the direct proposer does,
  and concrete runs in which proposals that span shards, or the multi-version path, go wrong.
\<close>

subsection \<open>A shard as a direct proposer\<close>

definition shard_as_direct :: "nat \<Rightarrow> 'e shardedDirectProposer \<Rightarrow> 'e directProposer" where
  "shard_as_direct i s =
     (let sp = shShards s ! i
      in \<lparr>fsm = \<lparr>applied = spApplied sp, engine = shEngine s, keyEpoch = spEpochs sp,
            syncPolicy = shSyncPolicy s, hasWatchers = shWatched s, notified = shNotified s,
            observed = [], skipHLC = True\<rparr>,
          index = spIndex sp, closed = shClosed s, ConflictTotal = shConflicts s\<rparr>)"

lemma inline_writes_stack:
  "stack_writes idx ws ke st b = (ke', st', b') \<Longrightarrow> inline_writes idx ws ke b = (ke', b')"
  by (induction ws arbitrary: ke st b) (simp_all add: Let_def)

lemma inline_is_direct:
  assumes i: "i < length (shShards s)" and n: "length (ReadSet p) \<le> maxStackShadow"
    and run: "applyInline E None i p s = (r, s')"
  shows "ApplyOneDirect E (shard_as_direct i s) p = (r, shard_as_direct i s')"
    "length (shShards s') = length (shShards s)" "shClosed s' = shClosed s"
    "j \<noteq> i \<Longrightarrow> shShards s' ! j = shShards s ! j"
proof -
  let ?sp = "shShards s ! i" and ?d = "shard_as_direct i s"
  obtain ke st b where w: "stack_writes (spIndex ?sp + 1) (Writes p) (spEpochs ?sp) [] [] = (ke, st, b)"
    by (metis prod_cases3)
  note iw = inline_writes_stack [OF w]
  obtain err e1 where a: "eApplyBatch E (shEngine s) (b @ [applied_call (spIndex ?sp + 1)]) (shSyncPolicy s = SyncFull) = (err, e1)"
    by force
  note defs = applyInline_def Let_def inline_conflict_def batch_inline_def set_shard_def notify_sharded_def iw a
  have "length [p] \<le> maxStackShadow" by (simp add: maxStackShadow_def)
  then have 1: "ApplyOneDirect E ?d p = (r, shard_as_direct i s')"
    using run i n w a
    by (auto simp: defs ApplyOneDirect_def applyBatchDirect_def build_batch_def stack_entry_def next_entry_def
        observe_def commit_batch_def count_conflict_def set_epochs_def shard_as_direct_def notifyBatch_def
        fail_result_def result_ok_def result_conflict_def result_err_def accepted_def
        split: if_splits option.splits)
  show "ApplyOneDirect E ?d p = (r, shard_as_direct i s')" by (rule 1)
  show "length (shShards s') = length (shShards s)" "shClosed s' = shClosed s"
    "j \<noteq> i \<Longrightarrow> shShards s' ! j = shShards s ! j"
    using run n by (auto simp: defs split: if_splits option.splits)
qed

subsection \<open>Runs\<close>

text \<open>A sequence of proposals with the results reported, on the sharded and on the direct proposer.\<close>

primrec sharded_run ::
  "('e, 's) StorageEngine \<Rightarrow> 'e shard_direct option \<Rightarrow> Proposal list \<Rightarrow> 'e shardedDirectProposer \<Rightarrow>
     (propose_error + ApplyResult) list \<times> 'e shardedDirectProposer" where
  "sharded_run E mv [] s = ([], s)"
| "sharded_run E mv (p # ps) s =
     (let (r, s1) = sharded_ProposeDirect E mv p s; (rs, s2) = sharded_run E mv ps s1 in (r # rs, s2))"

primrec direct_run ::
  "('e, 's) StorageEngine \<Rightarrow> Proposal list \<Rightarrow> 'e directProposer \<Rightarrow> ApplyResult list \<times> 'e directProposer" where
  "direct_run E [] d = ([], d)"
| "direct_run E (p # ps) d = (let (r, d1) = ApplyOneDirect E d p; (rs, d2) = direct_run E ps d1 in (r # rs, d2))"

definition in_shard :: "nat \<Rightarrow> Proposal \<Rightarrow> bool" where
  "in_shard i p \<longleftrightarrow> route p = i \<and> length (ReadSet p) \<le> maxStackShadow"

lemma sharded_run_direct:
  assumes "i < length (shShards s)" "\<not> shClosed s" "list_all (in_shard i) ps" "sharded_run E None ps s = (rs, s')"
  shows "\<exists>rs'. rs = map Inr rs' \<and> direct_run E ps (shard_as_direct i s) = (rs', shard_as_direct i s')"
  using assms
proof (induction ps arbitrary: s rs)
  case (Cons p ps)
  obtain r s1 where a: "applyInline E None i p s = (r, s1)" by force
  have p: "route p = i" "length (ReadSet p) \<le> maxStackShadow" "list_all (in_shard i) ps"
    using Cons.prems(3) in_shard_def [of i p] by auto
  note D = inline_is_direct [OF Cons.prems(1) p(2) a]
  obtain rs1 where r1: "sharded_run E None ps s1 = (rs1, s')" "rs = Inr r # rs1"
    using Cons.prems(2,4) a p(1) by (auto simp: sharded_ProposeDirect_def split: prod.splits)
  have "\<exists>rs'. rs1 = map Inr rs' \<and> direct_run E ps (shard_as_direct i s1) = (rs', shard_as_direct i s')"
    using D(2,3) Cons.prems(1,2) p(3) r1(1) by (intro Cons.IH) simp_all
  then obtain rs' where "rs1 = map Inr rs'" "direct_run E ps (shard_as_direct i s1) = (rs', shard_as_direct i s')"
    by blast
  with D(1) r1(2) show ?case by (intro exI [of _ "r # rs'"]) simp
qed simp

lemma open_shards_same:
  assumes "open_shards E eng pol w is = Inr sps" "k < length is"
  shows "\<exists>n f. fsm_open E (newFSM eng pol w\<lparr>skipHLC := True\<rparr>) = Inr (n, f)
    \<and> sps ! k = \<lparr>spEpochs = keyEpoch f, spIndex = 0, spApplied = applied f, shardIdx = is ! k\<rparr>
    \<and> length sps = length is"
  using assms
proof (induction "is" arbitrary: sps k)
  case (Cons j js)
  then obtain n f sps' where f: "fsm_open E (newFSM eng pol w\<lparr>skipHLC := True\<rparr>) = Inr (n, f)"
    "open_shards E eng pol w js = Inr sps'"
    "sps = \<lparr>spEpochs = keyEpoch f, spIndex = 0, spApplied = applied f, shardIdx = j\<rparr> # sps'"
    by (auto split: sum.splits)
  have len: "length sps' = length js" using Cons.IH [OF f(2)] f(2) by (cases js) auto
  show ?case
  proof (cases k)
    case 0
    then show ?thesis using f len by simp
  next
    case (Suc m)
    with Cons.IH [OF f(2), of m] Cons.prems(2) f(3) len show ?thesis by auto
  qed
qed simp

lemma fsm_open_frame:
  assumes "fsm_open E f0 = Inr (n, f)"
  shows "f = f0\<lparr>keyEpoch := keyEpoch f, applied := applied f\<rparr>"
  using assms by (auto simp: fsm_open_def Let_def split: sum.splits)

lemma new_shard_direct:
  assumes "newShardedDirectProposer E eng pol w = Inr s" "i < numShards"
  shows "newDirectProposer E eng pol w = Inr (shard_as_direct i s)" "length (shShards s) = numShards"
    "\<not> shClosed s" "shardIdx (shShards s ! i) = i"
proof -
  obtain sps where sps: "open_shards E eng pol w [0..<numShards] = Inr sps"
    "s = \<lparr>shEngine = eng, shShards = sps, shClosed = False, shSyncPolicy = pol,
          shConflicts = 0, shWatched = w, shNotified = []\<rparr>"
    using assms(1) by (auto simp: newShardedDirectProposer_def split: sum.splits)
  obtain n f where f: "fsm_open E (newFSM eng pol w\<lparr>skipHLC := True\<rparr>) = Inr (n, f)"
    "sps ! i = \<lparr>spEpochs = keyEpoch f, spIndex = 0, spApplied = applied f, shardIdx = i\<rparr>" "length sps = numShards"
    using open_shards_same [OF sps(1), of i] assms(2) by auto
  have "f = newFSM eng pol w\<lparr>skipHLC := True, keyEpoch := keyEpoch f, applied := applied f\<rparr>"
    using fsm_open_frame [OF f(1)] by simp
  with f(1,2) show "newDirectProposer E eng pol w = Inr (shard_as_direct i s)"
    by (simp add: newDirectProposer_def shard_as_direct_def sps(2) newFSM_def)
  show "length (shShards s) = numShards" "\<not> shClosed s" "shardIdx (shShards s ! i) = i"
    using f sps(2) by simp_all
qed

subsection \<open>Properties\<close>


subsection \<open>Scenarios\<close>

text \<open>Freshly opened sharded proposers on an empty sharded engine of each kind.\<close>

definition fresh_shards :: "'e \<Rightarrow> 'e shardedDirectProposer" where
  "fresh_shards eng = \<lparr>shEngine = eng,
     shShards = map (\<lambda>i. \<lparr>spEpochs = Map.empty, spIndex = 0, spApplied = 0, shardIdx = i\<rparr>) [0..<numShards],
     shClosed = False, shSyncPolicy = SyncNone, shConflicts = 0, shWatched = False, shNotified = []\<rparr>"

lemma open_shards_ok:
  assumes "fsm_open E (newFSM eng pol w\<lparr>skipHLC := True\<rparr>) = Inr (n, f)"
  shows "open_shards E eng pol w is =
    Inr (map (\<lambda>i. \<lparr>spEpochs = keyEpoch f, spIndex = 0, spApplied = applied f, shardIdx = i\<rparr>) is)"
  by (induction "is") (simp_all add: assms)

lemma new_sharded_fresh:
  assumes "it_pairs (eRawIter E eng rawIterStart rawIterEnd) = []" "eCurrentSequence E eng = 0"
  shows "newShardedDirectProposer E eng SyncNone False = Inr (fresh_shards eng)"
  using open_shards_ok [OF fsm_open_empty, of E eng SyncNone False] assms
  by (simp add: newShardedDirectProposer_def fresh_shards_def newFSM_def)

lemma max_applied_replicate: "st_applied st = 0 \<Longrightarrow> max_applied (replicate n st) = 0"
  by (induction n) (simp_all add: max_applied_def)

lemma new_sharded_memory:
  "newShardedDirectProposer memory_engine (NewSharded alist_pkg) SyncNone False = Inr (fresh_shards (NewSharded alist_pkg))"
  by (rule new_sharded_fresh) (simp_all add: memory_engine_def RawIter_def NewSharded_def rawIterSharded_def
      scan_range_def fresh_state_def alist_pkg_def new_iter_def CurrentSequence_def max_applied_replicate)

lemma new_sharded_mvcc:
  "newShardedDirectProposer mvcc_engine NewMVCC SyncNone False = Inr (fresh_shards NewMVCC)"
  using mvcc_version_scan_empty [OF mvcc_New_invar]
  by (intro new_sharded_fresh) (simp_all add: mvcc_engine_def mvcc_CurrentSequence_def NewMVCC_def)

definition set_p :: "ReadEntry list \<Rightarrow> (bytes \<times> bytes) list \<Rightarrow> Proposal" where
  "set_p rs kvs = \<lparr>ReadSet = rs, Writes = map (\<lambda>(k, v). \<lparr>wOp = OpSet, wKey = k, wValue = v\<rparr>) kvs,
     TimestampWall = 0, TimestampCounter = 0\<rparr>"

text \<open>
  Conflicts across shards are missed. Key 2 is overwritten through its own shard; then a transaction
  that read key 2 before and writes key 1 is validated on the shard of key 1, which knows nothing of
  the overwrite, and is accepted. The direct proposer rejects it.
\<close>

theorem cross_shard_conflict_missed:
  "fst (sharded_run memory_engine None [set_p [] [([2], [9])], set_p [read_e [2] 0 False] [([1], [7])]]
       (fresh_shards (NewSharded alist_pkg))) = [Inr result_ok, Inr result_ok]
   \<and> fst (direct_run memory_engine [set_p [] [([2], [9])], set_p [read_e [2] 0 False] [([1], [7])]] direct0)
       = [result_ok, result_conflict]"
  by code_simp


text \<open>
  On the multi-version engine a transaction that writes two keys loses the second one: all writes go to
  the shard of the first key, and the readers look for a key in its own shard. The proposal is
  reported as committed, yet neither the engine nor a new snapshot finds the second key.
\<close>

theorem mvcc_sharded_write_lost:
  "case sharded_ProposeDirect mvcc_engine (Some mvcc_ApplyShardDirect) (set_p [] [([1], [7]), ([2], [8])])
          (fresh_shards NewMVCC) of
     (r, s) \<Rightarrow> r = Inr result_ok \<and> mvcc_Get (shEngine s) [1] = Inr [7]
       \<and> mvcc_Get (shEngine s) [2] = Inl ErrKeyNotFound
       \<and> (let (sn, e) = mvcc_GetSnapshot (shEngine s) in mvcc_snap_Get e sn [2] = Inl ErrKeyNotFound)"
  by code_simp

text \<open>
  One attempt of a transaction body on the sharded multi-version store, as \<open>runOnce\<close> makes it: snapshot,
  body, proposal, and closing the snapshot.
\<close>

definition mvcc_attempt ::
  "txprog \<Rightarrow> uint64 \<times> uint16 \<Rightarrow> MVCCEngine shardedDirectProposer \<Rightarrow>
     (propose_error + ApplyResult) \<times> MVCCEngine shardedDirectProposer" where
  "mvcc_attempt prog ts s =
     (let (sn, e1) = mvcc_GetSnapshot (shEngine s); s1 = s\<lparr>shEngine := e1\<rparr>
      in case prepare mvcc_engine e1 sn prog ts of
           Inl r \<Rightarrow> (Inr result_ok, s1\<lparr>shEngine := mvcc_Close e1 sn\<rparr>)
         | Inr p \<Rightarrow>
             (let (r, s2) = sharded_ProposeDirect mvcc_engine (Some mvcc_ApplyShardDirect) p s1
              in (r, s2\<lparr>shEngine := mvcc_Close (shEngine s2) sn\<rparr>)))"

text \<open>A stored key whose version record a new snapshot misses, while its shard has a later epoch for it.\<close>

definition unversioned :: "bytes \<Rightarrow> MVCCEngine shardedDirectProposer \<Rightarrow> bool" where
  "unversioned k s \<longleftrightarrow> \<not> shClosed s \<and> \<not> isReserved k \<and> length (shShards s) = numShards
     \<and> (let e = shEngine s; sn = lastCommitted e
        in \<not> isl (mvcc_snap_Get e sn k) \<and>
           Epoch (mvcc_snap_GetVersion e sn k) < Epoch (epoch_at (spEpochs (shShards s ! shardFor k)) k)
           \<and> \<not> IsCredit (epoch_at (spEpochs (shShards s ! shardFor k)) k))"

lemma mvcc_reads_same:
  assumes "mvShards e' = mvShards e"
  shows "mvcc_snap_Get e' = mvcc_snap_Get e" "mvcc_snap_GetVersion e' = mvcc_snap_GetVersion e"
  using assms by (simp_all add: fun_eq_iff mvcc_snap_Get_def mvcc_snap_GetVersion_def entries_of_def)

lemma prepare_rewrite:
  assumes "\<not> isReserved k" "mvcc_snap_Get e sn k = Inr v" "ver = mvcc_snap_GetVersion e sn k"
  shows "prepare mvcc_engine e sn (copy_prog k k) ts =
    Inr \<lparr>ReadSet = [\<lparr>rKey = k, rEpoch = Epoch ver, rIsDebit = False\<rparr>],
         Writes = [\<lparr>wOp = OpSet, wKey = k, wValue = v\<rparr>],
         TimestampWall = fst ts, TimestampCounter = snd ts\<rparr>"
  using assms
  by (simp add: prepare_def copy_prog_def tx_Get_def tx_Set_def begin_tx_def tx_empty_def validate_def
      readSetSlice_def hydrate_def mvcc_engine_def)

lemma unversioned_attempt:
  assumes u: "unversioned k s" and run: "mvcc_attempt (copy_prog k k) ts s = (r, s')"
  shows "r = Inr result_conflict" "unversioned k s'"
proof -
  let ?e = "shEngine s" and ?i = "shardFor k"
  obtain v where v: "mvcc_snap_Get ?e (lastCommitted ?e) k = Inr v"
    using u by (cases "mvcc_snap_Get ?e (lastCommitted ?e) k") (simp_all add: unversioned_def Let_def)
  define ver where "ver = mvcc_snap_GetVersion ?e (lastCommitted ?e) k"
  obtain sn e1 where g: "mvcc_GetSnapshot ?e = (sn, e1)" by force
  note G = mvcc_GetSnapshot_eqs [OF g]
  note R = mvcc_reads_same [OF G(2)]
  define p where "p = \<lparr>ReadSet = [\<lparr>rKey = k, rEpoch = Epoch ver, rIsDebit = False\<rparr>],
    Writes = [\<lparr>wOp = OpSet, wKey = k, wValue = v\<rparr>], TimestampWall = fst ts, TimestampCounter = snd ts\<rparr>"
  have "prepare mvcc_engine e1 sn (copy_prog k k) ts = Inr p"
    unfolding p_def using u v by (intro prepare_rewrite) (simp_all add: unversioned_def R G(1) ver_def)
  moreover have "route p = ?i" by (simp add: p_def route_def)
  moreover have "inline_conflict (spEpochs (shShards s ! ?i)) p"
    using u by (simp add: p_def inline_conflict_def stack_conflict_def stale_read_def unversioned_def ver_def
        maxStackShadow_def Let_def)
  ultimately have s': "r = Inr result_conflict" "mvShards (shEngine s') = mvShards ?e"
    "lastCommitted (shEngine s') = lastCommitted ?e" "shClosed s' = shClosed s"
    "length (shShards s') = length (shShards s)"
    "?i < length (shShards s) \<Longrightarrow> spEpochs (shShards s' ! ?i) = spEpochs (shShards s ! ?i)"
    using run u g G
    by (auto simp: mvcc_attempt_def sharded_ProposeDirect_def applyInline_def set_shard_def mvcc_Close_def
        unversioned_def Let_def)
  then show "r = Inr result_conflict" by simp
  show "unversioned k s'"
    using u s' mvcc_reads_same [OF s'(2)] by (simp add: unversioned_def Let_def)
qed

text \<open>
  On the multi-version engine a key can become unwritable for transactions that read it. Once its
  shard has an epoch for the key and a snapshot misses its version record, every attempt to read
  and rewrite the key conflicts, however often it is retried. One plain write of the key leads there,
  because its version record is stored in the shard of the key and looked up in another one.
\<close>

theorem rewrite_conflicts_forever:
  assumes "unversioned k s"
  shows "fst (mvcc_attempt (copy_prog k k) ts (((\<lambda>s. snd (mvcc_attempt (copy_prog k k) ts s)) ^^ n) s))
    = Inr result_conflict"
proof -
  have "unversioned k (((\<lambda>s. snd (mvcc_attempt (copy_prog k k) ts s)) ^^ n) s)"
    by (induction n) (auto simp: assms intro: unversioned_attempt(2) [OF _ surjective_pairing])
  then show ?thesis by (rule unversioned_attempt(1) [OF _ surjective_pairing])
qed

definition written_mvcc :: "MVCCEngine shardedDirectProposer" where
  "written_mvcc = snd (sharded_ProposeDirect mvcc_engine (Some mvcc_ApplyShardDirect) (set_p [] [([1], [7])])
     (fresh_shards NewMVCC))"

theorem rewrite_conflicts_forever_witness:
  "fst (mvcc_attempt (copy_prog [1] [1]) (0, 0)
     (((\<lambda>s. snd (mvcc_attempt (copy_prog [1] [1]) (0, 0) s)) ^^ 49) written_mvcc)) = Inr result_conflict"
proof -
  have "unversioned [1] written_mvcc" by code_simp
  then show ?thesis by (rule rewrite_conflicts_forever)
qed

end
