(* ===== verification/Snapshot.thy ===== *)
theory Snapshot
  imports FSM Memory_Engine "HOL-Library.Sublist"
begin

text \<open>
  Raft snapshots: \<open>Snapshot\<close>, \<open>Persist\<close> and \<open>Restore\<close> of \<open>src/conductor/fsm.go\<close> with \<open>tarDir\<close> and \<open>untarDir\<close> of
  \<open>src/conductor/snapshot.go\<close>. A directory is the list of its files, in the order \<open>filepath.Walk\<close> visits
  them, with the directories that exist, all by their components below the root. A tar stream is the
  list of its entries; modes and times are left out. The root is the engine's data directory.
\<close>

subsection \<open>Paths\<close>

type_synonym path = "string list"

primrec split_path :: "string \<Rightarrow> path" where
  "split_path [] = [[]]"
| "split_path (c # cs) =
     (if c = CHR ''/'' then [] # split_path cs
      else case split_path cs of [] \<Rightarrow> [[c]] | s # ss \<Rightarrow> (c # s) # ss)"

definition clean_step :: "path \<Rightarrow> string \<Rightarrow> path" where
  "clean_step acc c = (if c = [] \<or> c = ''.'' then acc else if c = ''..'' then butlast acc else acc @ [c])"

text \<open>\<open>filepath.Clean("/" + name)\<close>, as components.\<close>

definition clean_path :: "string \<Rightarrow> path" where
  "clean_path name = foldl clean_step [] (split_path name)"

primrec join_path :: "path \<Rightarrow> string" where
  "join_path [] = []"
| "join_path (c # cs) = (if cs = [] then c else c @ CHR ''/'' # join_path cs)"

subsection \<open>Directories and tar streams\<close>

record dirTree =
  dirFiles :: "(path \<times> bytes) list"
  subDirs :: "path list"

record tarEntry =
  teName :: string
  teIsDir :: bool
  teData :: bytes

definition tarDir :: "dirTree \<Rightarrow> tarEntry list" where
  "tarDir d = map (\<lambda>(p, c). \<lparr>teName = join_path p, teIsDir = False, teData = c\<rparr>) (dirFiles d)"

definition MkdirAll :: "dirTree \<Rightarrow> path \<Rightarrow> dirTree option" where
  "MkdirAll d p =
     (if list_ex (\<lambda>q. q \<in> fst ` set (dirFiles d)) (prefixes p) then None
      else Some (d\<lparr>subDirs := subDirs d @ filter (\<lambda>q. q \<notin> set (subDirs d)) (prefixes p)\<rparr>))"

definition create_file :: "dirTree \<Rightarrow> path \<Rightarrow> bytes \<Rightarrow> dirTree option" where
  "create_file d p c =
     (if p \<in> set (subDirs d) then None else Some (d\<lparr>dirFiles := AList.update p c (dirFiles d)\<rparr>))"

definition untar_entry :: "dirTree \<Rightarrow> tarEntry \<Rightarrow> dirTree option" where
  "untar_entry d te =
     (let target = clean_path (teName te)
      in if teIsDir te then MkdirAll d target
         else Option.bind (MkdirAll d (butlast target)) (\<lambda>d1. create_file d1 target (teData te)))"

primrec untar_entries :: "tarEntry list \<Rightarrow> dirTree \<Rightarrow> dirTree option" where
  "untar_entries [] d = Some d"
| "untar_entries (te # tes) d = Option.bind (untar_entry d te) (untar_entries tes)"

definition untarDir :: "tarEntry list \<Rightarrow> dirTree \<Rightarrow> dirTree option" where
  "untarDir tes d = Option.bind (MkdirAll d []) (untar_entries tes)"

subsection \<open>Snapshot and restore\<close>

text \<open>The checkpoint directory of the in-memory engine has one file.\<close>

definition checkpoint_dir :: "'t Engine \<Rightarrow> dirTree" where
  "checkpoint_dir e = \<lparr>dirFiles = [([''dump''], CreateCheckpoint e)], subDirs = [[]]\<rparr>"

definition fsm_Snapshot :: "'t Engine dpxFSM \<Rightarrow> dirTree" where
  "fsm_Snapshot f = checkpoint_dir (engine f)"

definition snapshot_Persist :: "dirTree \<Rightarrow> tarEntry list" where
  "snapshot_Persist d = tarDir d"

datatype restore_error =
    RestoreUntar
  | RestoreOpen dump_error
  | RestoreScan fsm_error

text \<open>
  \<open>Restore\<close>: the data directory is removed, unpacked anew and the engine, which keeps its state in
  memory across \<open>Close\<close>, opens it; then the key epochs are rebuilt.
\<close>

definition fsm_Restore :: "tarEntry list \<Rightarrow> 't Engine dpxFSM \<Rightarrow> restore_error + 't Engine dpxFSM" where
  "fsm_Restore rc f =
     (case untarDir rc \<lparr>dirFiles = [], subDirs = []\<rparr> of
        None \<Rightarrow> Inl RestoreUntar
      | Some d \<Rightarrow>
          (case engine_Open (engine f) (map_of (dirFiles d) [''dump'']) of
             Inl err \<Rightarrow> Inl (RestoreOpen err)
           | Inr e \<Rightarrow>
               (case fsm_open memory_engine (f\<lparr>engine := e\<rparr>) of
                  Inl err \<Rightarrow> Inl (RestoreScan err)
                | Inr (_, f') \<Rightarrow> Inr f')))"

end
