(* ===== verification/Raft.thy ===== *)
theory Raft
  imports Memory_Props
begin

text \<open>
  The replicated path: log entries applied by \<open>dpxFSM.applyBatch\<close> of \<open>src/conductor/fsm.go\<close>, in whatever
  batches Raft delivers them. Each accepted entry is its own engine batch, its epoch is its log index.
  The specification is again the serial execution of the accepted entries.
\<close>

subsection \<open>Specification\<close>

definition log_proposal :: "Log \<Rightarrow> Proposal option" where
  "log_proposal log =
     (if logCommand log then case Unmarshal zero_proposal (logData log) of Inl err \<Rightarrow> None | Inr p \<Rightarrow> Some p else None)"

definition clean_log :: "Log \<Rightarrow> bool" where
  "clean_log log \<longleftrightarrow> (case log_proposal log of None \<Rightarrow> True | Some p \<Rightarrow> clean p)"

definition log_effect :: "kv \<Rightarrow> Log \<times> ApplyResult \<Rightarrow> kv" where
  "log_effect m lr = (case log_proposal (fst lr) of None \<Rightarrow> m | Some p \<Rightarrow> tx_effect m (p, snd lr))"

definition serial_logs :: "kv \<Rightarrow> (Log \<times> ApplyResult) list \<Rightarrow> kv" where
  "serial_logs m lrs = foldl log_effect m lrs"

lemma serial_logs_simps [simp]:
  "serial_logs m [] = m" "serial_logs m (lr # lrs) = serial_logs (log_effect m lr) lrs"
  by (simp_all add: serial_logs_def)

lemma log_effect_at: "m k = m' k \<Longrightarrow> log_effect m lr k = log_effect m' lr k"
  by (simp add: log_effect_def tx_effect_def kv_apply_key split: option.splits)

lemma serial_logs_at: "m k = m' k \<Longrightarrow> serial_logs m lrs k = serial_logs m' lrs k"
proof (induction lrs arbitrary: m m')
  case (Cons lr lrs)
  show ?case unfolding serial_logs_simps by (intro Cons.IH log_effect_at Cons.prems)
qed simp

definition apply_batches :: "('e, 's) StorageEngine \<Rightarrow> 'e dpxFSM \<Rightarrow> Log list list \<Rightarrow> 'e dpxFSM" where
  "apply_batches E f lss = foldl (\<lambda>f logs. snd (applyBatch E f logs)) f lss"

subsection \<open>One entry\<close>

lemma observe_frame [simp]:
  "engine (observe p f) = engine f" "keyEpoch (observe p f) = keyEpoch f" "syncPolicy (observe p f) = syncPolicy f"
  by (simp_all add: observe_def)

lemma notifyBatch_frame [simp]:
  "engine (notifyBatch ws f) = engine f" "keyEpoch (notifyBatch ws f) = keyEpoch f"
  by (simp_all add: notifyBatch_def)

lemma applyProposal_clean:
  assumes "clean p" "applyProposal E idx p shadow f = (err, shadow', f')"
    "eApplyBatch E (engine f) (proposal_calls idx p) (syncPolicy f = SyncFull) = (r, e1)"
  shows "keyEpoch f' = ke_after idx (Writes p) (keyEpoch f)"
    "r \<noteq> None \<Longrightarrow> err \<noteq> None \<and> engine f' = e1"
    "r = None \<Longrightarrow> fst (eSync E e1) = None \<Longrightarrow> err = None"
    "r = None \<Longrightarrow> engine f' = (if syncPolicy f = SyncBatch then snd (eSync E e1) else e1)"
  using assms
  by (auto simp: applyProposal_def apply_writes_ke_batch clean_def proposal_calls_def Let_def
      split: option.splits prod.splits if_splits)

lemma proposal_version_bound:
  assumes "clean p" "version_bound m i" "i \<le> idx"
  shows "version_bound (kv_apply m (proposal_calls idx p)) idx"
  unfolding version_bound_def
proof
  fix k
  have cw: "list_all clean_write (Writes p)" using assms(1) by (simp add: clean_def)
  show "Epoch (stored_version (kv_apply m (proposal_calls idx p) (versionKey k))) \<le> idx"
  proof (cases "k \<in> wKey ` set (Writes p)")
    case True
    then show ?thesis
      using version_after_writes [OF cw, of m k Map.empty idx] epoch_at_ke_after [of idx "Writes p" Map.empty k]
      by (simp add: version_after_proposal [OF assms(1)])
  next
    case False
    then show ?thesis
      using version_untouched [OF cw False, of m idx] assms(2,3)
      by (auto simp: version_after_proposal [OF assms(1)] version_bound_def intro: order_trans)
  qed
qed

lemma version_bound_mono: "version_bound m i \<Longrightarrow> i \<le> j \<Longrightarrow> version_bound m j"
  unfolding version_bound_def by (metis order_trans)

lemma advance_idle: "i \<le> j \<Longrightarrow> advance m ke i m ke j"
  by (simp add: advance_def)

text \<open>The three ways an entry goes.\<close>

lemma apply_log_cases:
  assumes "apply_log E log shadow f = (r, shadow', f')"
  obtains (skip) "log_proposal log = None" "f' = f"
  | (conflict) p where "log_proposal log = Some p" "r = result_conflict" "f' = observe p f"
  | (commit) p err f2 where "log_proposal log = Some p" "\<not> detectConflict (keyEpoch f) p shadow"
      "applyProposal E (logIndex log) p shadow (observe p f) = (err, shadow', f2)"
      "engine f' = engine f2" "keyEpoch f' = keyEpoch f2" "accepted r \<longleftrightarrow> err = None"
proof (cases "log_proposal log")
  case None
  then show ?thesis
    using assms by (intro skip) (auto simp: apply_log_def log_proposal_def split: if_splits sum.splits)
next
  case (Some p)
  then have lp: "logCommand log" "Unmarshal zero_proposal (logData log) = Inr p"
    by (auto simp: log_proposal_def split: if_splits sum.splits)
  show ?thesis
  proof (cases "detectConflict (keyEpoch f) p shadow")
    case True
    then show ?thesis using assms lp Some by (intro conflict) (auto simp: apply_log_def)
  next
    case False
    obtain err sh f2 where ap: "applyProposal E (logIndex log) p shadow (observe p f) = (err, sh, f2)"
      by (metis prod_cases3)
    show ?thesis using Some False ap assms lp
      by (intro commit [of p err f2]) (auto simp: apply_log_def split: option.splits)
  qed
qed

context total_engine
begin

text \<open>Applying one clean proposal: the store moves by its writes, or not at all.\<close>

lemma applyProposal_outcome:
  assumes inv: "invar (engine f)" and ok: "\<And>e. fst (eSync E e) = None" and cl: "clean p"
    and run: "applyProposal E idx p shadow f = (err, shadow', f')"
  shows "invar (engine f')" "keyEpoch f' = ke_after idx (Writes p) (keyEpoch f)"
    "contents (engine f') = (if err = None then kv_apply (contents (engine f)) (proposal_calls idx p) else contents (engine f))"
proof -
  obtain r e1 where ab: "eApplyBatch E (engine f) (proposal_calls idx p) (syncPolicy f = SyncFull) = (r, e1)" by force
  note A = applyProposal_clean [OF cl run ab] and C = commit_contents [OF inv ab]
  have "invar (engine f') \<and> contents (engine f') =
      (if err = None then kv_apply (contents (engine f)) (proposal_calls idx p) else contents (engine f))"
    using A(2-4) C sync_contents [OF C(1)] ok by (cases r) auto
  with A(1) show "invar (engine f')" "keyEpoch f' = ke_after idx (Writes p) (keyEpoch f)"
    "contents (engine f') = (if err = None then kv_apply (contents (engine f)) (proposal_calls idx p) else contents (engine f))"
    by simp_all
qed

text \<open>What one entry does to the store, the epochs and the version records.\<close>

lemma apply_log_outcome:
  assumes inv: "invar (engine f)" and ok: "\<And>e. fst (eSync E e) = None" and cl: "clean_log log"
    and idx: "i < logIndex log" and run: "apply_log E log shadow f = (r, shadow', f')"
  shows "invar (engine f')"
    "advance (contents (engine f)) (keyEpoch f) i (contents (engine f')) (keyEpoch f') (logIndex log)"
    "\<not> isReserved k \<Longrightarrow> contents (engine f') k = log_effect (contents (engine f)) (log, r) k"
    "version_bound (contents (engine f)) i \<Longrightarrow> version_bound (contents (engine f')) (logIndex log)"
proof -
  let ?m = "contents (engine f)" and ?m' = "contents (engine f')"
  have le: "i \<le> logIndex log" using idx by simp
  have "invar (engine f') \<and> advance ?m (keyEpoch f) i ?m' (keyEpoch f') (logIndex log)
    \<and> (\<not> isReserved k \<longrightarrow> ?m' k = log_effect ?m (log, r) k)
    \<and> (version_bound ?m i \<longrightarrow> version_bound ?m' (logIndex log))"
    using run
  proof (cases rule: apply_log_cases)
    case skip
    then show ?thesis using inv le version_bound_mono [of ?m i] by (auto simp: log_effect_def advance_idle)
  next
    case (conflict p)
    then show ?thesis
      using inv le version_bound_mono [of ?m i] by (auto simp: log_effect_def tx_effect_def advance_idle)
  next
    case (commit p err f2)
    have c: "clean p" using cl commit(1) by (simp add: clean_log_def)
    have i1: "invar (engine (observe p f))" using inv by simp
    note A = applyProposal_outcome [OF i1 ok c commit(3), simplified]
    have adv: "advance ?m (keyEpoch f) i (kv_apply ?m (user_calls (Writes p)))
        (ke_after (logIndex log) (Writes p) (keyEpoch f)) (logIndex log)"
      using idx by (rule advance_accept)
    show ?thesis
    proof (cases "err = None")
      case True
      have "?m' k' = kv_apply ?m (user_calls (Writes p)) k'" if "\<not> isReserved k'" for k'
        using A(3) True commit(4) kv_apply_proposal_user [OF that, of ?m ?m] by simp
      with adv A commit True c le show ?thesis
        by (auto simp: log_effect_def tx_effect_def intro: advance_cong proposal_version_bound)
    next
      case False
      with A commit advance_same_store [OF adv] le version_bound_mono [of ?m i] show ?thesis
        by (auto simp: log_effect_def tx_effect_def)
    qed
  qed
  then show "invar (engine f')" "advance ?m (keyEpoch f) i ?m' (keyEpoch f') (logIndex log)"
    "\<not> isReserved k \<Longrightarrow> ?m' k = log_effect ?m (log, r) k"
    "version_bound ?m i \<Longrightarrow> version_bound ?m' (logIndex log)" by blast+
qed

end

lemma accepted_log_fresh:
  assumes "apply_log E log shadow f = (r, shadow', f')" "log_proposal log = Some p" "accepted r" "re \<in> set (ReadSet p)"
  shows "\<not> stale_read (keyEpoch f) re"
  using assms(1)
proof (cases rule: apply_log_cases)
  case (commit q err f2)
  then show ?thesis using assms(2,4) by (auto simp: detectConflict_def list_ex_iff)
qed (use assms in auto)

end
