(* ===== verification/Raft_Props.thy ===== *)
theory Raft_Props
  imports Raft Tx_Props
begin

text \<open>
  Properties of the replicated path: entries applied in any batches have the effect of the serial execution
  of the accepted ones, and accepted reads are current; but the verdicts depend on the batching.
\<close>

subsection \<open>Sequences of entries\<close>

definition last_index :: "uint64 \<Rightarrow> Log list \<Rightarrow> uint64" where
  "last_index i logs = last (i # map logIndex logs)"

lemma last_index_simps [simp]:
  "last_index i [] = i" "last_index i (log # logs) = last_index (logIndex log) logs"
  "last_index i (logs @ logs') = last_index (last_index i logs) logs'"
  by (simp_all add: last_index_def last_append)

definition ordered_logs :: "uint64 \<Rightarrow> Log list \<Rightarrow> bool" where
  "ordered_logs i logs \<longleftrightarrow> sorted_wrt (<) (i # map logIndex logs) \<and> list_all clean_log logs"

lemma ordered_logs_Cons:
  "ordered_logs i (log # logs) \<longleftrightarrow> i < logIndex log \<and> clean_log log \<and> ordered_logs (logIndex log) logs"
  by (auto simp: ordered_logs_def intro: less_trans)

lemma ordered_logs_append:
  "ordered_logs i (logs @ logs') \<longleftrightarrow> ordered_logs i logs \<and> ordered_logs (last_index i logs) logs'"
  by (induction logs arbitrary: i) (auto simp: ordered_logs_Cons, simp_all add: ordered_logs_def)

lemma length_apply_logs: "apply_logs E logs shadow f = (rs, f') \<Longrightarrow> length rs = length logs"
  by (induction logs arbitrary: shadow f rs f') (auto split: prod.splits)

context total_engine
begin

lemma apply_logs_outcome:
  assumes "invar (engine f)" "\<And>e. fst (eSync E e) = None" "ordered_logs i logs"
    "apply_logs E logs shadow f = (rs, f')"
  shows "invar (engine f')
    \<and> advance (contents (engine f)) (keyEpoch f) i (contents (engine f')) (keyEpoch f') (last_index i logs)
    \<and> (\<forall>k. \<not> isReserved k \<longrightarrow> contents (engine f') k = serial_logs (contents (engine f)) (zip logs rs) k)
    \<and> (version_bound (contents (engine f)) i \<longrightarrow> version_bound (contents (engine f')) (last_index i logs))"
  using assms(1,3,4)
proof (induction logs arbitrary: i shadow f rs)
  case (Cons log logs)
  obtain r sh f1 where a: "apply_log E log shadow f = (r, sh, f1)" by (metis prod_cases3)
  obtain rs1 where b: "apply_logs E logs sh f1 = (rs1, f')" "rs = r # rs1"
    using Cons.prems(3) a by (auto split: prod.splits)
  have o: "i < logIndex log" "clean_log log" "ordered_logs (logIndex log) logs"
    using Cons.prems(2) by (simp_all add: ordered_logs_Cons)
  note A = apply_log_outcome [OF Cons.prems(1) assms(2) o(2,1) a]
  note I = Cons.IH [OF A(1) o(3) b(1)]
  have "contents (engine f') k = serial_logs (contents (engine f)) (zip (log # logs) rs) k" if "\<not> isReserved k" for k
    using I A(3) [OF that] that b(2) serial_logs_at [of "contents (engine f1)" k] by simp
  with I A(2,4) advance_trans show ?case by auto
qed (simp add: advance_refl)

lemma apply_batches_outcome:
  assumes "invar (engine f)" "\<And>e. fst (eSync E e) = None" "ordered_logs i (concat lss)" "f' = apply_batches E f lss"
  shows "invar (engine f')
    \<and> advance (contents (engine f)) (keyEpoch f) i (contents (engine f')) (keyEpoch f') (last_index i (concat lss))
    \<and> (version_bound (contents (engine f)) i \<longrightarrow> version_bound (contents (engine f')) (last_index i (concat lss)))"
  using assms(1,3,4)
proof (induction lss arbitrary: i f)
  case (Cons logs lss)
  obtain rs f1 where a: "apply_logs E logs Map.empty f = (rs, f1)" by force
  have o: "ordered_logs i logs" "ordered_logs (last_index i logs) (concat lss)"
    using Cons.prems(2) by (simp_all add: ordered_logs_append)
  note A = apply_logs_outcome [OF Cons.prems(1) assms(2) o(1) a]
  have "f' = apply_batches E f1 lss" using Cons.prems(3) a by (simp add: apply_batches_def applyBatch_def)
  with Cons.IH [of f1, OF _ o(2)] A advance_trans show ?case by auto
qed (simp add: apply_batches_def advance_refl)

text \<open>An accepted plain read, validated at a bound, still has the value the store had at that bound.\<close>

lemma apply_logs_current:
  assumes "\<And>e. fst (eSync E e) = None" "j < length logs" "log_proposal (logs ! j) = Some p"
    "re \<in> set (ReadSet p)" "\<not> rIsDebit re" "\<not> isReserved (rKey re)" "rEpoch re \<le> b"
  shows "invar (engine f) \<Longrightarrow> ordered_logs i logs \<Longrightarrow> apply_logs E logs shadow f = (rs, f') \<Longrightarrow> accepted (rs ! j) \<Longrightarrow>
    advance m ke b (contents (engine f)) (keyEpoch f) i \<Longrightarrow>
    contents (engine (snd (apply_logs E (take j logs) shadow f))) (rKey re) = m (rKey re)"
  using assms(2,3)
proof (induction logs arbitrary: i j shadow f rs)
  case (Cons log logs)
  obtain r sh f1 where a: "apply_log E log shadow f = (r, sh, f1)" by (metis prod_cases3)
  obtain rs1 where b: "apply_logs E logs sh f1 = (rs1, f')" "rs = r # rs1"
    using Cons.prems(3) a by (auto split: prod.splits)
  have o: "i < logIndex log" "clean_log log" "ordered_logs (logIndex log) logs"
    using Cons.prems(2) by (simp_all add: ordered_logs_Cons)
  show ?case
  proof (cases j)
    case 0
    then have "\<not> stale_read (keyEpoch f) re"
      using accepted_log_fresh [OF a] Cons.prems(4,7) b(2) assms(4) by simp
    then have "Epoch (epoch_at (keyEpoch f) (rKey re)) \<le> b"
      using assms(5,7) by (auto simp: stale_read_def Let_def not_less)
    from advance_unread [OF Cons.prems(5) assms(6) this] show ?thesis using 0 by simp
  next
    case (Suc n)
    note A = apply_log_outcome [OF Cons.prems(1) assms(1) o(2,1) a]
    have "contents (engine (snd (apply_logs E (take n logs) sh f1))) (rKey re) = m (rKey re)"
      using Cons.prems Suc b(2) by (intro Cons.IH [OF A(1) o(3) b(1) _ advance_trans [OF Cons.prems(5) A(2)]]) auto
    then show ?thesis using Suc a by (simp add: case_prod_beta)
  qed
qed simp

end

subsection \<open>Histories on the in-memory engine\<close>

lemma memory_sync_ok: "fst (eSync memory_engine e) = None"
  by (simp add: memory_engine_def)

text \<open>A state machine opened on a fresh engine that has applied entries in the given batches.\<close>

definition raft_run ::
  "'t btree_pkg \<Rightarrow> 't Engine \<Rightarrow> SyncPolicy \<Rightarrow> bool \<Rightarrow> Log list list \<Rightarrow> 't Engine dpxFSM \<Rightarrow> bool" where
  "raft_run B e pol w lss f \<longleftrightarrow> btree_ok B \<and> (e = New B \<or> e = NewSharded B) \<and> ordered_logs 0 (concat lss)
     \<and> f = apply_batches memory_engine (newFSM e pol w) lss"

lemma raft_run_facts:
  assumes "raft_run B e pol w lss f"
  shows "mem_invar (engine f)" "version_bound (mem_contents (engine f)) (last_index 0 (concat lss))"
proof -
  have e: "mem_invar e" "mem_contents e = Map.empty" using assms mem_New by (auto simp: raft_run_def)
  have "mem_invar (engine (newFSM e pol w))" using e(1) by (simp add: newFSM_def)
  from memt.apply_batches_outcome [OF this memory_sync_ok] assms e(2)
  show "mem_invar (engine f)" "version_bound (mem_contents (engine f)) (last_index 0 (concat lss))"
    by (auto simp: raft_run_def newFSM_def version_bound_def)
qed

subsection \<open>Properties\<close>

text \<open>
  C7. The replicated state machine is serial: after any history, applying a further batch of log entries
  leaves every user key as the serial execution of the accepted entries leaves it. Entries that are not
  commands, cannot be decoded or are rejected have no effect, and every entry gets a result.
\<close>

theorem raft_batch_is_serial:
  assumes "raft_run B e pol w lss f" "ordered_logs (last_index 0 (concat lss)) logs"
    "applyBatch memory_engine f logs = (rs, f')" "\<not> isReserved k"
  shows "length rs = length logs
    \<and> engine_Get (engine f') k = kv_result (serial_logs (mem_contents (engine f)) (zip logs rs) k)"
proof -
  note F = raft_run_facts [OF assms(1)]
  have run: "apply_logs memory_engine logs Map.empty f = (rs, f')" using assms(3) by (simp add: applyBatch_def)
  from memt.apply_logs_outcome [OF F(1) memory_sync_ok assms(2) run] length_apply_logs [OF run] assms(4)
  show ?thesis by (simp add: engine_Get_contents)
qed

text \<open>
  C6. Accepted reads are current on the replicated path: take a snapshot of any replica state, let further
  entries be applied in any batches, and let an entry be accepted whose plain read of a key carries
  the version the snapshot showed. Then the store that entry is applied to still has the value
  the snapshot showed for the key.
\<close>

theorem raft_reads_current:
  assumes "raft_run B e pol w lss f0" "GetSnapshot (engine f0) = (s, e1)"
    "raft_run B e pol w (lss @ lss') f" "ordered_logs (last_index 0 (concat (lss @ lss'))) logs"
    "applyBatch memory_engine f logs = (rs, f')" "j < length logs" "log_proposal (logs ! j) = Some p"
    "accepted (rs ! j)" "re \<in> set (ReadSet p)" "\<not> rIsDebit re" "\<not> isReserved (rKey re)"
    "rEpoch re = Epoch (snap_GetVersion e1 s (rKey re))"
  shows "engine_Get (engine (snd (applyBatch memory_engine f (take j logs)))) (rKey re) = snap_Get e1 s (rKey re)"
proof -
  let ?i = "last_index 0 (concat lss)" and ?fj = "snd (applyBatch memory_engine f (take j logs))"
  note F = raft_run_facts [OF assms(1)]
  have e1: "e1 = engine f0" using assms(2) by (simp add: GetSnapshot_def)
  have s: "mem_live e1 s" "mem_view e1 s = mem_contents (engine f0)"
    using mem.snapshot [OF F(1), of s e1] assms(2) by (simp_all add: memory_engine_def)
  have f: "f = apply_batches memory_engine f0 lss'" "ordered_logs ?i (concat lss')"
    using assms(1,3) by (auto simp: raft_run_def apply_batches_def ordered_logs_append)
  note B = memt.apply_batches_outcome [OF F(1) memory_sync_ok f(2,1)]
  have "rEpoch re \<le> ?i"
    using F(2) mem.snap_version [of e1 s "rKey re"] F(1) e1 s assms(12)
    by (simp add: memory_engine_def version_bound_def)
  moreover have run: "apply_logs memory_engine logs Map.empty f = (rs, f')" using assms(5) by (simp add: applyBatch_def)
  moreover have "ordered_logs (last_index ?i (concat lss')) logs" using assms(4) by simp
  ultimately have "mem_contents (engine ?fj) (rKey re) = mem_contents (engine f0) (rKey re)"
    unfolding applyBatch_def using B assms(6-11)
    by (intro memt.apply_logs_current [OF memory_sync_ok]) blast+
  moreover have "mem_invar (engine ?fj)"
  proof -
    have "ordered_logs (last_index ?i (concat lss')) (take j logs)"
      using assms(4) ordered_logs_append [of _ "take j logs" "drop j logs"] by simp
    moreover have "mem_invar (engine f)" using B by blast
    ultimately show ?thesis
      unfolding applyBatch_def using memt.apply_logs_outcome [OF _ memory_sync_ok _ surjective_pairing] by blast
  qed
  ultimately show ?thesis
    using mem.snap_get [of e1 s "rKey re"] F(1) e1 s by (simp add: engine_Get_contents memory_engine_def)
qed

subsection \<open>Scenarios\<close>

definition log_of :: "uint64 \<Rightarrow> Proposal \<Rightarrow> Log" where
  "log_of i p = \<lparr>logCommand = True, logIndex = i, logData = Marshal p\<rparr>"

definition raft0 :: "data_map Engine dpxFSM" where
  "raft0 = newFSM (New alist_pkg) SyncNone False"

lemma raft0_run:
  "ordered_logs 0 (concat lss) \<Longrightarrow> raft_run alist_pkg (New alist_pkg) SyncNone False lss (apply_batches memory_engine raft0 lss)"
  by (simp add: raft_run_def raft0_def btree_ok_alist_pkg)

theorem raft_batch_is_serial_witness:
  "engine_Get (engine (snd (applyBatch memory_engine raft0
      [log_of 1 (op_p [] OpSet [1] [7]), log_of 2 (op_p [read_e [1] 0 False] OpSet [1] [8])]))) [1] = Inr [7]"
proof -
  let ?logs = "[log_of 1 (op_p [] OpSet [1] [7]), log_of 2 (op_p [read_e [1] 0 False] OpSet [1] [8])]"
  obtain rs f' where run: "applyBatch memory_engine raft0 ?logs = (rs, f')" by force
  have "raft_run alist_pkg (New alist_pkg) SyncNone False [] raft0"
    using raft0_run [of "[]"] by (simp add: apply_batches_def ordered_logs_def)
  moreover have "ordered_logs (last_index 0 (concat [])) ?logs" "\<not> isReserved [1]" by code_simp+
  moreover have "serial_logs (mem_contents (engine raft0)) (zip ?logs (fst (applyBatch memory_engine raft0 ?logs))) [1] = Some [7]"
    by code_simp
  ultimately show ?thesis using raft_batch_is_serial [OF _ _ run, of alist_pkg "New alist_pkg" SyncNone False "[]" "[1]"] run by simp
qed

theorem raft_reads_current_witness:
  "engine_Get (engine (snd (applyBatch memory_engine (apply_batches memory_engine raft0
       [[log_of 1 (op_p [] OpSet [1] [7])], [log_of 2 (op_p [] OpSet [3] [3])]])
       (take 0 [log_of 4 (op_p [read_e [1] 1 False] OpSet [2] [7])])))) [1] = Inr [7]"
proof -
  let ?a = "[[log_of 1 (op_p [] OpSet [1] [7])]]" and ?b = "[[log_of 2 (op_p [] OpSet [3] [3])]]"
  let ?logs = "[log_of 4 (op_p [read_e [1] 1 False] OpSet [2] [7])]"
  let ?fs = "apply_batches memory_engine raft0 ?a" and ?f = "apply_batches memory_engine raft0 (?a @ ?b)"
  have "ordered_logs 0 (concat ?a)" "ordered_logs 0 (concat (?a @ ?b))" by code_simp+
  from this [THEN raft0_run] have run: "raft_run alist_pkg (New alist_pkg) SyncNone False ?a ?fs"
    "raft_run alist_pkg (New alist_pkg) SyncNone False (?a @ ?b) ?f" .
  obtain s e1 where sn: "GetSnapshot (engine ?fs) = (s, e1)" by force
  obtain rs f' where ab: "applyBatch memory_engine ?f ?logs = (rs, f')" by force
  have o: "ordered_logs (last_index 0 (concat (?a @ ?b))) ?logs" by code_simp
  have p: "log_proposal (?logs ! 0) = Some (op_p [read_e [1] 1 False] OpSet [2] [7])" by code_simp
  have acc: "accepted (rs ! 0)"
  proof -
    have "accepted (fst (applyBatch memory_engine ?f ?logs) ! 0)" by code_simp
    then show ?thesis unfolding ab fst_conv .
  qed
  have v: "Epoch (snap_GetVersion (snd (GetSnapshot (engine ?fs))) (fst (GetSnapshot (engine ?fs))) [1]) = 1"
    "snap_Get (snd (GetSnapshot (engine ?fs))) (fst (GetSnapshot (engine ?fs))) [1] = Inr [7]" by code_simp+
  have k: "\<not> isReserved [1]" by code_simp
  from raft_reads_current [OF run(1) sn run(2) o ab _ p acc, of "read_e [1] 1 False"] v sn k
  show ?thesis by (simp add: op_p_def read_e_def)
qed

text \<open>
  Replicas can diverge. A transaction reads the value that log entry 1 wrote, so it carries version 1,
  and becomes entry 2. A replica that applies the entries one by one accepts it. A replica that
  receives both in one batch rejects it, because any write by an earlier entry of the batch counts as a
  conflict, and keeps the old value.
\<close>

theorem raft_batching_diverges:
  "let log1 = log_of 1 (op_p [] OpSet [1] [7]); log2 = log_of 2 (op_p [read_e [1] 1 False] OpSet [1] [8]);
       (r1, f1) = fsm_Apply memory_engine raft0 log1; (r2, f2) = fsm_Apply memory_engine f1 log2;
       (rs, g) = applyBatch memory_engine raft0 [log1, log2]
   in [r1, r2] = [result_ok, result_ok] \<and> rs = [result_ok, result_conflict]
      \<and> engine_Get (engine f2) [1] = Inr [8] \<and> engine_Get (engine g) [1] = Inr [7]"
  by code_simp

end
