(* ===== verification/Snapshot_Props.thy ===== *)
theory Snapshot_Props
  imports Snapshot Raft_Props
begin

text \<open>
  Unpacking a tar stream stays inside the data directory, packing and unpacking is the identity on file
  trees, and a snapshot restored on a fresh replica gives its store and epochs; on a replica of the
  sharded layout that already has data it does not.
\<close>

subsection \<open>Paths\<close>

definition valid_comp :: "string \<Rightarrow> bool" where
  "valid_comp c \<longleftrightarrow> c \<noteq> [] \<and> c \<noteq> ''.'' \<and> c \<noteq> ''..'' \<and> CHR ''/'' \<notin> set c"

lemma split_path_no_slash: "\<forall>c \<in> set (split_path name). CHR ''/'' \<notin> set c"
  by (induction name) (auto split: list.splits)

lemma clean_steps_valid:
  "\<forall>c \<in> set cs. CHR ''/'' \<notin> set c \<Longrightarrow> list_all valid_comp acc \<Longrightarrow> list_all valid_comp (foldl clean_step acc cs)"
proof (induction cs arbitrary: acc)
  case (Cons c cs)
  have "list_all valid_comp (clean_step acc c)"
    using Cons.prems by (auto simp: clean_step_def valid_comp_def list_all_iff dest: in_set_butlastD)
  with Cons show ?case by simp
qed simp

lemma clean_path_valid: "list_all valid_comp (clean_path name)"
  unfolding clean_path_def using split_path_no_slash by (intro clean_steps_valid) auto

lemma split_path_comp: "CHR ''/'' \<notin> set c \<Longrightarrow> split_path c = [c]"
  by (induction c) auto

lemma split_path_append: "CHR ''/'' \<notin> set c \<Longrightarrow> split_path (c @ CHR ''/'' # cs) = c # split_path cs"
  by (induction c) auto

lemma split_join: "list_all valid_comp p \<Longrightarrow> p \<noteq> [] \<Longrightarrow> split_path (join_path p) = p"
  by (induction p) (auto simp: valid_comp_def split_path_comp split_path_append)

lemma clean_valid: "list_all valid_comp cs \<Longrightarrow> foldl clean_step acc cs = acc @ cs"
  by (induction cs arbitrary: acc) (auto simp: clean_step_def valid_comp_def)

lemma clean_join: "list_all valid_comp p \<Longrightarrow> p \<noteq> [] \<Longrightarrow> clean_path (join_path p) = p"
  by (simp add: clean_path_def split_join clean_valid)

subsection \<open>Unpacking\<close>

lemma untar_entry_files:
  assumes "untar_entry d te = Some d'" "(p, c) \<in> set (dirFiles d')"
  shows "(p, c) \<in> set (dirFiles d) \<or> p = clean_path (teName te)"
  using assms update_mem(3) [of "(p, c)" "clean_path (teName te)" "teData te" "dirFiles d"]
  by (auto simp: untar_entry_def MkdirAll_def create_file_def Let_def split: if_splits bind_splits)

lemma untar_entries_files:
  "untar_entries tes d = Some d' \<Longrightarrow> (p, c) \<in> set (dirFiles d') \<Longrightarrow>
   (p, c) \<in> set (dirFiles d) \<or> (\<exists>te \<in> set tes. p = clean_path (teName te))"
proof (induction tes arbitrary: d)
  case (Cons te tes)
  then obtain d1 where d1: "untar_entry d te = Some d1" "untar_entries tes d1 = Some d'"
    by (auto split: bind_splits)
  from Cons.IH [OF d1(2) Cons.prems(2)] untar_entry_files [OF d1(1)] show ?case by auto
qed simp

text \<open>A list of files as a file tree has them: valid different paths, none a directory of another.\<close>

definition file_tree :: "(path \<times> bytes) list \<Rightarrow> bool" where
  "file_tree fs \<longleftrightarrow> distinct (map fst fs) \<and> (\<forall>(p, c) \<in> set fs. p \<noteq> [] \<and> list_all valid_comp p)
     \<and> (\<forall>p \<in> fst ` set fs. \<forall>q \<in> fst ` set fs. \<not> strict_prefix p q)"

lemma butlast_prefix: "p \<noteq> [] \<Longrightarrow> prefix q (butlast p) \<longleftrightarrow> strict_prefix q p"
  by (cases p rule: rev_cases) (auto simp: strict_prefix_def prefix_snoc dest: prefix_length_le)

lemma untar_tar_step:
  assumes "file_tree fs" "fs = pre @ (p, c) # rest" "dirFiles d = pre"
    "\<forall>q \<in> set (subDirs d). \<exists>f \<in> fst ` set fs. strict_prefix q f"
  shows "\<exists>d'. untar_entry d \<lparr>teName = join_path p, teIsDir = False, teData = c\<rparr> = Some d'
    \<and> dirFiles d' = pre @ [(p, c)] \<and> (\<forall>q \<in> set (subDirs d'). \<exists>f \<in> fst ` set fs. strict_prefix q f)"
proof -
  have p: "p \<noteq> []" "list_all valid_comp p" "p \<notin> fst ` set pre" "p \<in> fst ` set fs"
    using assms(1,2) by (auto simp: file_tree_def)
  have "\<not> strict_prefix q p" if "q \<in> fst ` set pre" for q
    using assms(1,2) that p(4) by (auto simp: file_tree_def)
  then have "\<not> list_ex (\<lambda>q. q \<in> fst ` set (dirFiles d)) (prefixes (butlast p))"
    unfolding list_ex_iff set_prefixes_eq mem_Collect_eq butlast_prefix [OF p(1)] assms(3) by blast
  moreover have "p \<notin> set (subDirs d) \<union> set (prefixes (butlast p))"
    using assms(1,4) p(4) by (auto simp: file_tree_def butlast_prefix [OF p(1)])
  ultimately show ?thesis
    using p assms(3,4)
    by (auto simp: untar_entry_def clean_join MkdirAll_def create_file_def Let_def AList_update_fresh
        butlast_prefix)
qed

lemma untar_tar_entries:
  "file_tree fs \<Longrightarrow> fs = pre @ rest \<Longrightarrow> dirFiles d = pre \<Longrightarrow>
   \<forall>q \<in> set (subDirs d). \<exists>f \<in> fst ` set fs. strict_prefix q f \<Longrightarrow>
   \<exists>d'. untar_entries (map (\<lambda>(p, c). \<lparr>teName = join_path p, teIsDir = False, teData = c\<rparr>) rest) d = Some d'
     \<and> dirFiles d' = fs"
proof (induction rest arbitrary: pre d)
  case (Cons pc rest)
  obtain p c where pc: "pc = (p, c)" by (cases pc)
  obtain d1 where d1: "untar_entry d \<lparr>teName = join_path p, teIsDir = False, teData = c\<rparr> = Some d1"
    "dirFiles d1 = pre @ [(p, c)]" "\<forall>q \<in> set (subDirs d1). \<exists>f \<in> fst ` set fs. strict_prefix q f"
    using untar_tar_step [OF Cons.prems(1) _ Cons.prems(3,4)] Cons.prems(2) pc by blast
  from Cons.IH [OF Cons.prems(1) _ d1(2,3)] Cons.prems(2) show ?case by (simp add: pc d1(1))
qed simp

lemma untar_tar:
  assumes "file_tree (dirFiles d)"
  shows "\<exists>d'. untarDir (tarDir d) \<lparr>dirFiles = [], subDirs = []\<rparr> = Some d' \<and> dirFiles d' = dirFiles d"
proof (cases "dirFiles d")
  case Nil
  then show ?thesis by (simp add: untarDir_def tarDir_def MkdirAll_def)
next
  case (Cons f fs)
  then have "strict_prefix [] (fst f)" using assms by (cases "fst f") (auto simp: file_tree_def)
  then show ?thesis
    using untar_tar_entries [OF assms, of "[]" "dirFiles d" "\<lparr>dirFiles = [], subDirs = [[]]\<rparr>"] Cons
    by (simp add: untarDir_def tarDir_def MkdirAll_def)
qed

subsection \<open>Version records on the replicated path\<close>

lemma proposal_versions_match:
  assumes "clean p" "versions_match m ke"
  shows "versions_match (kv_apply m (proposal_calls idx p)) (ke_after idx (Writes p) ke)"
  unfolding versions_match_def
proof
  fix k
  let ?v = "kv_apply m (proposal_calls idx p) (versionKey k)"
  have cw: "list_all clean_write (Writes p)" using assms(1) by (simp add: clean_def)
  show "stored_version ?v = epoch_at (ke_after idx (Writes p) ke) k
      \<and> (\<forall>v. ?v = Some v \<longrightarrow> decodeEpochRecord v \<noteq> None)"
  proof (cases "k \<in> wKey ` set (Writes p)")
    case True
    then show ?thesis
      using version_after_writes [OF cw, of m k ke idx] by (simp add: version_after_proposal [OF assms(1)])
  next
    case False
    then show ?thesis
      using version_untouched [OF cw False, of m idx] epoch_at_ke_after_other [OF False, of idx ke] assms(2)
      by (simp add: version_after_proposal [OF assms(1)] versions_match_def)
  qed
qed

context total_engine
begin

lemma apply_log_versions:
  assumes inv: "invar (engine f)" and ok: "\<And>e. fst (eSync E e) = None" and never: "\<And>e b s. fst (eApplyBatch E e b s) = None"
    and cl: "clean_log log" and run: "apply_log E log shadow f = (r, shadow', f')"
    and vm: "versions_match (contents (engine f)) (keyEpoch f)"
  shows "versions_match (contents (engine f')) (keyEpoch f')"
  using run
proof (cases rule: apply_log_cases)
  case (commit p err f2)
  have c: "clean p" using cl commit(1) by (simp add: clean_log_def)
  have i1: "invar (engine (observe p f))" using inv by simp
  note A = applyProposal_outcome [OF i1 ok c commit(3), simplified]
  obtain r' e1 where ab: "eApplyBatch E (engine (observe p f)) (proposal_calls (logIndex log) p)
      (syncPolicy (observe p f) = SyncFull) = (r', e1)" by force
  have "r' = None" using never ab by (metis fst_conv)
  then have "err = None" using applyProposal_clean(3) [OF c commit(3) ab] ok by simp
  with A commit proposal_versions_match [OF c vm] show ?thesis by simp
qed (use vm in auto)

lemma apply_logs_versions:
  assumes "\<And>e. fst (eSync E e) = None" "\<And>e b s. fst (eApplyBatch E e b s) = None"
  shows "invar (engine f) \<Longrightarrow> ordered_logs i logs \<Longrightarrow> apply_logs E logs shadow f = (rs, f') \<Longrightarrow>
    versions_match (contents (engine f)) (keyEpoch f) \<Longrightarrow> versions_match (contents (engine f')) (keyEpoch f')"
proof (induction logs arbitrary: i shadow f rs)
  case (Cons log logs)
  obtain r sh f1 where a: "apply_log E log shadow f = (r, sh, f1)" by (metis prod_cases3)
  obtain rs1 where b: "apply_logs E logs sh f1 = (rs1, f')" using Cons.prems(3) a by (auto split: prod.splits)
  have o: "i < logIndex log" "clean_log log" "ordered_logs (logIndex log) logs"
    using Cons.prems(2) by (simp_all add: ordered_logs_Cons)
  note A = apply_log_outcome(1) [OF Cons.prems(1) assms(1) o(2,1) a]
  show ?case by (rule Cons.IH [OF A o(3) b apply_log_versions [OF Cons.prems(1) assms o(2) a Cons.prems(4)]])
qed simp

lemma apply_batches_versions:
  assumes "\<And>e. fst (eSync E e) = None" "\<And>e b s. fst (eApplyBatch E e b s) = None"
  shows "invar (engine f) \<Longrightarrow> ordered_logs i (concat lss) \<Longrightarrow> versions_match (contents (engine f)) (keyEpoch f) \<Longrightarrow>
    versions_match (contents (engine (apply_batches E f lss))) (keyEpoch (apply_batches E f lss))"
proof (induction lss arbitrary: i f)
  case (Cons logs lss)
  obtain rs f1 where a: "apply_logs E logs Map.empty f = (rs, f1)" by force
  have o: "ordered_logs i logs" "ordered_logs (last_index i logs) (concat lss)"
    using Cons.prems(2) by (simp_all add: ordered_logs_append)
  have "invar (engine f1)" using apply_logs_outcome [OF Cons.prems(1) assms(1) o(1) a] by blast
  from Cons.IH [OF this o(2) apply_logs_versions [OF assms Cons.prems(1) o(1) a Cons.prems(3)]] a
  show ?case by (simp add: apply_batches_def applyBatch_def)
qed (simp add: apply_batches_def)

end

lemma raft_run_versions:
  assumes "raft_run B e pol w lss f"
  shows "versions_match (mem_contents (engine f)) (keyEpoch f)"
proof -
  have e: "mem_invar e" "mem_contents e = Map.empty" using assms mem_New by (auto simp: raft_run_def)
  have i: "mem_invar (engine (newFSM e pol w))" using e(1) by (simp add: newFSM_def)
  have v: "versions_match (mem_contents (engine (newFSM e pol w))) (keyEpoch (newFSM e pol w))"
    using e(2) by (simp add: newFSM_def versions_match_def epoch_at_def)
  show ?thesis
    using memt.apply_batches_versions [OF memory_sync_ok memory_never_fails i _ v] assms by (auto simp: raft_run_def)
qed

subsection \<open>Properties\<close>

text \<open>
  C38. Whatever names the entries of a tar stream have, unpacking writes only below the data directory: no
  path component is empty, a dot, two dots or contains a separator.
\<close>

theorem untar_confined:
  assumes "untarDir tes \<lparr>dirFiles = [], subDirs = []\<rparr> = Some d" "(p, c) \<in> set (dirFiles d)"
  shows "list_all valid_comp p"
proof -
  obtain d1 where "MkdirAll \<lparr>dirFiles = [], subDirs = []\<rparr> [] = Some d1" "untar_entries tes d1 = Some d"
    using assms(1) by (auto simp: untarDir_def split: bind_splits)
  moreover from this have "dirFiles d1 = []" by (auto simp: MkdirAll_def split: if_splits)
  ultimately show ?thesis using untar_entries_files [of tes d1 d p c] assms(2) clean_path_valid by auto
qed

theorem untar_confined_witness:
  "list_all valid_comp [''passwd'']
   \<and> untarDir [\<lparr>teName = ''../../passwd'', teIsDir = False, teData = [1]\<rparr>] \<lparr>dirFiles = [], subDirs = []\<rparr>
       = Some \<lparr>dirFiles = [([''passwd''], [1])], subDirs = [[]]\<rparr>"
proof -
  have u: "untarDir [\<lparr>teName = ''../../passwd'', teIsDir = False, teData = [1]\<rparr>] \<lparr>dirFiles = [], subDirs = []\<rparr>
      = Some \<lparr>dirFiles = [([''passwd''], [1])], subDirs = [[]]\<rparr>" by code_simp
  from untar_confined [OF u, of "[''passwd'']" "[1]"] u show ?thesis by simp
qed

text \<open>
  C11. A Raft snapshot carries a replica's state: restoring the stream of a snapshot on a replica with a
  fresh engine, of either layout, succeeds and gives the store, the applied index and, for
  every key the scan covers, the epochs of the replica the snapshot was taken from.
\<close>

theorem snapshot_restore_roundtrip:
  assumes "raft_run B e pol w lss f" "dump_ok (checkpoint_items (engine f))"
    "btree_ok B'" "e' = New B' \<or> e' = NewSharded B'"
  shows "\<exists>g. fsm_Restore (snapshot_Persist (fsm_Snapshot f)) (newFSM e' pol' w') = Inr g
    \<and> (\<forall>k. engine_Get (engine g) k = engine_Get (engine f) k)
    \<and> applied g = CurrentSequence (engine f)
    \<and> (\<forall>k. k \<noteq> [] \<and> scanned_key k \<longrightarrow> epoch_at (keyEpoch g) k = epoch_at (keyEpoch f) k)"
proof -
  note F = raft_run_facts(1) [OF assms(1)] and V = raft_run_versions [OF assms(1)]
  note C = checkpoint_items [OF F]
  have "file_tree (dirFiles (fsm_Snapshot f))"
    by (simp add: file_tree_def fsm_Snapshot_def checkpoint_dir_def valid_comp_def)
  from untar_tar [OF this] obtain d where d:
    "untarDir (snapshot_Persist (fsm_Snapshot f)) \<lparr>dirFiles = [], subDirs = []\<rparr> = Some d"
    "map_of (dirFiles d) [''dump''] = Some (CreateCheckpoint (engine f))"
    by (auto simp: snapshot_Persist_def fsm_Snapshot_def checkpoint_dir_def)
  from mem_Open [OF assms(4,3,2)] obtain e1 where e1:
    "engine_Open e' (Some (CreateCheckpoint (engine f))) = Inr e1" "mem_invar e1"
    "mem_contents e1 = mem_contents (engine f)" "CurrentSequence e1 = CurrentSequence (engine f)"
    by (auto simp: C)
  let ?g = "newFSM e' pol' w'\<lparr>engine := e1\<rparr>"
  have "\<And>u v. mem_contents (engine ?g) (versionKey u) = Some v \<Longrightarrow> decodeEpochRecord v \<noteq> None"
    using V e1(3) by (auto simp: versions_match_def)
  moreover have "mem_invar (engine ?g)" using e1(2) by simp
  ultimately obtain g where "fsm_open memory_engine ?g = Inr (eCurrentSequence memory_engine (engine ?g), g)"
    "engine g = e1" "applied g = eCurrentSequence memory_engine (engine ?g)"
    "\<And>u. u \<noteq> [] \<Longrightarrow> scanned_key u \<Longrightarrow> epoch_at (keyEpoch g) u = stored_version (mem_contents e1 (versionKey u))"
    using mem.fsm_open_rebuilds [of ?g] by auto
  with d e1 V F show ?thesis
    by (auto simp: fsm_Restore_def newFSM_def memory_engine_def engine_Get_contents versions_match_def)
qed

definition raft1 :: "data_map Engine dpxFSM" where
  "raft1 = apply_batches memory_engine raft0 [[log_of 1 (op_p [] OpSet [1] [7])]]"

theorem snapshot_restore_roundtrip_witness:
  "\<exists>g. fsm_Restore (snapshot_Persist (fsm_Snapshot raft1)) (newFSM (NewSharded alist_pkg) SyncNone False) = Inr g
    \<and> engine_Get (engine g) [1] = Inr [7] \<and> epoch_at (keyEpoch g) [1] = \<lparr>Epoch = 1, IsCredit = False\<rparr>"
proof -
  have "ordered_logs 0 (concat [[log_of 1 (op_p [] OpSet [1] [7])]])" by code_simp
  then have run: "raft_run alist_pkg (New alist_pkg) SyncNone False [[log_of 1 (op_p [] OpSet [1] [7])]] raft1"
    unfolding raft1_def by (rule raft0_run)
  have "length (checkpoint_items (engine raft1)) = 3" "distinct (map fst (checkpoint_items (engine raft1)))"
    "list_all (\<lambda>(k, v). length k < 20 \<and> length v < 20) (checkpoint_items (engine raft1))"
    by code_simp+
  then have ok: "dump_ok (checkpoint_items (engine raft1))" by (fastforce simp: dump_ok_def list_all_iff)
  have "engine_Get (engine raft1) [1] = Inr [7]" "epoch_at (keyEpoch raft1) [1] = \<lparr>Epoch = 1, IsCredit = False\<rparr>"
    "scanned_key [1]" by code_simp+
  with snapshot_restore_roundtrip [OF run ok btree_ok_alist_pkg, of "NewSharded alist_pkg" SyncNone False] show ?thesis by auto
qed

text \<open>
  On a replica of the sharded layout that already has data, \<open>Restore\<close> merges instead of replacing:
  keys the snapshot no longer has survive, with their values. The legacy layout replaces them.
\<close>

theorem restore_keeps_stale_keys:
  "let old = apply_batches memory_engine (newFSM (NewSharded alist_pkg) SyncNone False) [[log_of 1 (op_p [] OpSet [5] [5])]];
       old' = apply_batches memory_engine raft0 [[log_of 1 (op_p [] OpSet [5] [5])]];
       rc = snapshot_Persist (fsm_Snapshot raft1)
   in case fsm_Restore rc old of
        Inl err \<Rightarrow> False
      | Inr g \<Rightarrow> engine_Get (engine raft1) [5] = Inl ErrKeyNotFound \<and> engine_Get (engine g) [5] = Inr [5]
          \<and> (case fsm_Restore rc old' of Inl err \<Rightarrow> False | Inr g' \<Rightarrow> engine_Get (engine g') [5] = Inl ErrKeyNotFound)"
  by code_simp

end
