(* ===== verification/Backend.thy ===== *)
theory Backend
  imports Memory_Engine
begin

text \<open>
  What the engines over a storage library share: the errors of a library, as far as the adapters distinguish them, and
  what the adapters make of them.
\<close>

datatype lib_error = LibNotFound | LibFailed string

text \<open>An error of the library that the engine hands on as it is, and one where a missing key is translated.\<close>

definition lib_raw :: "lib_error \<Rightarrow> engine_error" where
  "lib_raw err = BackendError (case err of LibNotFound \<Rightarrow> ''not found'' | LibFailed s \<Rightarrow> s)"

definition lib_result :: "lib_error + 'a \<Rightarrow> engine_error + 'a" where
  "lib_result r = (case r of Inl err \<Rightarrow> Inl (if err = LibNotFound then ErrKeyNotFound else lib_raw err) | Inr v \<Rightarrow> Inr v)"

definition lib_fail :: "lib_error option \<Rightarrow> engine_error option" where
  "lib_fail r = map_option lib_raw r"

text \<open>Two facts on lists of numbered handles.\<close>

lemma fresh_handle: "map_of xs (Suc (sum_list (map fst xs))) = None"
proof -
  have "n \<le> sum_list (map fst xs)" if "n \<in> fst ` set xs" for n
    using that by (simp add: member_le_sum_list)
  then show ?thesis by (fastforce simp: map_of_eq_None_iff)
qed

lemma map_of_drop_key: "map_of (filter (\<lambda>e. fst e \<noteq> k) xs) = (map_of xs)(k := None)"
  by (induction xs) (auto simp: fun_eq_iff)

end
