(* ===== verification/Pebble.thy ===== *)
theory Pebble
  imports Backend
begin

text \<open>
  The Pebble engine of \<open>src/engine/pebble/pebble.go\<close>. The library \<open>github.com/cockroachdb/pebble\<close> is not part of
  the repository: it is the parameter \<open>pebPkg\<close>, a record of the operations the engine calls, over the types
  of its database, snapshot and iterator handles and of the directory it stores. \<open>pebble_ok\<close> states what its
  documentation promises. Timing is left out.
\<close>

subsection \<open>Merge operators\<close>

text \<open>
  \<open>pebble.Merger\<close> and \<open>pebble.ValueMerger\<close>: a merger is started with one operand and fed with newer and
  older ones.
\<close>

record 'm ValueMerger =
  vm_Merge :: "bytes \<Rightarrow> 'm"
  vm_MergeNewer :: "'m \<Rightarrow> bytes \<Rightarrow> 'm"
  vm_MergeOlder :: "'m \<Rightarrow> bytes \<Rightarrow> 'm"
  vm_Finish :: "'m \<Rightarrow> bytes"

record int64Merger =
  mergerSum :: int64

definition int64_Merge :: "bytes \<Rightarrow> int64Merger" where
  "int64_Merge value = \<lparr>mergerSum = (if length value \<ge> 8 then decodeUint64 value else 0)\<rparr>"

definition MergeNewer :: "int64Merger \<Rightarrow> bytes \<Rightarrow> int64Merger" where
  "MergeNewer m value = (if length value \<ge> 8 then m\<lparr>mergerSum := mergerSum m + decodeUint64 value\<rparr> else m)"

definition MergeOlder :: "int64Merger \<Rightarrow> bytes \<Rightarrow> int64Merger" where
  "MergeOlder m value = MergeNewer m value"

definition Finish :: "int64Merger \<Rightarrow> bytes" where
  "Finish m = le_put 8 (mergerSum m)"

definition Int64Merger :: "int64Merger ValueMerger" where
  "Int64Merger = \<lparr>vm_Merge = int64_Merge, vm_MergeNewer = MergeNewer, vm_MergeOlder = MergeOlder, vm_Finish = Finish\<rparr>"

text \<open>
  What the library may do with the operands of a key, oldest first: start anywhere and extend in both
  directions, and replace some neighbouring operands by their result beforehand, as a compaction does.
\<close>

inductive merges :: "'m ValueMerger \<Rightarrow> bytes list \<Rightarrow> 'm \<Rightarrow> bool" for M where
  m_start: "merges M [v] (vm_Merge M v)"
| m_newer: "merges M vs m \<Longrightarrow> merges M (vs @ [v]) (vm_MergeNewer M m v)"
| m_older: "merges M vs m \<Longrightarrow> merges M (v # vs) (vm_MergeOlder M m v)"

inductive merge_value :: "'m ValueMerger \<Rightarrow> bytes list \<Rightarrow> bytes \<Rightarrow> bool" for M where
  mv_finish: "merges M vs m \<Longrightarrow> merge_value M vs (vm_Finish M m)"
| mv_compact: "merges M us m \<Longrightarrow> merge_value M (xs @ [vm_Finish M m] @ ys) w \<Longrightarrow> merge_value M (xs @ us @ ys) w"

text \<open>What a key holds: a value that was set, or operands that were merged, the base value first.\<close>

datatype cell = Plain bytes | Merged "bytes list"

primrec cell_call :: "cell option \<Rightarrow> batch_call \<Rightarrow> cell option" where
  "cell_call c (BSet k v) = Some (Plain v)"
| "cell_call c (BDelete k) = None"
| "cell_call c (BMerge k d) = Some (Merged
     (case c of None \<Rightarrow> [d] | Some (Plain v) \<Rightarrow> [v, d] | Some (Merged vs) \<Rightarrow> vs @ [d]))"

definition cells_call :: "(bytes \<Rightarrow> cell option) \<Rightarrow> batch_call \<Rightarrow> bytes \<Rightarrow> cell option" where
  "cells_call m c = m(call_key c := cell_call (m (call_key c)) c)"

subsection \<open>The library\<close>

record ('db, 'sn, 'it, 'dir) pebble_pkg =
  pb_Open :: "'dir \<Rightarrow> lib_error + 'db"
  pb_Close :: "'db \<Rightarrow> lib_error option \<times> 'db"
  pb_Get :: "'db \<Rightarrow> bytes \<Rightarrow> lib_error + bytes"
  pb_Apply :: "'db \<Rightarrow> batch \<Rightarrow> bool \<Rightarrow> lib_error option \<times> 'db"
  pb_LogData :: "'db \<Rightarrow> lib_error option \<times> 'db"
  pb_Flush :: "'db \<Rightarrow> lib_error option \<times> 'db"
  pb_Compact :: "'db \<Rightarrow> lib_error option \<times> 'db"
  pb_Checkpoint :: "'db \<Rightarrow> lib_error + 'dir"
  pb_NewSnapshot :: "'db \<Rightarrow> 'sn \<times> 'db"
  pb_snapGet :: "'db \<Rightarrow> 'sn \<Rightarrow> bytes \<Rightarrow> lib_error + bytes"
  pb_snapClose :: "'db \<Rightarrow> 'sn \<Rightarrow> lib_error option \<times> 'db"
  pb_NewIter :: "'db \<Rightarrow> bytes \<Rightarrow> bytes \<Rightarrow> lib_error + 'it"
  pb_snapIter :: "'db \<Rightarrow> 'sn \<Rightarrow> bytes \<Rightarrow> bytes \<Rightarrow> lib_error + 'it"
  pi_First :: "'it \<Rightarrow> bool \<times> 'it"
  pi_Next :: "'it \<Rightarrow> bool \<times> 'it"
  pi_Prev :: "'it \<Rightarrow> bool \<times> 'it"
  pi_Valid :: "'it \<Rightarrow> bool"
  pi_Key :: "'it \<Rightarrow> bytes"
  pi_Value :: "'it \<Rightarrow> bytes"
  pb_cells :: "'db \<Rightarrow> bytes \<Rightarrow> cell option"
  pb_snaps :: "'db \<Rightarrow> 'sn \<Rightarrow> (bytes \<Rightarrow> cell option) option"
  pb_stored :: "'dir \<Rightarrow> bytes \<Rightarrow> cell option"
  pi_pairs :: "'it \<Rightarrow> data_map"
  pi_pos :: "'it \<Rightarrow> int"

text \<open>
  The documented behaviour, with the last five fields as the state that the documentation speaks of: the
  cells of the database, of its open snapshots and of a directory, and the pairs and position of an iterator.
  Reads and iterators of open handles do not fail; a write, a flush, a synchronisation or a checkpoint may, and
  then changes nothing. An iterator stands on a pair or is off the end it left by.
\<close>

definition cell_read :: "'m ValueMerger \<Rightarrow> cell option \<Rightarrow> lib_error + bytes \<Rightarrow> bool" where
  "cell_read M c r = (case c of None \<Rightarrow> r = Inl LibNotFound | Some (Plain v) \<Rightarrow> r = Inr v
     | Some (Merged vs) \<Rightarrow> (\<exists>w. merge_value M vs w \<and> r = Inr w))"

definition lists_reads :: "data_map \<Rightarrow> (bytes \<Rightarrow> lib_error + bytes) \<Rightarrow> bytes \<Rightarrow> bytes \<Rightarrow> bool" where
  "lists_reads xs rd lo hi \<longleftrightarrow> sorted_wrt (<) (map fst xs)
     \<and> (\<forall>k v. map_of xs k = Some v \<longleftrightarrow> in_range lo hi k \<and> rd k = Inr v)"

definition same_db :: "('db, 'sn, 'it, 'dir) pebble_pkg \<Rightarrow> 'db \<Rightarrow> 'db \<Rightarrow> bool" where
  "same_db P db db' \<longleftrightarrow> pb_cells P db' = pb_cells P db \<and> pb_snaps P db' = pb_snaps P db"

definition cursor_ok :: "('db, 'sn, 'it, 'dir) pebble_pkg \<Rightarrow> bool" where
  "cursor_ok P \<longleftrightarrow> (\<forall>it. (pi_Valid P it \<longleftrightarrow> 0 \<le> pi_pos P it \<and> pi_pos P it < int (length (pi_pairs P it)))
     \<and> (pi_Valid P it \<longrightarrow> (pi_Key P it, pi_Value P it) = pi_pairs P it ! nat (pi_pos P it))
     \<and> pi_pairs P (snd (pi_First P it)) = pi_pairs P it \<and> pi_pos P (snd (pi_First P it)) = 0
     \<and> fst (pi_First P it) = pi_Valid P (snd (pi_First P it))
     \<and> (pi_Valid P it \<longrightarrow> pi_pairs P (snd (pi_Next P it)) = pi_pairs P it
          \<and> pi_pos P (snd (pi_Next P it)) = pi_pos P it + 1 \<and> fst (pi_Next P it) = pi_Valid P (snd (pi_Next P it)))
     \<and> (pi_Valid P it \<longrightarrow> pi_pairs P (snd (pi_Prev P it)) = pi_pairs P it
          \<and> pi_pos P (snd (pi_Prev P it)) = pi_pos P it - 1 \<and> fst (pi_Prev P it) = pi_Valid P (snd (pi_Prev P it))))"

definition pebble_ok :: "'m ValueMerger \<Rightarrow> ('db, 'sn, 'it, 'dir) pebble_pkg \<Rightarrow> bool" where
  "pebble_ok M P \<longleftrightarrow> cursor_ok P
     \<and> (\<forall>db k. cell_read M (pb_cells P db k) (pb_Get P db k))
     \<and> (\<forall>db sn m k. pb_snaps P db sn = Some m \<longrightarrow> cell_read M (m k) (pb_snapGet P db sn k))
     \<and> (\<forall>db b sync db'. pb_Apply P db b sync = (None, db') \<longrightarrow>
          pb_cells P db' = foldl cells_call (pb_cells P db) b \<and> pb_snaps P db' = pb_snaps P db)
     \<and> (\<forall>db b sync err db'. pb_Apply P db b sync = (Some err, db') \<longrightarrow> same_db P db db')
     \<and> (\<forall>db. same_db P db (snd (pb_LogData P db)) \<and> same_db P db (snd (pb_Flush P db))
          \<and> same_db P db (snd (pb_Compact P db)))
     \<and> (\<forall>db sn db'. pb_NewSnapshot P db = (sn, db') \<longrightarrow> pb_snaps P db sn = None
          \<and> pb_cells P db' = pb_cells P db \<and> pb_snaps P db' = (pb_snaps P db)(sn \<mapsto> pb_cells P db))
     \<and> (\<forall>db sn. pb_cells P (snd (pb_snapClose P db sn)) = pb_cells P db
          \<and> pb_snaps P (snd (pb_snapClose P db sn)) = (pb_snaps P db)(sn := None))
     \<and> (\<forall>db lo hi. \<exists>it. pb_NewIter P db lo hi = Inr it \<and> lists_reads (pi_pairs P it) (pb_Get P db) lo hi)
     \<and> (\<forall>db sn lo hi. pb_snaps P db sn \<noteq> None \<longrightarrow>
          (\<exists>it. pb_snapIter P db sn lo hi = Inr it \<and> lists_reads (pi_pairs P it) (pb_snapGet P db sn) lo hi))
     \<and> (\<forall>db dir. pb_Checkpoint P db = Inr dir \<longrightarrow> pb_stored P dir = pb_cells P db)
     \<and> (\<forall>dir db. pb_Open P dir = Inr db \<longrightarrow> pb_cells P db = pb_stored P dir \<and> pb_snaps P db = Map.empty)"

subsection \<open>The engine\<close>

text \<open>
  An opened engine. \<open>sharedSnap\<close> is the pooled snapshot with its sequence number, \<open>retired\<close> the replaced
  ones whose closing is scheduled, \<open>stopClosed\<close> whether \<open>snapshotStop\<close> was closed.
\<close>

record ('db, 'sn, 'it, 'dir) pebbleEngine =
  pebPkg :: "('db, 'sn, 'it, 'dir) pebble_pkg"
  pebDB :: 'db
  sharedSnap :: "('sn \<times> uint64) option"
  retired :: "'sn list"
  stopClosed :: bool

definition pebble_Get :: "('db, 'sn, 'it, 'dir) pebbleEngine \<Rightarrow> bytes \<Rightarrow> engine_error + bytes" where
  "pebble_Get e key = lib_result (pb_Get (pebPkg e) (pebDB e) key)"

definition pebble_CurrentSequence :: "('db, 'sn, 'it, 'dir) pebbleEngine \<Rightarrow> uint64" where
  "pebble_CurrentSequence e =
     (case pb_Get (pebPkg e) (pebDB e) appliedKey of
        Inl err \<Rightarrow> 0 | Inr val \<Rightarrow> if length val < 8 then 0 else decodeUint64 val)"

definition refreshSharedSnapshot :: "('db, 'sn, 'it, 'dir) pebbleEngine \<Rightarrow> ('db, 'sn, 'it, 'dir) pebbleEngine" where
  "refreshSharedSnapshot e =
     (let seq = pebble_CurrentSequence e; (snap, db) = pb_NewSnapshot (pebPkg e) (pebDB e)
      in e\<lparr>pebDB := db, sharedSnap := Some (snap, seq),
           retired := (case sharedSnap e of None \<Rightarrow> retired e | Some old \<Rightarrow> retired e @ [fst old])\<rparr>)"

definition pebble_Open ::
  "('db, 'sn, 'it, 'dir) pebble_pkg \<Rightarrow> 'dir \<Rightarrow> lib_error + ('db, 'sn, 'it, 'dir) pebbleEngine" where
  "pebble_Open P dir =
     (case pb_Open P dir of
        Inl err \<Rightarrow> Inl err
      | Inr db \<Rightarrow> Inr (refreshSharedSnapshot
          \<lparr>pebPkg = P, pebDB = db, sharedSnap = None, retired = [], stopClosed = False\<rparr>))"

text \<open>The scheduled closing of a replaced snapshot.\<close>

definition close_retired :: "'sn \<Rightarrow> ('db, 'sn, 'it, 'dir) pebbleEngine \<Rightarrow> ('db, 'sn, 'it, 'dir) pebbleEngine" where
  "close_retired sn e = e\<lparr>pebDB := snd (pb_snapClose (pebPkg e) (pebDB e) sn), retired := remove1 sn (retired e)\<rparr>"

text \<open>\<open>Close\<close> of an opened engine; closing \<open>snapshotStop\<close> twice panics, which is \<open>None\<close>.\<close>

definition pebble_Close ::
  "('db, 'sn, 'it, 'dir) pebbleEngine \<Rightarrow> (lib_error option \<times> ('db, 'sn, 'it, 'dir) pebbleEngine) option" where
  "pebble_Close e =
     (if stopClosed e then None
      else let db1 = (case sharedSnap e of None \<Rightarrow> pebDB e | Some ss \<Rightarrow> snd (pb_snapClose (pebPkg e) (pebDB e) (fst ss)));
               (err, db2) = pb_Close (pebPkg e) db1
           in Some (err, e\<lparr>pebDB := db2, sharedSnap := None, stopClosed := True\<rparr>))"

record 'sn pebbleSnapshot =
  psSnap :: 'sn
  psSeq :: uint64

definition pebble_GetSnapshot ::
  "('db, 'sn, 'it, 'dir) pebbleEngine \<Rightarrow> 'sn pebbleSnapshot \<times> ('db, 'sn, 'it, 'dir) pebbleEngine" where
  "pebble_GetSnapshot e =
     (let seq = pebble_CurrentSequence e; (snap, db) = pb_NewSnapshot (pebPkg e) (pebDB e)
      in (\<lparr>psSnap = snap, psSeq = seq\<rparr>, e\<lparr>pebDB := db\<rparr>))"

text \<open>\<open>NewBatch\<close>, and the client's calls, which \<open>pebbleBatch\<close> hands on to the library's batch.\<close>

primrec pebbleBatch_call :: "batch \<Rightarrow> batch_call \<Rightarrow> batch" where
  "pebbleBatch_call b (BSet key value) = b @ [BSet key value]"
| "pebbleBatch_call b (BDelete key) = b @ [BDelete key]"
| "pebbleBatch_call b (BMerge key value) = b @ [BMerge key value]"

definition pebble_ApplyBatch ::
  "('db, 'sn, 'it, 'dir) pebbleEngine \<Rightarrow> batch \<Rightarrow> bool \<Rightarrow> engine_error option \<times> ('db, 'sn, 'it, 'dir) pebbleEngine" where
  "pebble_ApplyBatch e b sync =
     (let (err, db) = pb_Apply (pebPkg e) (pebDB e) (foldl pebbleBatch_call [] b) sync
      in (lib_fail err, e\<lparr>pebDB := db\<rparr>))"

definition pebble_Sync ::
  "('db, 'sn, 'it, 'dir) pebbleEngine \<Rightarrow> engine_error option \<times> ('db, 'sn, 'it, 'dir) pebbleEngine" where
  "pebble_Sync e = (let (err, db) = pb_LogData (pebPkg e) (pebDB e) in (lib_fail err, e\<lparr>pebDB := db\<rparr>))"

definition pebble_Compact ::
  "('db, 'sn, 'it, 'dir) pebbleEngine \<Rightarrow> lib_error option \<times> ('db, 'sn, 'it, 'dir) pebbleEngine" where
  "pebble_Compact e =
     (case pb_Flush (pebPkg e) (pebDB e) of
        (Some err, db) \<Rightarrow> (Some err, e\<lparr>pebDB := db\<rparr>)
      | (None, db) \<Rightarrow> (let (err, db') = pb_Compact (pebPkg e) db in (err, e\<lparr>pebDB := db'\<rparr>)))"

definition pebble_CreateCheckpoint ::
  "('db, 'sn, 'it, 'dir) pebbleEngine \<Rightarrow> (lib_error + 'dir) \<times> ('db, 'sn, 'it, 'dir) pebbleEngine" where
  "pebble_CreateCheckpoint e =
     (case pb_Flush (pebPkg e) (pebDB e) of
        (Some err, db) \<Rightarrow> (Inl err, e\<lparr>pebDB := db\<rparr>)
      | (None, db) \<Rightarrow> (pb_Checkpoint (pebPkg e) db, e\<lparr>pebDB := db\<rparr>))"

subsection \<open>Iterators\<close>

text \<open>\<open>pebbleConsumerIter\<close> steps over reserved keys. Its loops end only if the library's cursor does.\<close>

partial_function (option) skipReserved :: "('db, 'sn, 'it, 'dir) pebble_pkg \<Rightarrow> 'it \<Rightarrow> 'it option" where
  "skipReserved P it =
     (if pi_Valid P it \<and> isReserved (pi_Key P it) then skipReserved P (snd (pi_Next P it)) else Some it)"

partial_function (option) skipReservedBackward :: "('db, 'sn, 'it, 'dir) pebble_pkg \<Rightarrow> 'it \<Rightarrow> 'it option" where
  "skipReservedBackward P it =
     (if pi_Valid P it \<and> isReserved (pi_Key P it) then skipReservedBackward P (snd (pi_Prev P it)) else Some it)"

definition consumer_First :: "('db, 'sn, 'it, 'dir) pebble_pkg \<Rightarrow> 'it \<Rightarrow> (bool \<times> 'it) option" where
  "consumer_First P it =
     (case pi_First P it of (ok, it1) \<Rightarrow>
        if \<not> ok then Some (False, it1) else map_option (\<lambda>it2. (pi_Valid P it2, it2)) (skipReserved P it1))"

definition consumer_Next :: "('db, 'sn, 'it, 'dir) pebble_pkg \<Rightarrow> 'it \<Rightarrow> (bool \<times> 'it) option" where
  "consumer_Next P it =
     (case pi_Next P it of (ok, it1) \<Rightarrow>
        if \<not> ok then Some (False, it1) else map_option (\<lambda>it2. (pi_Valid P it2, it2)) (skipReserved P it1))"

definition consumer_Prev :: "('db, 'sn, 'it, 'dir) pebble_pkg \<Rightarrow> 'it \<Rightarrow> (bool \<times> 'it) option" where
  "consumer_Prev P it =
     (case pi_Prev P it of (ok, it1) \<Rightarrow>
        if \<not> ok then Some (False, it1) else map_option (\<lambda>it2. (pi_Valid P it2, it2)) (skipReservedBackward P it1))"

text \<open>
  What a client sees that goes through an iterator with \<open>First\<close> and \<open>Next\<close>, on the raw and on the consumer
  iterator.
\<close>

partial_function (option) raw_walk :: "('db, 'sn, 'it, 'dir) pebble_pkg \<Rightarrow> 'it \<Rightarrow> data_map option" where
  "raw_walk P it =
     (if pi_Valid P it then Option.bind (raw_walk P (snd (pi_Next P it))) (\<lambda>xs. Some ((pi_Key P it, pi_Value P it) # xs))
      else Some [])"

partial_function (option) consumer_walk :: "('db, 'sn, 'it, 'dir) pebble_pkg \<Rightarrow> 'it \<Rightarrow> data_map option" where
  "consumer_walk P it =
     (if pi_Valid P it
      then Option.bind (consumer_Next P it)
             (\<lambda>r. Option.bind (consumer_walk P (snd r)) (\<lambda>xs. Some ((pi_Key P it, pi_Value P it) # xs)))
      else Some [])"

text \<open>An iterator that could not be created is never valid.\<close>

definition pebble_RawIter :: "('db, 'sn, 'it, 'dir) pebbleEngine \<Rightarrow> bytes \<Rightarrow> bytes \<Rightarrow> memIter" where
  "pebble_RawIter e start stop =
     new_iter (case pb_NewIter (pebPkg e) (pebDB e) start stop of
        Inl err \<Rightarrow> []
      | Inr it \<Rightarrow> (case raw_walk (pebPkg e) (snd (pi_First (pebPkg e) it)) of None \<Rightarrow> [] | Some xs \<Rightarrow> xs))"

definition pebble_snap_NewIter ::
  "('db, 'sn, 'it, 'dir) pebbleEngine \<Rightarrow> 'sn pebbleSnapshot \<Rightarrow> bytes \<Rightarrow> bytes \<Rightarrow> memIter" where
  "pebble_snap_NewIter e s start stop =
     new_iter (case pb_snapIter (pebPkg e) (pebDB e) (psSnap s) start stop of
        Inl err \<Rightarrow> []
      | Inr it \<Rightarrow> (case Option.bind (consumer_First (pebPkg e) it) (\<lambda>r. consumer_walk (pebPkg e) (snd r)) of
                     None \<Rightarrow> [] | Some xs \<Rightarrow> xs))"

subsection \<open>Snapshots\<close>

definition pebble_snap_Get :: "('db, 'sn, 'it, 'dir) pebbleEngine \<Rightarrow> 'sn pebbleSnapshot \<Rightarrow> bytes \<Rightarrow> engine_error + bytes" where
  "pebble_snap_Get e s key = lib_result (pb_snapGet (pebPkg e) (pebDB e) (psSnap s) key)"

text \<open>A failed read comes with the zero record, which is what \<open>readSetSlice\<close> then uses.\<close>

definition pebble_snap_GetVersion :: "('db, 'sn, 'it, 'dir) pebbleEngine \<Rightarrow> 'sn pebbleSnapshot \<Rightarrow> bytes \<Rightarrow> EpochRecord" where
  "pebble_snap_GetVersion e s key =
     (case pb_snapGet (pebPkg e) (pebDB e) (psSnap s) (versionKey key) of
        Inl err \<Rightarrow> zero_epoch | Inr val \<Rightarrow> decodeEpochRecord0 val)"

definition pebble_snap_Close ::
  "('db, 'sn, 'it, 'dir) pebbleEngine \<Rightarrow> 'sn pebbleSnapshot \<Rightarrow> ('db, 'sn, 'it, 'dir) pebbleEngine" where
  "pebble_snap_Close e s = e\<lparr>pebDB := snd (pb_snapClose (pebPkg e) (pebDB e) (psSnap s))\<rparr>"

definition pebble_engine :: "(('db, 'sn, 'it, 'dir) pebbleEngine, 'sn pebbleSnapshot) StorageEngine" where
  "pebble_engine =
     \<lparr>eGet = pebble_Get, eGetSnapshot = pebble_GetSnapshot, eApplyBatch = pebble_ApplyBatch, eSync = pebble_Sync,
      eCurrentSequence = pebble_CurrentSequence, eRawIter = pebble_RawIter, sGet = pebble_snap_Get,
      sGetVersion = pebble_snap_GetVersion, sNewIter = pebble_snap_NewIter, sSequence = (\<lambda>e s. psSeq s),
      sClose = pebble_snap_Close\<rparr>"

end
