(* ===== verification/Engine_Serial.thy ===== *)
theory Engine_Serial
  imports Tx_Props
begin

text \<open>
  The direct proposer over any engine that keeps the contract: a snapshot taken in the middle of a history, whose
  handle may change the engine's state, and the validation of what was read from it. The engine theories
  instantiate these facts by their interpretations.
\<close>

lemma set_engine_simps [simp]:
  "engine (fsm (set_engine e d)) = e" "index (set_engine e d) = index d" "keyEpoch (fsm (set_engine e d)) = keyEpoch (fsm d)"
  by (simp_all add: set_engine_def)

lemma newDirectProposer_fields:
  assumes "newDirectProposer E e pol w = Inr d"
  shows "engine (fsm d) = e" "index d = 0"
  using assms by (auto simp: newDirectProposer_def fsm_open_def newFSM_def Let_def split: sum.splits)

context total_engine
begin

text \<open>The state of a proposer that was opened on an empty store and has applied some batches.\<close>

lemma fresh_run:
  assumes "invar e" "contents e = Map.empty" "newDirectProposer E e pol w = Inr d0"
    and "list_all (list_all clean) pss" "length (concat pss) < 2 ^ 64" "d = run_direct E d0 pss"
  shows "invar (engine (fsm d))" "unat (index d) = length (concat pss)"
    "version_bound (contents (engine (fsm d))) (index d)"
proof -
  note N = newDirectProposer_fields [OF assms(3)]
  have i: "invar (engine (fsm d0))" "version_bound (contents (engine (fsm d0))) (index d0)"
    "unat (index d0) + length (concat pss) < 2 ^ 64"
    using assms(1,2,5) N by (simp_all add: version_bound_def)
  note A = run_direct_advance [OF i(1) assms(4,6) i(3)]
  have R: "invar (engine (fsm d))" "index d = word_of_nat (length (concat pss))"
    "version_bound (contents (engine (fsm d))) (index d)"
    using A i(2) N by (blast, simp, blast)
  then show "invar (engine (fsm d))" "version_bound (contents (engine (fsm d))) (index d)" by blast+
  show "unat (index d) = length (concat pss)" using assms(5) by (simp add: R(2) unat_of_nat)
qed

lemma fresh_batch_serial:
  assumes "invar e" "contents e = Map.empty" "newDirectProposer E e pol w = Inr d0"
    and "list_all (list_all clean) (pss @ [ps])" "length (concat pss) < 2 ^ 64" "d = run_direct E d0 pss"
    and "applyBatchDirect E d ps = (rs, d')" "\<not> isReserved k" "readable k"
  shows "eGet E (engine (fsm d')) k = kv_result (serial_store (contents (engine (fsm d))) (zip ps rs) k)"
proof -
  have cl: "list_all (list_all clean) pss" "list_all clean ps" using assms(4) by simp_all
  note F = fresh_run [OF assms(1-3) cl(1) assms(5,6)]
  have "invar (engine (fsm d'))"
    using F(1) cl(2) assms(7) refl by (cases rule: applyBatchDirect_outcome)
  then show ?thesis using applyBatchDirect_serial [OF F(1) cl(2) assms(7,8)] assms(9) by (simp add: get)
qed

lemma fresh_reads_current:
  assumes "invar e" "contents e = Map.empty" "newDirectProposer E e pol w = Inr d00"
    and "d0 = run_direct E d00 pss0" "eGetSnapshot E (engine (fsm d0)) = (s, e1)"
    and "d = run_direct E (set_engine e1 d0) pss" "applyBatchDirect E d ps = (rs, d')"
    and "list_all (list_all clean) (pss0 @ pss @ [ps])" "length (concat (pss0 @ pss @ [ps])) < 2 ^ 64"
    and "j < length ps" "accepted (rs ! j)" "re \<in> set (ReadSet (ps ! j))" "\<not> rIsDebit re"
    and "\<not> isReserved (rKey re)" "rEpoch re = Epoch (sGetVersion E e1 s (rKey re))"
    and "readable (rKey re)"
  shows "kv_result (serial_store (contents (engine (fsm d))) (take j (zip ps rs)) (rKey re)) = sGet E e1 s (rKey re)"
proof -
  have cl: "list_all (list_all clean) pss0" "list_all (list_all clean) pss" "list_all clean ps"
    "length (concat pss0) < 2 ^ 64"
    using assms(8,9) by simp_all
  note F = fresh_run [OF assms(1-3) cl(1,4) assms(4)]
  note S = snapshot [OF F(1) assms(5)]
  have i: "invar (engine (fsm (set_engine e1 d0)))"
    "version_bound (contents (engine (fsm (set_engine e1 d0)))) (index (set_engine e1 d0))"
    "unat (index (set_engine e1 d0)) + length (concat pss) + length ps < 2 ^ 64"
    using S F assms(9) by simp_all
  have v: "rEpoch re = Epoch (stored_version (contents (engine (fsm (set_engine e1 d0))) (versionKey (rKey re))))"
    using S assms(15) by (simp add: snap_version)
  from accepted_read_current [OF i(1,2) cl(2) assms(6) cl(3) assms(7) i(3) assms(10-14) v] S assms(16)
  show ?thesis by (simp add: snap_get)
qed

end

end
