(* ===== verification/Engine_Agree.thy ===== *)
theory Engine_Agree
  imports Engine_Serial
begin

text \<open>
  The direct proposer over different engines. Validation reads only the proposer's own epochs, so what it decides and the
  batches it hands to the engine do not depend on the engine; and every engine with the contract makes the same
  store of the same batches. The reference is a proposer over an abstract store that never fails.
\<close>

subsection \<open>The reference\<close>

type_synonym abs_proposer = "unit directProposer \<times> kv"

definition abs_apply :: "abs_proposer \<Rightarrow> Proposal list \<Rightarrow> ApplyResult list \<times> abs_proposer" where
  "abs_apply a ps = (case build_batch (fst a) ps of (rs, d, b, hw) \<Rightarrow> (rs, d, kv_apply (snd a) b))"

primrec abs_results :: "abs_proposer \<Rightarrow> Proposal list list \<Rightarrow> ApplyResult list list" where
  "abs_results a [] = []"
| "abs_results a (ps # pss) = (case abs_apply a ps of (rs, a') \<Rightarrow> rs # abs_results a' pss)"

primrec abs_run :: "abs_proposer \<Rightarrow> Proposal list list \<Rightarrow> abs_proposer" where
  "abs_run a [] = a"
| "abs_run a (ps # pss) = abs_run (snd (abs_apply a ps)) pss"

definition abs_start :: abs_proposer where
  "abs_start = (\<lparr>fsm = newFSM () SyncNone False, index = 0, closed = False, ConflictTotal = 0\<rparr>, Map.empty)"

text \<open>The answers of a proposer to a sequence of batches, and an answer that reports a failure of the engine.\<close>

primrec run_results :: "('e, 's) StorageEngine \<Rightarrow> 'e directProposer \<Rightarrow> Proposal list list \<Rightarrow> ApplyResult list list" where
  "run_results E d [] = []"
| "run_results E d (ps # pss) = (case applyBatchDirect E d ps of (rs, d') \<Rightarrow> rs # run_results E d' pss)"

definition engine_failed :: "ApplyResult \<Rightarrow> bool" where
  "engine_failed r \<longleftrightarrow> (case Err r of Some (EngineFailed err) \<Rightarrow> True | _ \<Rightarrow> False)"

definition undisturbed :: "ApplyResult list list \<Rightarrow> bool" where
  "undisturbed rss \<longleftrightarrow> list_all (list_all (\<lambda>r. \<not> engine_failed r)) rss"

lemma engine_failed_simps [simp]:
  "\<not> engine_failed result_ok" "\<not> engine_failed result_conflict" "engine_failed (fail_result err result_ok)"
  by (simp_all add: engine_failed_def result_ok_def result_conflict_def fail_result_def result_err_def)

subsection \<open>Validation does not depend on the engine\<close>

definition same_proposer :: "'e directProposer \<Rightarrow> 'f directProposer \<Rightarrow> bool" where
  "same_proposer d a \<longleftrightarrow> index d = index a \<and> keyEpoch (fsm d) = keyEpoch (fsm a)"

lemma stack_entry_same:
  assumes "same_proposer d a" "stack_entry p d st b hw = (r, d1, st1, b1, hw1)"
  shows "\<exists>a1. stack_entry p a st b hw = (r, a1, st1, b1, hw1) \<and> same_proposer d1 a1"
  using assms by (auto simp: same_proposer_def stack_entry_def Let_def split: if_splits prod.splits)

lemma map_entry_same:
  assumes "same_proposer d a" "map_entry p d sh b hw = (r, d1, sh1, b1, hw1)"
  shows "\<exists>a1. map_entry p a sh b hw = (r, a1, sh1, b1, hw1) \<and> same_proposer d1 a1"
  using assms by (auto simp: same_proposer_def map_entry_def Let_def split: if_splits prod.splits option.splits)

lemma stack_entries_same:
  assumes "same_proposer d a" "stack_entries ps d st b hw = (rs, d1, b1, hw1)"
  shows "\<exists>a1. stack_entries ps a st b hw = (rs, a1, b1, hw1) \<and> same_proposer d1 a1"
  using assms
proof (induction ps arbitrary: d a st b hw rs)
  case (Cons p ps)
  obtain r d2 st2 b2 hw2 where e: "stack_entry p d st b hw = (r, d2, st2, b2, hw2)" by (cases "stack_entry p d st b hw")
  obtain rs' where es: "stack_entries ps d2 st2 b2 hw2 = (rs', d1, b1, hw1)" "rs = r # rs'"
    using Cons.prems(2) by (auto simp: e Let_def split: prod.splits)
  from stack_entry_same [OF Cons.prems(1) e] obtain a2 where
    a2: "stack_entry p a st b hw = (r, a2, st2, b2, hw2)" "same_proposer d2 a2" by blast
  from Cons.IH [OF a2(2) es(1)] show ?case by (auto simp: a2(1) es(2) Let_def)
qed simp

lemma map_entries_same:
  assumes "same_proposer d a" "map_entries ps d sh b hw = (rs, d1, b1, hw1)"
  shows "\<exists>a1. map_entries ps a sh b hw = (rs, a1, b1, hw1) \<and> same_proposer d1 a1"
  using assms
proof (induction ps arbitrary: d a sh b hw rs)
  case (Cons p ps)
  obtain r d2 sh2 b2 hw2 where e: "map_entry p d sh b hw = (r, d2, sh2, b2, hw2)" by (cases "map_entry p d sh b hw")
  obtain rs' where es: "map_entries ps d2 sh2 b2 hw2 = (rs', d1, b1, hw1)" "rs = r # rs'"
    using Cons.prems(2) by (auto simp: e Let_def split: prod.splits)
  from map_entry_same [OF Cons.prems(1) e] obtain a2 where
    a2: "map_entry p a sh b hw = (r, a2, sh2, b2, hw2)" "same_proposer d2 a2" by blast
  from Cons.IH [OF a2(2) es(1)] show ?case by (auto simp: a2(1) es(2) Let_def)
qed simp

lemma build_batch_same:
  assumes "same_proposer d a" "build_batch d ps = (rs, d1, b, hw)"
  shows "\<exists>a1. build_batch a ps = (rs, a1, b, hw) \<and> same_proposer d1 a1"
  using stack_entries_same [OF assms(1)] map_entries_same [OF assms(1)] assms(2)
  by (auto simp: build_batch_def split: if_splits)

subsection \<open>Every engine follows the reference\<close>

lemma replay_batch_none: "\<forall>pr \<in> set prs. \<not> accepted (snd pr) \<Longrightarrow> replay_batch prs i = []"
  by (induction prs arbitrary: i) auto

lemma applyBatchDirect_never_failed:
  assumes "\<And>b sync. fst (eApplyBatch E (engine (fsm d)) b sync) = None" "list_all clean ps"
  shows "list_all (\<lambda>r. \<not> engine_failed r) (fst (applyBatchDirect E d ps))"
proof -
  obtain rs0 d1 b hw where bb: "build_batch d ps = (rs0, d1, b, hw)" by (cases "build_batch d ps")
  have B: "set rs0 \<subseteq> {result_ok, result_conflict}" "engine (fsm d1) = engine (fsm d)"
    using build_batch_builds [OF assms(2), of d] by (auto simp: bb builds_def)
  obtain e1 where "eApplyBatch E (engine (fsm d)) b (syncPolicy (fsm d1) = SyncFull) = (None, e1)"
    using assms(1) by (metis prod.collapse)
  then have "fst (applyBatchDirect E d ps) = rs0"
    by (simp add: applyBatchDirect_def bb commit_batch_def B(2) Let_def)
  then show ?thesis using B(1) by (auto simp: list_all_iff)
qed

context total_engine
begin

text \<open>One batch: unless the engine failed, answers and store are those of the reference.\<close>

lemma batch_follows:
  assumes inv: "invar (engine (fsm d))" and cl: "list_all clean ps" and same: "same_proposer d (fst a)"
    and m: "contents (engine (fsm d)) = snd a" and run: "applyBatchDirect E d ps = (rs, d')"
    and ok: "list_all (\<lambda>r. \<not> engine_failed r) rs"
  shows "fst (abs_apply a ps) = rs" "same_proposer d' (fst (snd (abs_apply a ps)))"
    "contents (engine (fsm d')) = snd (snd (abs_apply a ps))" "invar (engine (fsm d'))"
proof -
  obtain rs0 d1 b hw where bb: "build_batch d ps = (rs0, d1, b, hw)" by (cases "build_batch d ps")
  from build_batch_same [OF same bb] obtain a1 where a1: "build_batch (fst a) ps = (rs0, a1, b, hw)" "same_proposer d1 a1" by blast
  have B: "set rs0 \<subseteq> {result_ok, result_conflict}" "b = replay_batch (zip ps rs0) (index d)" "length rs0 = length ps"
    "engine (fsm d1) = engine (fsm d)" "hw \<longleftrightarrow> result_ok \<in> set rs0"
    using build_batch_builds [OF cl, of d] by (auto simp: bb builds_def)
  have A: "abs_apply a ps = (rs0, a1, kv_apply (snd a) b)" by (simp add: abs_apply_def a1(1))
  have "rs = rs0 \<and> same_proposer d' a1 \<and> contents (engine (fsm d')) = kv_apply (snd a) b \<and> invar (engine (fsm d'))"
  proof (cases hw)
    case False
    then have "\<forall>pr \<in> set (zip ps rs0). \<not> accepted (snd pr)" using B(1,5) by (auto dest!: set_zip_rightD)
    then have "b = []" unfolding B(2) by (rule replay_batch_none)
    then show ?thesis using run bb False a1(2) m inv B(4) by (auto simp: applyBatchDirect_def Let_def same_proposer_def)
  next
    case True
    obtain r e1 where ab: "eApplyBatch E (engine (fsm d)) b (syncPolicy (fsm d1) = SyncFull) = (r, e1)" by fastforce
    note C = commit_contents [OF inv ab]
    show ?thesis
    proof (cases r)
      case None
      have "rs = rs0" "engine (fsm d') = (if syncPolicy (fsm d1) = SyncBatch then snd (eSync E e1) else e1)"
        "keyEpoch (fsm d') = keyEpoch (fsm d1)" "index d' = index d1"
        using run bb True ab None B(4) by (auto simp: applyBatchDirect_def commit_batch_def Let_def)
      then show ?thesis using C sync_contents [OF C(1)] None a1(2) m by (auto simp: same_proposer_def)
    next
      case (Some err)
      have "rs = map (fail_result err) rs0"
        using run bb True ab Some B(4) by (auto simp: applyBatchDirect_def commit_batch_def Let_def)
      moreover have "result_ok \<in> set rs0" using True B(5) by simp
      ultimately show ?thesis using ok by (force simp: list_all_iff)
    qed
  qed
  then show "fst (abs_apply a ps) = rs" "same_proposer d' (fst (snd (abs_apply a ps)))"
    "contents (engine (fsm d')) = snd (snd (abs_apply a ps))" "invar (engine (fsm d'))" by (simp_all add: A)
qed

lemma run_follows:
  assumes "invar (engine (fsm d))" "list_all (list_all clean) pss" "same_proposer d (fst a)" "contents (engine (fsm d)) = snd a"
    and "undisturbed (run_results E d pss)"
  shows "run_results E d pss = abs_results a pss \<and> invar (engine (fsm (run_direct E d pss)))
    \<and> contents (engine (fsm (run_direct E d pss))) = snd (abs_run a pss)"
  using assms
proof (induction pss arbitrary: d a)
  case (Cons ps pss)
  obtain rs d' where run: "applyBatchDirect E d ps = (rs, d')" by fastforce
  have ok: "list_all (\<lambda>r. \<not> engine_failed r) rs" "undisturbed (run_results E d' pss)"
    using Cons.prems(5) by (simp_all add: run undisturbed_def)
  have cl: "list_all clean ps" "list_all (list_all clean) pss" using Cons.prems(2) by simp_all
  note F = batch_follows [OF Cons.prems(1) cl(1) Cons.prems(3,4) run ok(1)]
  from Cons.IH [OF F(4) cl(2) F(2,3) ok(2)] F(1) show ?case by (simp add: run run_direct_def case_prod_beta)
qed (simp add: run_direct_def)

text \<open>An engine that never fails on a batch leaves every run undisturbed.\<close>

lemma reliable_undisturbed:
  assumes "invar (engine (fsm d))" "list_all (list_all clean) pss" "\<And>e b sync. invar e \<Longrightarrow> fst (eApplyBatch E e b sync) = None"
  shows "undisturbed (run_results E d pss)"
  using assms(1,2)
proof (induction pss arbitrary: d)
  case (Cons ps pss)
  obtain rs d' where run: "applyBatchDirect E d ps = (rs, d')" by fastforce
  have cl: "list_all clean ps" "list_all (list_all clean) pss" using Cons.prems(2) by simp_all
  have "invar (engine (fsm d'))" using Cons.prems(1) cl(1) run refl by (cases rule: applyBatchDirect_outcome)
  from Cons.IH [OF this cl(2)] applyBatchDirect_never_failed [OF assms(3) [OF Cons.prems(1)] cl(1)] show ?case
    by (simp add: run undisturbed_def)
qed (simp add: undisturbed_def)

end

text \<open>Engines with the whole contract: a proposer opened on an empty store follows the reference from its start.\<close>

locale full_engine = scanning_engine + total_engine
begin

lemma opened_follows:
  assumes "invar e" "contents e = Map.empty" "newDirectProposer E e pol w = Inr d" "list_all (list_all clean) pss"
    and "undisturbed (run_results E d pss)"
  shows "run_results E d pss = abs_results abs_start pss"
    "readable k \<Longrightarrow> eGet E (engine (fsm (run_direct E d pss))) k = kv_result (snd (abs_run abs_start pss) k)"
proof -
  have d: "engine (fsm d) = e" "same_proposer d (fst abs_start)"
    using newDirectProposer_fresh [OF assms(1,2), of pol w] assms(3)
    by (auto simp: same_proposer_def abs_start_def newFSM_def)
  have F: "run_results E d pss = abs_results abs_start pss \<and> invar (engine (fsm (run_direct E d pss)))
    \<and> contents (engine (fsm (run_direct E d pss))) = snd (abs_run abs_start pss)"
    by (rule run_follows) (use d assms in \<open>simp_all add: abs_start_def\<close>)
  then show "run_results E d pss = abs_results abs_start pss" by blast
  show "eGet E (engine (fsm (run_direct E d pss))) k = kv_result (snd (abs_run abs_start pss) k)" if "readable k"
    using F get [of "engine (fsm (run_direct E d pss))" k] that by simp
qed

lemma opened_undisturbed:
  assumes "invar e" "contents e = Map.empty" "newDirectProposer E e pol w = Inr d" "list_all (list_all clean) pss"
    and "\<And>e b sync. invar e \<Longrightarrow> fst (eApplyBatch E e b sync) = None"
  shows "undisturbed (run_results E d pss)"
  using reliable_undisturbed [OF _ assms(4,5), of d] newDirectProposer_fresh [OF assms(1,2), of pol w] assms(1,3) by auto

end

interpretation memf: full_engine memory_engine mem_invar mem_contents mem_live mem_view "\<lambda>_ _. True" "\<lambda>_. True"
  by unfold_locales

end
