(* ===== verification/Pebble_Props.thy ===== *)
theory Pebble_Props
  imports Pebble Engine_Agree
begin

text \<open>
  The Pebble engine keeps the contract of \<open>Engine_Spec\<close>, given the documented behaviour of the library: the merge
  operator computes the sum whatever the library does with its operands, the consumer iterator ends and behaves as a
  cursor over the user keys, and the pooled snapshots never mix with those of clients.
\<close>

subsection \<open>The merge operator\<close>

lemma merges_sum: "merges Int64Merger vs m \<Longrightarrow> mergerSum m = sum_list (map decodeInt64 vs)"
  by (induction rule: merges.induct)
    (auto simp: Int64Merger_def int64_Merge_def MergeNewer_def MergeOlder_def decodeInt64_def decodeUint64_def)

lemma Finish_decode: "decodeInt64 (Finish m) = mergerSum m"
  by (simp add: Finish_def decodeInt64_def)

lemma merge_value_sum: "merge_value Int64Merger vs w \<Longrightarrow> w = encodeInt64 (sum_list (map decodeInt64 vs))"
proof (induction rule: merge_value.induct)
  case (mv_finish vs m)
  then show ?case by (simp add: merges_sum [symmetric] Int64Merger_def Finish_def encodeInt64_def)
next
  case (mv_compact us m xs ys w)
  have "decodeInt64 (vm_Finish Int64Merger m) = sum_list (map decodeInt64 us)"
    using merges_sum [OF mv_compact(1)] by (simp add: Int64Merger_def Finish_decode)
  with mv_compact.IH show ?case by simp
qed

primrec cell_val :: "cell \<Rightarrow> bytes" where
  "cell_val (Plain v) = v"
| "cell_val (Merged vs) = encodeInt64 (sum_list (map decodeInt64 vs))"

definition cells_kv :: "(bytes \<Rightarrow> cell option) \<Rightarrow> kv" where
  "cells_kv m = (\<lambda>k. map_option cell_val (m k))"

lemma cell_val_call: "map_option cell_val (cell_call c call) = call_effect (map_option cell_val c) call"
  by (cases call) (auto simp: mergeInt64_def split: option.splits cell.splits)

lemma cells_kv_call: "cells_kv (cells_call m c) = kv_call (cells_kv m) c"
  by (auto simp: cells_kv_def cells_call_def kv_call_def cell_val_call)

lemma cells_kv_apply: "cells_kv (foldl cells_call m b) = kv_apply (cells_kv m) b"
  by (induction b arbitrary: m) (simp_all add: cells_kv_call)

lemma cell_read_value:
  "cell_read Int64Merger c r \<Longrightarrow> r = (case map_option cell_val c of None \<Rightarrow> Inl LibNotFound | Some v \<Rightarrow> Inr v)"
  by (auto simp: cell_read_def split: option.splits cell.splits dest: merge_value_sum)

lemma lists_reads_kv:
  assumes "lists_reads xs rd lo hi" "\<And>k. cell_read Int64Merger (m k) (rd k)"
  shows "lists_kv xs (restrict_kv (cells_kv m) (in_range lo hi))"
proof -
  have "rd k = Inr v \<longleftrightarrow> cells_kv m k = Some v" for k v
    using cell_read_value [OF assms(2), of k] by (auto simp: cells_kv_def split: option.splits)
  then have "map_of xs k = restrict_kv (cells_kv m) (in_range lo hi) k" for k
    using assms(1) unfolding lists_reads_def restrict_kv_def by (metis not_None_eq)
  then show ?thesis using assms(1) by (auto simp: lists_kv_def lists_reads_def)
qed

subsection \<open>Iterators\<close>

lemma cursor_okD:
  assumes "cursor_ok P"
  shows "pi_Valid P it \<longleftrightarrow> 0 \<le> pi_pos P it \<and> pi_pos P it < int (length (pi_pairs P it))"
    and "pi_Valid P it \<Longrightarrow> pi_Key P it = fst (pi_pairs P it ! nat (pi_pos P it))"
    and "pi_Valid P it \<Longrightarrow> pi_Value P it = snd (pi_pairs P it ! nat (pi_pos P it))"
    and "pi_pairs P (snd (pi_First P it)) = pi_pairs P it" "pi_pos P (snd (pi_First P it)) = 0"
    and "fst (pi_First P it) = pi_Valid P (snd (pi_First P it))"
    and "pi_Valid P it \<Longrightarrow> pi_pairs P (snd (pi_Next P it)) = pi_pairs P it"
    and "pi_Valid P it \<Longrightarrow> pi_pos P (snd (pi_Next P it)) = pi_pos P it + 1"
    and "pi_Valid P it \<Longrightarrow> fst (pi_Next P it) = pi_Valid P (snd (pi_Next P it))"
    and "pi_Valid P it \<Longrightarrow> pi_pairs P (snd (pi_Prev P it)) = pi_pairs P it"
    and "pi_Valid P it \<Longrightarrow> pi_pos P (snd (pi_Prev P it)) = pi_pos P it - 1"
    and "pi_Valid P it \<Longrightarrow> fst (pi_Prev P it) = pi_Valid P (snd (pi_Prev P it))"
  using assms unfolding cursor_ok_def by (metis fst_conv snd_conv)+

text \<open>The reserved pairs that start a list.\<close>

abbreviation reserved_run :: "data_map \<Rightarrow> data_map" where
  "reserved_run xs \<equiv> takeWhile (\<lambda>x. isReserved (fst x)) xs"

lemma skipReserved_returns:
  assumes "cursor_ok P" "pi_pos P it = int p" "p \<le> length (pi_pairs P it)"
  shows "\<exists>it'. skipReserved P it = Some it' \<and> pi_pairs P it' = pi_pairs P it
    \<and> pi_pos P it' = int (p + length (reserved_run (drop p (pi_pairs P it))))"
  using assms(2,3)
proof (induction "length (pi_pairs P it) - p" arbitrary: it p)
  case 0
  then have "\<not> pi_Valid P it" using cursor_okD(1) [OF assms(1), of it] by simp
  with 0 show ?case by (subst skipReserved.simps) simp
next
  case (Suc n)
  let ?xs = "pi_pairs P it"
  have p: "p < length ?xs" using Suc.hyps(2) by simp
  then have v: "pi_Valid P it" using cursor_okD(1) [OF assms(1), of it] Suc.prems by simp
  have d: "drop p ?xs = ?xs ! p # drop (Suc p) ?xs" using p by (simp add: Cons_nth_drop_Suc)
  have k: "pi_Key P it = fst (?xs ! p)" using cursor_okD(2) [OF assms(1) v] Suc.prems by simp
  show ?case
  proof (cases "isReserved (pi_Key P it)")
    case True
    let ?it1 = "snd (pi_Next P it)"
    have it1: "pi_pairs P ?it1 = ?xs" "pi_pos P ?it1 = int (Suc p)"
      using cursor_okD(7,8) [OF assms(1) v] Suc.prems by simp_all
    have "n = length (pi_pairs P ?it1) - Suc p" "Suc p \<le> length (pi_pairs P ?it1)"
      using Suc.hyps(2) p it1 by simp_all
    from Suc.hyps(1) [OF this(1) it1(2) this(2)] it1(1) True v k d show ?thesis
      by (subst skipReserved.simps) simp
  next
    case False
    with k d Suc.prems show ?thesis by (subst skipReserved.simps) simp
  qed
qed

lemma skipReservedBackward_returns:
  assumes "cursor_ok P" "pi_pos P it = int p - 1" "p \<le> length (pi_pairs P it)"
  shows "\<exists>it'. skipReservedBackward P it = Some it' \<and> pi_pairs P it' = pi_pairs P it
    \<and> pi_pos P it' = int (p - length (reserved_run (rev (take p (pi_pairs P it))))) - 1"
  using assms(2,3)
proof (induction p arbitrary: it)
  case 0
  then have "\<not> pi_Valid P it" using cursor_okD(1) [OF assms(1), of it] by simp
  with 0 show ?case by (subst skipReservedBackward.simps) simp
next
  case (Suc p)
  let ?xs = "pi_pairs P it"
  have v: "pi_Valid P it" using cursor_okD(1) [OF assms(1), of it] Suc.prems by simp
  have d: "rev (take (Suc p) ?xs) = ?xs ! p # rev (take p ?xs)" using Suc.prems by (simp add: take_Suc_conv_app_nth)
  have k: "pi_Key P it = fst (?xs ! p)" using cursor_okD(2) [OF assms(1) v] Suc.prems by simp
  show ?case
  proof (cases "isReserved (pi_Key P it)")
    case True
    let ?it1 = "snd (pi_Prev P it)"
    have "pi_pairs P ?it1 = ?xs" "pi_pos P ?it1 = int p - 1"
      using cursor_okD(10,11) [OF assms(1) v] Suc.prems by simp_all
    with Suc.IH [of ?it1] Suc.prems(2) True v k d show ?thesis
      by (subst skipReservedBackward.simps) auto
  next
    case False
    with k d Suc.prems show ?thesis by (subst skipReservedBackward.simps) simp
  qed
qed

lemma drop_reserved_run: "drop_reserved (reserved_run xs) = []"
  by (auto simp: drop_reserved_def filter_empty_conv case_prod_beta dest: set_takeWhileD)

lemma drop_reserved_append [simp]: "drop_reserved (xs @ ys) = drop_reserved xs @ drop_reserved ys"
  by (simp add: drop_reserved_def)

lemma drop_reserved_simps [simp]:
  "drop_reserved [] = []" "drop_reserved (x # xs) = (if isReserved (fst x) then drop_reserved xs else x # drop_reserved xs)"
  by (auto simp: drop_reserved_def case_prod_beta)

text \<open>The end of the run of reserved pairs from a position on.\<close>

definition next_user :: "data_map \<Rightarrow> nat \<Rightarrow> nat" where
  "next_user xs p = p + length (reserved_run (drop p xs))"

lemma next_user_le: "p \<le> length xs \<Longrightarrow> next_user xs p \<le> length xs"
  using length_takeWhile_le [of "\<lambda>x. isReserved (fst x)" "drop p xs"] by (simp add: next_user_def)

lemma next_user_unreserved: "p \<le> length xs \<Longrightarrow> next_user xs p < length xs \<Longrightarrow> \<not> isReserved (fst (xs ! next_user xs p))"
  using nth_length_takeWhile [of "\<lambda>x. isReserved (fst x)" "drop p xs"] by (simp add: next_user_def)

lemma take_next_user: "p \<le> length xs \<Longrightarrow> drop_reserved (take (next_user xs p) xs) = drop_reserved (take p xs)"
proof -
  assume p: "p \<le> length xs"
  have "take (next_user xs p) xs = take p xs @ take (length (reserved_run (drop p xs))) (drop p xs)"
    by (simp add: next_user_def take_add)
  also have "take (length (reserved_run (drop p xs))) (drop p xs) = reserved_run (drop p xs)"
    by (metis takeWhile_eq_take)
  finally show ?thesis by (simp add: drop_reserved_run)
qed

lemma drop_next_user: "p \<le> length xs \<Longrightarrow> drop_reserved (drop (next_user xs p) xs) = drop_reserved (drop p xs)"
proof -
  have "drop p xs = reserved_run (drop p xs) @ dropWhile (\<lambda>x. isReserved (fst x)) (drop p xs)" by simp
  moreover have "drop (next_user xs p) xs = dropWhile (\<lambda>x. isReserved (fst x)) (drop p xs)"
    by (metis add.commute drop_drop dropWhile_eq_drop next_user_def)
  ultimately show ?thesis by (metis append_Nil drop_reserved_append drop_reserved_run)
qed

lemma skip_next_user:
  assumes "cursor_ok P" "pi_pos P it = int p" "p \<le> length (pi_pairs P it)"
  obtains it' where "skipReserved P it = Some it'" "pi_pairs P it' = pi_pairs P it"
    "pi_pos P it' = int (next_user (pi_pairs P it) p)"
  using skipReserved_returns [OF assms] by (auto simp: next_user_def)

text \<open>
  The consumer iterator as a cursor over the user pairs: it stands on the user pair that the cursor stands on,
  or both have left by the same end.
\<close>

definition consumer_sim :: "('db, 'sn, 'it, 'dir) pebble_pkg \<Rightarrow> 'it \<Rightarrow> memIter \<Rightarrow> bool" where
  "consumer_sim P it mi \<longleftrightarrow> it_pairs mi = drop_reserved (pi_pairs P it)
     \<and> (pi_pos P it = -1 \<and> it_pos mi = -1
        \<or> (\<exists>p \<le> length (pi_pairs P it). pi_pos P it = int p
             \<and> (p < length (pi_pairs P it) \<longrightarrow> \<not> isReserved (fst (pi_pairs P it ! p)))
             \<and> it_pos mi = int (length (drop_reserved (take p (pi_pairs P it))))))"

lemma user_pair_at:
  assumes "p < length xs" "\<not> isReserved (fst (xs ! p))"
  shows "length (drop_reserved (take p xs)) < length (drop_reserved xs)"
    "drop_reserved xs ! length (drop_reserved (take p xs)) = xs ! p"
    "length (drop_reserved (take (Suc p) xs)) = Suc (length (drop_reserved (take p xs)))"
proof -
  have "xs = take p xs @ xs ! p # drop (Suc p) xs" using assms(1) by (rule id_take_nth_drop)
  then have e: "drop_reserved xs = drop_reserved (take p xs) @ xs ! p # drop_reserved (drop (Suc p) xs)"
    using assms(2) by (metis drop_reserved_append drop_reserved_simps(2))
  then show "length (drop_reserved (take p xs)) < length (drop_reserved xs)"
    "drop_reserved xs ! length (drop_reserved (take p xs)) = xs ! p" by simp_all
  show "length (drop_reserved (take (Suc p) xs)) = Suc (length (drop_reserved (take p xs)))"
    using assms by (simp add: take_Suc_conv_app_nth)
qed

lemma consumer_sim_valid:
  assumes "cursor_ok P" "consumer_sim P it mi"
  shows "pi_Valid P it = it_Valid mi"
    "pi_Valid P it \<Longrightarrow> pi_Key P it = it_Key mi \<and> pi_Value P it = it_Value mi"
proof -
  let ?xs = "pi_pairs P it"
  consider "pi_pos P it = -1" "it_pos mi = -1"
    | p where "p < length ?xs" "pi_pos P it = int p" "\<not> isReserved (fst (?xs ! p))"
        "it_pos mi = int (length (drop_reserved (take p ?xs)))"
    | "pi_pos P it = int (length ?xs)" "it_pos mi = int (length (drop_reserved ?xs))"
    using assms(2) unfolding consumer_sim_def by (metis le_neq_implies_less order.refl take_all)
  then have "pi_Valid P it = it_Valid mi
      \<and> (pi_Valid P it \<longrightarrow> pi_Key P it = it_Key mi \<and> pi_Value P it = it_Value mi)"
  proof cases
    case 2
    note U = user_pair_at [OF 2(1,3)]
    have v: "pi_Valid P it" using 2 cursor_okD(1) [OF assms(1)] by simp
    moreover have "it_Valid mi" using 2(4) U(1) assms(2) by (simp add: it_Valid_def consumer_sim_def)
    ultimately show ?thesis
      using cursor_okD(2,3) [OF assms(1) v] 2 U(2) assms(2) by (simp add: it_Key_def it_Value_def consumer_sim_def)
  qed (use assms(2) cursor_okD(1) [OF assms(1)] in \<open>auto simp: it_Valid_def consumer_sim_def\<close>)
  then show "pi_Valid P it = it_Valid mi"
    "pi_Valid P it \<Longrightarrow> pi_Key P it = it_Key mi \<and> pi_Value P it = it_Value mi" by blast+
qed

text \<open>Skipping forward from a position reaches the state of the cursor with as many user pairs behind it.\<close>

lemma consumer_skip:
  assumes "cursor_ok P" "pi_pos P it = int p" "p \<le> length (pi_pairs P it)" "it_pairs mi = drop_reserved (pi_pairs P it)"
    and "it_pos mi = int (length (drop_reserved (take p (pi_pairs P it))))"
    and "ok = pi_Valid P it"
  shows "\<exists>it'. (if \<not> ok then Some (False, it) else map_option (\<lambda>it2. (pi_Valid P it2, it2)) (skipReserved P it))
      = Some (it_Valid mi, it') \<and> consumer_sim P it' mi"
proof (cases ok)
  case True
  obtain it' where it': "skipReserved P it = Some it'" "pi_pairs P it' = pi_pairs P it"
    "pi_pos P it' = int (next_user (pi_pairs P it) p)" by (rule skip_next_user [OF assms(1-3)])
  have sim: "consumer_sim P it' mi"
    using it' assms(3-5) next_user_le [OF assms(3)] next_user_unreserved [OF assms(3)] take_next_user [OF assms(3)]
    by (auto simp: consumer_sim_def)
  with consumer_sim_valid(1) [OF assms(1)] it'(1) True show ?thesis by auto
next
  case False
  then have "p = length (pi_pairs P it)" using assms(2,3,6) cursor_okD(1) [OF assms(1), of it] by simp
  then have sim: "consumer_sim P it mi" using assms(2-5) by (auto simp: consumer_sim_def)
  with consumer_sim_valid(1) [OF assms(1) this] False assms(6) show ?thesis by simp
qed

lemma consumer_First_sim:
  assumes "cursor_ok P" "it_pairs mi = drop_reserved (pi_pairs P it)"
  shows "\<exists>it'. consumer_First P it = Some (fst (it_First mi), it') \<and> consumer_sim P it' (snd (it_First mi))"
proof -
  obtain ok it1 where f: "pi_First P it = (ok, it1)" by fastforce
  have "pi_pos P it1 = int 0" "pi_pairs P it1 = pi_pairs P it" "ok = pi_Valid P it1"
    using cursor_okD(4-6) [OF assms(1), of it] f by simp_all
  from consumer_skip [OF assms(1) this(1) _ _ _ this(3), of "snd (it_First mi)"] this(2) assms(2) f show ?thesis
    by (simp add: consumer_First_def it_First_def it_Valid_def)
qed

lemma sim_position:
  assumes "cursor_ok P" "consumer_sim P it mi" "pi_Valid P it"
  obtains p where "p < length (pi_pairs P it)" "pi_pos P it = int p" "\<not> isReserved (fst (pi_pairs P it ! p))"
    "it_pos mi = int (length (drop_reserved (take p (pi_pairs P it))))"
  using assms(2,3) cursor_okD(1) [OF assms(1), of it] that unfolding consumer_sim_def by fastforce

lemma consumer_Next_sim:
  assumes "cursor_ok P" "consumer_sim P it mi" "pi_Valid P it"
  shows "\<exists>it'. consumer_Next P it = Some (fst (it_Next mi), it') \<and> consumer_sim P it' (snd (it_Next mi))"
proof -
  obtain p where p: "p < length (pi_pairs P it)" "pi_pos P it = int p" "\<not> isReserved (fst (pi_pairs P it ! p))"
    "it_pos mi = int (length (drop_reserved (take p (pi_pairs P it))))" by (rule sim_position [OF assms])
  obtain ok it1 where f: "pi_Next P it = (ok, it1)" by fastforce
  have n: "pi_pos P it1 = int (Suc p)" "pi_pairs P it1 = pi_pairs P it" "ok = pi_Valid P it1"
    using cursor_okD(7-9) [OF assms(1,3)] f p(2) by simp_all
  from consumer_skip [OF assms(1) n(1) _ _ _ n(3), of "snd (it_Next mi)"] n(2) assms(2) p f user_pair_at(3) [OF p(1,3)]
  show ?thesis
    by (simp add: consumer_Next_def it_Next_def it_Valid_def consumer_sim_def)
qed

lemma prev_user:
  assumes "p \<le> length xs" "r = p - length (reserved_run (rev (take p xs)))"
  shows "drop_reserved (take p xs) = drop_reserved (take r xs) \<and> (0 < r \<longrightarrow> \<not> isReserved (fst (xs ! (r - 1)))) \<and> r \<le> p"
  using assms
proof (induction p arbitrary: r)
  case (Suc p)
  then have t: "take (Suc p) xs = take p xs @ [xs ! p]" by (simp add: take_Suc_conv_app_nth)
  show ?case
  proof (cases "isReserved (fst (xs ! p))")
    case True
    then have "r = p - length (reserved_run (rev (take p xs)))" using Suc.prems(2) t by simp
    with Suc.IH [OF _ this] Suc.prems(1) True t show ?thesis by simp
  next
    case False
    then show ?thesis using Suc.prems t by simp
  qed
qed simp

lemma consumer_Prev_sim:
  assumes "cursor_ok P" "consumer_sim P it mi" "pi_Valid P it"
  shows "\<exists>it'. consumer_Prev P it = Some (fst (it_Prev mi), it') \<and> consumer_sim P it' (snd (it_Prev mi))"
proof -
  let ?xs = "pi_pairs P it"
  obtain p where p: "p < length ?xs" "pi_pos P it = int p" "it_pos mi = int (length (drop_reserved (take p ?xs)))"
    by (rule sim_position [OF assms])
  obtain ok it1 where f: "pi_Prev P it = (ok, it1)" by fastforce
  have n: "pi_pos P it1 = int p - 1" "pi_pairs P it1 = ?xs" "ok = pi_Valid P it1"
    using cursor_okD(10-12) [OF assms(1,3)] f p(2) by simp_all
  have pairs: "it_pairs mi = drop_reserved ?xs" using assms(2) by (simp add: consumer_sim_def)
  show ?thesis
  proof (cases "p = 0")
    case True
    then have "\<not> ok" using n cursor_okD(1) [OF assms(1), of it1] by simp
    with True n(1,2) p(3) pairs f show ?thesis
      by (simp add: consumer_Prev_def it_Prev_def consumer_sim_def)
  next
    case False
    then have ok: ok using n p(1) cursor_okD(1) [OF assms(1), of it1] by simp
    define r where "r = p - length (reserved_run (rev (take p ?xs)))"
    note R = prev_user [OF less_imp_le [OF p(1)] r_def]
    obtain it' where it': "skipReservedBackward P it1 = Some it'" "pi_pairs P it' = ?xs" "pi_pos P it' = int r - 1"
      using skipReservedBackward_returns [OF assms(1) n(1)] n(2) p(1) by (auto simp: r_def)
    have sim: "consumer_sim P it' (snd (it_Prev mi))"
    proof (cases r)
      case 0
      then show ?thesis using R it' p(3) pairs by (simp add: consumer_sim_def it_Prev_def)
    next
      case (Suc q)
      then have q: "q < length ?xs" "\<not> isReserved (fst (?xs ! q))" using R p(1) by auto
      from user_pair_at(3) [OF q] R it' p(3) pairs q Suc show ?thesis
        by (auto simp: consumer_sim_def it_Prev_def)
    qed
    have "fst (it_Prev mi) = it_Valid (snd (it_Prev mi))"
    proof -
      have "length (drop_reserved (take p ?xs)) \<le> length (drop_reserved ?xs)"
        by (metis append_take_drop_id drop_reserved_append le_add1 length_append)
      then show ?thesis using p(3) pairs by (auto simp: it_Prev_def it_Valid_def)
    qed
    with sim it'(1) f ok consumer_sim_valid(1) [OF assms(1) sim] show ?thesis by (simp add: consumer_Prev_def)
  qed
qed

subsection \<open>Walks\<close>

lemma raw_walk_pairs:
  assumes "cursor_ok P" "pi_pos P it = int p" "p \<le> length (pi_pairs P it)"
  shows "raw_walk P it = Some (drop p (pi_pairs P it))"
  using assms(2,3)
proof (induction "length (pi_pairs P it) - p" arbitrary: it p)
  case 0
  then have "\<not> pi_Valid P it" using cursor_okD(1) [OF assms(1), of it] by simp
  with 0 show ?case by (subst raw_walk.simps) simp
next
  case (Suc n)
  have p: "p < length (pi_pairs P it)" using Suc.hyps(2) by simp
  then have v: "pi_Valid P it" using cursor_okD(1) [OF assms(1), of it] Suc.prems by simp
  let ?it1 = "snd (pi_Next P it)"
  have it1: "pi_pairs P ?it1 = pi_pairs P it" "pi_pos P ?it1 = int (Suc p)"
    using cursor_okD(7,8) [OF assms(1) v] Suc.prems by simp_all
  have "n = length (pi_pairs P ?it1) - Suc p" "Suc p \<le> length (pi_pairs P ?it1)" using Suc.hyps(2) p it1 by simp_all
  from Suc.hyps(1) [OF this(1) it1(2) this(2)] it1(1) v cursor_okD(2,3) [OF assms(1) v] Suc.prems(1) p show ?case
    by (subst raw_walk.simps) (simp add: Cons_nth_drop_Suc)
qed

lemma consumer_walk_pairs:
  assumes "cursor_ok P" "consumer_sim P it mi" "0 \<le> it_pos mi"
  shows "consumer_walk P it = Some (drop (nat (it_pos mi)) (it_pairs mi))"
  using assms(2,3)
proof (induction "length (it_pairs mi) - nat (it_pos mi)" arbitrary: it mi)
  case 0
  then have "\<not> pi_Valid P it" using consumer_sim_valid(1) [OF assms(1) 0(2)] by (simp add: it_Valid_def)
  with 0 show ?case by (subst consumer_walk.simps) simp
next
  case (Suc n)
  have "it_Valid mi" using Suc.hyps(2) Suc.prems(2) by (simp add: it_Valid_def)
  then have v: "pi_Valid P it" using consumer_sim_valid(1) [OF assms(1) Suc.prems(1)] by simp
  obtain it1 where it1: "consumer_Next P it = Some (fst (it_Next mi), it1)" "consumer_sim P it1 (snd (it_Next mi))"
    using consumer_Next_sim [OF assms(1) Suc.prems(1) v] by blast
  have "n = length (it_pairs (snd (it_Next mi))) - nat (it_pos (snd (it_Next mi)))" "0 \<le> it_pos (snd (it_Next mi))"
    using Suc.hyps(2) Suc.prems(2) by (simp_all add: it_Next_def nat_add_distrib)
  from Suc.hyps(1) [OF this(1) it1(2) this(2)] v it1(1) consumer_sim_valid(2) [OF assms(1) Suc.prems(1) v]
    \<open>it_Valid mi\<close> Suc.prems(2) show ?case
    by (subst consumer_walk.simps)
      (auto simp: it_Next_def it_Key_def it_Value_def it_Valid_def nat_add_distrib Cons_nth_drop_Suc)
qed

lemma consumer_visits:
  assumes "cursor_ok P"
  shows "Option.bind (consumer_First P it) (\<lambda>r. consumer_walk P (snd r)) = Some (drop_reserved (pi_pairs P it))"
proof -
  let ?mi = "new_iter (drop_reserved (pi_pairs P it))"
  obtain it' where "consumer_First P it = Some (fst (it_First ?mi), it')" "consumer_sim P it' (snd (it_First ?mi))"
    using consumer_First_sim [OF assms, of ?mi it] by (auto simp: new_iter_def)
  with consumer_walk_pairs [OF assms this(2)] show ?thesis by (simp add: it_First_def new_iter_def)
qed

subsection \<open>The engine keeps the contract\<close>

definition pooled :: "('db, 'sn, 'it, 'dir) pebbleEngine \<Rightarrow> 'sn list" where
  "pooled e = retired e @ (case sharedSnap e of None \<Rightarrow> [] | Some ss \<Rightarrow> [fst ss])"

lemma pooled_pebDB [simp]: "pooled (e\<lparr>pebDB := db\<rparr>) = pooled e"
  by (simp add: pooled_def)

definition peb_invar :: "('db, 'sn, 'it, 'dir) pebbleEngine \<Rightarrow> bool" where
  "peb_invar e \<longleftrightarrow> pebble_ok Int64Merger (pebPkg e) \<and> distinct (pooled e)
     \<and> (\<forall>sn \<in> set (pooled e). pb_snaps (pebPkg e) (pebDB e) sn \<noteq> None)"

definition peb_contents :: "('db, 'sn, 'it, 'dir) pebbleEngine \<Rightarrow> kv" where
  "peb_contents e = cells_kv (pb_cells (pebPkg e) (pebDB e))"

text \<open>A client's snapshot is open and not one of the pooled ones.\<close>

definition peb_live :: "('db, 'sn, 'it, 'dir) pebbleEngine \<Rightarrow> 'sn pebbleSnapshot \<Rightarrow> bool" where
  "peb_live e s \<longleftrightarrow> pb_snaps (pebPkg e) (pebDB e) (psSnap s) \<noteq> None \<and> psSnap s \<notin> set (pooled e)"

definition peb_view :: "('db, 'sn, 'it, 'dir) pebbleEngine \<Rightarrow> 'sn pebbleSnapshot \<Rightarrow> kv" where
  "peb_view e s = (case pb_snaps (pebPkg e) (pebDB e) (psSnap s) of None \<Rightarrow> Map.empty | Some m \<Rightarrow> cells_kv m)"

lemmas peb_defs = peb_contents_def peb_live_def peb_view_def

lemma pebble_okD:
  assumes "pebble_ok M P"
  shows "cursor_ok P" "cell_read M (pb_cells P db k) (pb_Get P db k)"
    "pb_snaps P db sn = Some m \<Longrightarrow> cell_read M (m k) (pb_snapGet P db sn k)"
    "pb_Apply P db b sync = (None, db') \<Longrightarrow> pb_cells P db' = foldl cells_call (pb_cells P db) b \<and> pb_snaps P db' = pb_snaps P db"
    "pb_Apply P db b sync = (Some err, db') \<Longrightarrow> same_db P db db'"
    "same_db P db (snd (pb_LogData P db))" "same_db P db (snd (pb_Flush P db))" "same_db P db (snd (pb_Compact P db))"
    "pb_NewSnapshot P db = (sn, db') \<Longrightarrow> pb_snaps P db sn = None \<and> pb_cells P db' = pb_cells P db
       \<and> pb_snaps P db' = (pb_snaps P db)(sn \<mapsto> pb_cells P db)"
    "pb_cells P (snd (pb_snapClose P db sn)) = pb_cells P db"
    "pb_snaps P (snd (pb_snapClose P db sn)) = (pb_snaps P db)(sn := None)"
    "\<exists>it. pb_NewIter P db lo hi = Inr it \<and> lists_reads (pi_pairs P it) (pb_Get P db) lo hi"
    "pb_snaps P db sn \<noteq> None \<Longrightarrow> \<exists>it. pb_snapIter P db sn lo hi = Inr it \<and> lists_reads (pi_pairs P it) (pb_snapGet P db sn) lo hi"
    "pb_Checkpoint P db = Inr dir \<Longrightarrow> pb_stored P dir = pb_cells P db"
    "pb_Open P dir = Inr db \<Longrightarrow> pb_cells P db = pb_stored P dir \<and> pb_snaps P db = Map.empty"
  using assms unfolding pebble_ok_def by (elim conjE; simp)+

lemma pebble_reads:
  assumes "pebble_ok Int64Merger P"
  shows "pb_Get P db k = (case cells_kv (pb_cells P db) k of None \<Rightarrow> Inl LibNotFound | Some v \<Rightarrow> Inr v)"
    "pb_snaps P db sn = Some m \<Longrightarrow> pb_snapGet P db sn k = (case cells_kv m k of None \<Rightarrow> Inl LibNotFound | Some v \<Rightarrow> Inr v)"
  using cell_read_value [OF pebble_okD(2) [OF assms]] cell_read_value [OF pebble_okD(3) [OF assms]]
  by (simp_all add: cells_kv_def)

lemma foldl_pebbleBatch: "foldl pebbleBatch_call b cs = b @ cs"
proof (induction cs arbitrary: b)
  case (Cons c cs)
  then show ?case by (cases c) simp_all
qed simp

text \<open>Replacing the database by one with the same cells and snapshots keeps everything.\<close>

lemma peb_same:
  assumes "peb_invar e" "same_db (pebPkg e) (pebDB e) db"
  shows "peb_invar (e\<lparr>pebDB := db\<rparr>)" "peb_contents (e\<lparr>pebDB := db\<rparr>) = peb_contents e"
    "peb_live (e\<lparr>pebDB := db\<rparr>) s = peb_live e s" "peb_view (e\<lparr>pebDB := db\<rparr>) s = peb_view e s"
  using assms by (simp_all add: peb_defs peb_invar_def same_db_def)

lemma peb_apply:
  assumes "peb_invar e" "pebble_ApplyBatch e b sync = (r, e')"
  shows "peb_invar e'" "peb_contents e' = (if r = None then kv_apply (peb_contents e) b else peb_contents e)"
    "peb_live e' s = peb_live e s" "peb_view e' s = peb_view e s"
proof -
  let ?P = "pebPkg e"
  have ok: "pebble_ok Int64Merger ?P" using assms(1) by (simp add: peb_invar_def)
  obtain err db where a: "pb_Apply ?P (pebDB e) b sync = (err, db)" by fastforce
  have e': "e' = e\<lparr>pebDB := db\<rparr>" "r = None \<longleftrightarrow> err = None"
    using assms(2) a by (auto simp: pebble_ApplyBatch_def foldl_pebbleBatch lib_fail_def split: option.splits lib_error.splits)
  have "peb_invar e' \<and> peb_contents e' = (if r = None then kv_apply (peb_contents e) b else peb_contents e)
    \<and> peb_live e' s = peb_live e s \<and> peb_view e' s = peb_view e s"
  proof (cases err)
    case None
    with pebble_okD(4) [OF ok] a have "pb_cells ?P db = foldl cells_call (pb_cells ?P (pebDB e)) b"
      "pb_snaps ?P db = pb_snaps ?P (pebDB e)" by blast+
    with None e' assms(1) show ?thesis by (simp add: peb_defs peb_invar_def cells_kv_apply)
  next
    case (Some er)
    with pebble_okD(5) [OF ok] a have "same_db ?P (pebDB e) db" by blast
    from peb_same [OF assms(1) this] Some e' show ?thesis by auto
  qed
  then show "peb_invar e'" "peb_contents e' = (if r = None then kv_apply (peb_contents e) b else peb_contents e)"
    "peb_live e' s = peb_live e s" "peb_view e' s = peb_view e s" by blast+
qed

lemma peb_snapshot:
  assumes "peb_invar e" "pebble_GetSnapshot e = (s, e')"
  shows "peb_invar e'" "peb_contents e' = peb_contents e" "peb_live e' s" "peb_view e' s = peb_contents e"
    "peb_live e s' \<Longrightarrow> peb_live e' s' \<and> peb_view e' s' = peb_view e s'"
proof -
  have ok: "pebble_ok Int64Merger (pebPkg e)" using assms(1) by (simp add: peb_invar_def)
  obtain sn db where n: "pb_NewSnapshot (pebPkg e) (pebDB e) = (sn, db)" by fastforce
  have s: "psSnap s = sn" "e' = e\<lparr>pebDB := db\<rparr>"
    using assms(2) n by (auto simp: pebble_GetSnapshot_def Let_def)
  note N = pebble_okD(9) [OF ok n]
  show "peb_invar e'" "peb_contents e' = peb_contents e" "peb_live e' s" "peb_view e' s = peb_contents e"
    using N s assms(1) by (auto simp: peb_defs peb_invar_def)
  show "peb_live e s' \<Longrightarrow> peb_live e' s' \<and> peb_view e' s' = peb_view e s'"
    using N s by (auto simp: peb_defs)
qed

lemma lists_reads_pebble:
  assumes "pebble_ok Int64Merger P"
  shows "lists_reads xs (pb_Get P db) lo hi \<Longrightarrow> lists_kv xs (restrict_kv (cells_kv (pb_cells P db)) (in_range lo hi))"
    "pb_snaps P db sn = Some m \<Longrightarrow> lists_reads xs (pb_snapGet P db sn) lo hi \<Longrightarrow>
       lists_kv xs (restrict_kv (cells_kv m) (in_range lo hi))"
  using lists_reads_kv pebble_okD(2,3) [OF assms] by blast+

lemma pebble_RawIter_pairs:
  assumes "peb_invar e"
  shows "it_pos (pebble_RawIter e start stop) = -1 \<and> lists_kv (it_pairs (pebble_RawIter e start stop))
    (restrict_kv (peb_contents e) (in_range start stop))"
proof -
  let ?P = "pebPkg e"
  have ok: "pebble_ok Int64Merger ?P" using assms by (simp add: peb_invar_def)
  obtain it where it: "pb_NewIter ?P (pebDB e) start stop = Inr it"
    "lists_reads (pi_pairs ?P it) (pb_Get ?P (pebDB e)) start stop" using pebble_okD(12) [OF ok] by blast
  have "raw_walk ?P (snd (pi_First ?P it)) = Some (pi_pairs ?P it)"
    using raw_walk_pairs [OF pebble_okD(1) [OF ok], of "snd (pi_First ?P it)" 0] cursor_okD(4,5) [OF pebble_okD(1) [OF ok]]
    by simp
  with it lists_reads_pebble(1) [OF ok it(2)] show ?thesis by (simp add: pebble_RawIter_def new_iter_def peb_contents_def)
qed

lemma pebble_snap_iter:
  assumes "peb_invar e" "peb_live e s"
  shows "it_pos (pebble_snap_NewIter e s start stop) = -1 \<and> lists_kv (it_pairs (pebble_snap_NewIter e s start stop))
    (restrict_kv (peb_view e s) (\<lambda>k. in_range start stop k \<and> \<not> isReserved k))"
proof -
  let ?P = "pebPkg e"
  have ok: "pebble_ok Int64Merger ?P" using assms(1) by (simp add: peb_invar_def)
  obtain m where m: "pb_snaps ?P (pebDB e) (psSnap s) = Some m" using assms(2) by (auto simp: peb_live_def)
  then obtain it where it: "pb_snapIter ?P (pebDB e) (psSnap s) start stop = Inr it"
    "lists_reads (pi_pairs ?P it) (pb_snapGet ?P (pebDB e) (psSnap s)) start stop"
    using pebble_okD(13) [OF ok, of "pebDB e" "psSnap s"] by blast
  from lists_kv_drop_reserved [OF lists_reads_pebble(2) [OF ok m it(2)]] it(1) m
    consumer_visits [OF pebble_okD(1) [OF ok], of it]
  show ?thesis by (simp add: pebble_snap_NewIter_def new_iter_def peb_view_def)
qed

interpretation peb: scanning_engine pebble_engine peb_invar peb_contents peb_live peb_view "\<lambda>_ _. True" "\<lambda>_. True"
proof (unfold_locales, goal_cases)
  case (1 e k)
  then have "pebble_ok Int64Merger (pebPkg e)" by (simp add: peb_invar_def)
  from pebble_reads(1) [OF this] show ?case
    by (auto simp: pebble_engine_def pebble_Get_def peb_contents_def lib_result_def kv_result_def split: option.splits)
next
  case (2 e s e')
  then show ?case using peb_snapshot [of e s e'] by (auto simp: pebble_engine_def)
next
  case (3 e s e' s')
  then show ?case using peb_snapshot(5) [of e s e'] by (auto simp: pebble_engine_def)
next
  case (4 e b sync e')
  then show ?case using peb_apply [of e b sync None e'] by (simp add: pebble_engine_def)
next
  case (5 e b sync e' s)
  then show ?case using peb_apply [of e b sync None e'] by (simp add: pebble_engine_def)
next
  case (6 e b sync err e')
  then show ?case using peb_apply [of e b sync "Some err" e'] by (simp add: pebble_engine_def)
next
  case (7 e r e')
  then have ok: "pebble_ok Int64Merger (pebPkg e)" and i: "peb_invar e" by (simp_all add: peb_invar_def)
  from 7(2) have "e' = e\<lparr>pebDB := snd (pb_LogData (pebPkg e) (pebDB e))\<rparr>"
    by (auto simp: pebble_engine_def pebble_Sync_def split: prod.splits)
  with peb_same [OF i pebble_okD(6) [OF ok]] show ?case by simp
next
  case (8 e s k)
  then have ok: "pebble_ok Int64Merger (pebPkg e)" by (simp add: peb_invar_def)
  from 8(2) obtain m where "pb_snaps (pebPkg e) (pebDB e) (psSnap s) = Some m" by (auto simp: peb_live_def)
  with pebble_reads(2) [OF ok this] show ?case
    by (auto simp: pebble_engine_def pebble_snap_Get_def peb_view_def lib_result_def kv_result_def split: option.splits)
next
  case (9 e s k)
  then have ok: "pebble_ok Int64Merger (pebPkg e)" by (simp add: peb_invar_def)
  from 9(2) obtain m where "pb_snaps (pebPkg e) (pebDB e) (psSnap s) = Some m" by (auto simp: peb_live_def)
  with pebble_reads(2) [OF ok this] show ?case
    by (auto simp: pebble_engine_def pebble_snap_GetVersion_def peb_view_def stored_version_def split: option.splits)
next
  case (10 e s start stop)
  then show ?case using pebble_snap_iter by (simp add: pebble_engine_def)
next
  case (12 e start stop)
  then show ?case using pebble_RawIter_pairs by (simp add: pebble_engine_def)
qed simp

interpretation pebt: total_engine pebble_engine peb_invar peb_contents peb_live peb_view "\<lambda>_ _. True" "\<lambda>_. True"
  by unfold_locales simp

interpretation pebf: full_engine pebble_engine peb_invar peb_contents peb_live peb_view "\<lambda>_ _. True" "\<lambda>_. True"
  by unfold_locales

end
