(* ===== verification/Pebble_Claims.thy ===== *)
theory Pebble_Claims
  imports Pebble_Props
begin

text \<open>
  Properties of the Pebble engine and of the direct proposer on it, with an executable instance of the library for
  their witnesses.
\<close>

subsection \<open>Runs\<close>

text \<open>
  What may happen while a client holds the snapshot \<open>s\<close>: commits, compactions, checkpoints, other snapshots and
  their closing, and the two background activities.
\<close>

inductive peb_step ::
  "'sn pebbleSnapshot \<Rightarrow> ('db, 'sn, 'it, 'dir) pebbleEngine \<Rightarrow> ('db, 'sn, 'it, 'dir) pebbleEngine \<Rightarrow> bool" for s where
  p_refresh: "peb_step s e (refreshSharedSnapshot e)"
| p_retire: "sn \<in> set (retired e) \<Longrightarrow> peb_step s e (close_retired sn e)"
| p_apply: "pebble_ApplyBatch e b sync = (r, e') \<Longrightarrow> peb_step s e e'"
| p_sync: "pebble_Sync e = (r, e') \<Longrightarrow> peb_step s e e'"
| p_compact: "pebble_Compact e = (r, e') \<Longrightarrow> peb_step s e e'"
| p_checkpoint: "pebble_CreateCheckpoint e = (d, e') \<Longrightarrow> peb_step s e e'"
| p_snapshot: "pebble_GetSnapshot e = (s', e') \<Longrightarrow> peb_step s e e'"
| p_close: "psSnap s' \<noteq> psSnap s \<Longrightarrow> peb_live e s' \<Longrightarrow> peb_step s e (pebble_snap_Close e s')"

lemma peb_refresh:
  assumes "peb_invar e"
  shows "peb_invar (refreshSharedSnapshot e)" "peb_contents (refreshSharedSnapshot e) = peb_contents e"
    "peb_live e s \<Longrightarrow> peb_live (refreshSharedSnapshot e) s \<and> peb_view (refreshSharedSnapshot e) s = peb_view e s"
proof -
  have ok: "pebble_ok Int64Merger (pebPkg e)" using assms by (simp add: peb_invar_def)
  obtain sn db where n: "pb_NewSnapshot (pebPkg e) (pebDB e) = (sn, db)" by fastforce
  note N = pebble_okD(9) [OF ok n]
  have f: "pebPkg (refreshSharedSnapshot e) = pebPkg e" "pebDB (refreshSharedSnapshot e) = db"
    "pooled (refreshSharedSnapshot e) = pooled e @ [sn]"
    using n by (auto simp: refreshSharedSnapshot_def pooled_def split: option.splits)
  have "sn \<notin> set (pooled e)" using N assms by (auto simp: peb_invar_def)
  then show "peb_invar (refreshSharedSnapshot e)" "peb_contents (refreshSharedSnapshot e) = peb_contents e"
    "peb_live e s \<Longrightarrow> peb_live (refreshSharedSnapshot e) s \<and> peb_view (refreshSharedSnapshot e) s = peb_view e s"
    using N assms by (auto simp: peb_defs peb_invar_def f)
qed

lemma peb_close_handle:
  assumes "peb_invar e" "pebPkg e' = pebPkg e" "pebDB e' = snd (pb_snapClose (pebPkg e) (pebDB e) sn)"
    and "distinct (pooled e')" "set (pooled e') = set (pooled e) - {sn}"
  shows "peb_invar e'" "peb_contents e' = peb_contents e"
    "peb_live e s \<Longrightarrow> psSnap s \<noteq> sn \<Longrightarrow> peb_live e' s \<and> peb_view e' s = peb_view e s"
proof -
  have ok: "pebble_ok Int64Merger (pebPkg e)" using assms(1) by (simp add: peb_invar_def)
  show "peb_invar e'" "peb_contents e' = peb_contents e"
    "peb_live e s \<Longrightarrow> psSnap s \<noteq> sn \<Longrightarrow> peb_live e' s \<and> peb_view e' s = peb_view e s"
    using assms pebble_okD(10,11) [OF ok] by (auto simp: peb_defs peb_invar_def)
qed

lemma peb_retire:
  assumes "peb_invar e" "sn \<in> set (retired e)"
  shows "peb_invar (close_retired sn e)" "peb_contents (close_retired sn e) = peb_contents e"
    "peb_live e s \<Longrightarrow> peb_live (close_retired sn e) s \<and> peb_view (close_retired sn e) s = peb_view e s"
proof -
  have d: "distinct (pooled e)" using assms(1) by (simp add: peb_invar_def)
  have p: "pooled (close_retired sn e) = remove1 sn (pooled e)"
    using assms(2) by (simp add: pooled_def close_retired_def remove1_append)
  have s: "set (pooled (close_retired sn e)) = set (pooled e) - {sn}" "distinct (pooled (close_retired sn e))"
    using d by (simp_all add: p)
  note C = peb_close_handle [OF assms(1), of "close_retired sn e" sn, OF _ _ s(2,1)]
  show "peb_invar (close_retired sn e)" "peb_contents (close_retired sn e) = peb_contents e"
    using C(1,2) by (simp_all add: close_retired_def)
  show "peb_live e s \<Longrightarrow> peb_live (close_retired sn e) s \<and> peb_view (close_retired sn e) s = peb_view e s"
    using C(3) [of s] assms(2) by (auto simp: close_retired_def peb_live_def pooled_def)
qed

lemma same_db_trans: "same_db P a b \<Longrightarrow> same_db P b c \<Longrightarrow> same_db P a c"
  by (simp add: same_db_def)

lemma peb_step_keeps:
  assumes "peb_step s e e'" "peb_invar e" "peb_live e s"
  shows "peb_invar e' \<and> peb_live e' s \<and> peb_view e' s = peb_view e s"
  using assms
proof cases
  case (p_close s')
  have ok: "pebble_ok Int64Merger (pebPkg e)" and d: "distinct (pooled e)" using assms(2) by (simp_all add: peb_invar_def)
  have "set (pooled (pebble_snap_Close e s')) = set (pooled e) - {psSnap s'}"
    using p_close by (auto simp: pebble_snap_Close_def peb_live_def)
  from peb_close_handle [OF assms(2) _ _ _ this] p_close assms(3) d show ?thesis by (simp add: pebble_snap_Close_def)
next
  case (p_apply b sync r)
  with peb_apply [OF assms(2)] assms(3) show ?thesis by blast
next
  case (p_sync r)
  have ok: "pebble_ok Int64Merger (pebPkg e)" using assms(2) by (simp add: peb_invar_def)
  from p_sync have "e' = e\<lparr>pebDB := snd (pb_LogData (pebPkg e) (pebDB e))\<rparr>"
    by (auto simp: pebble_Sync_def split: prod.splits)
  with peb_same [OF assms(2) pebble_okD(6) [OF ok]] assms(3) show ?thesis by simp
next
  case (p_compact r)
  have ok: "pebble_ok Int64Merger (pebPkg e)" using assms(2) by (simp add: peb_invar_def)
  from p_compact obtain db where db: "e' = e\<lparr>pebDB := db\<rparr>" "same_db (pebPkg e) (pebDB e) db"
    using pebble_okD(7) [OF ok, of "pebDB e"] same_db_trans [OF pebble_okD(7) [OF ok] pebble_okD(8) [OF ok]]
    by (auto simp: pebble_Compact_def split: prod.splits option.splits) (metis snd_conv)+
  with peb_same [OF assms(2) db(2)] assms(3) show ?thesis by simp
next
  case (p_checkpoint d)
  have ok: "pebble_ok Int64Merger (pebPkg e)" using assms(2) by (simp add: peb_invar_def)
  from p_checkpoint have "e' = e\<lparr>pebDB := snd (pb_Flush (pebPkg e) (pebDB e))\<rparr>"
    by (auto simp: pebble_CreateCheckpoint_def split: prod.splits option.splits)
  with peb_same [OF assms(2) pebble_okD(7) [OF ok]] assms(3) show ?thesis by simp
next
  case p_refresh
  with peb_refresh(1,3) [OF assms(2)] assms(3) show ?thesis by blast
next
  case (p_retire sn)
  with peb_retire(1,3) [OF assms(2)] assms(3) show ?thesis by blast
next
  case (p_snapshot s')
  with peb_snapshot [OF assms(2)] assms(3) show ?thesis by blast
qed

lemma peb_steps_keep:
  assumes "(peb_step s)\<^sup>*\<^sup>* e e'" "peb_invar e" "peb_live e s"
  shows "peb_invar e' \<and> peb_live e' s \<and> peb_view e' s = peb_view e s"
  using assms by (induction rule: rtranclp_induct) (auto dest: peb_step_keeps)

lemma pebble_Open_invar:
  assumes "pebble_ok Int64Merger P" "pebble_Open P dir = Inr e"
  shows "peb_invar e" "peb_contents e = cells_kv (pb_stored P dir)"
proof -
  obtain db where db: "pb_Open P dir = Inr db"
    "e = refreshSharedSnapshot \<lparr>pebPkg = P, pebDB = db, sharedSnap = None, retired = [], stopClosed = False\<rparr>"
    using assms(2) by (auto simp: pebble_Open_def split: sum.splits)
  let ?e = "\<lparr>pebPkg = P, pebDB = db, sharedSnap = None, retired = [], stopClosed = False\<rparr>"
  have "peb_invar ?e" "peb_contents ?e = cells_kv (pb_stored P dir)"
    using assms(1) pebble_okD(15) [OF assms(1) db(1)] by (simp_all add: peb_invar_def pooled_def peb_contents_def)
  with peb_refresh(1,2) [of ?e] db(2) show "peb_invar e" "peb_contents e = cells_kv (pb_stored P dir)" by simp_all
qed

lemma peb_sequence:
  assumes "peb_invar e"
  shows "pebble_CurrentSequence e
    = (case peb_contents e appliedKey of None \<Rightarrow> 0 | Some val \<Rightarrow> if length val < 8 then 0 else decodeUint64 val)"
proof -
  have "pebble_ok Int64Merger (pebPkg e)" using assms by (simp add: peb_invar_def)
  from pebble_reads(1) [OF this] show ?thesis
    by (simp add: pebble_CurrentSequence_def peb_contents_def split: option.splits)
qed

text \<open>
  Closing: the pooled snapshot is closed before the database, the replaced ones are not, and a second \<open>Close\<close>
  panics.
\<close>

lemma pebble_Close_twice:
  assumes "pebble_Close e = Some (r, e')"
  shows "retired e' = retired e" "sharedSnap e' = None" "pebble_Close e' = None"
  using assms by (auto simp: pebble_Close_def Let_def split: if_splits prod.splits)

subsection \<open>An instance of the library\<close>

text \<open>
  A store that keeps its cells in a list, for the witnesses: a value with, after a merge, the operands that
  followed it; open snapshots are copies under fresh numbers, a directory is a copy, an iterator a listing with a
  position.
\<close>

type_synonym ref_store = "(bytes \<times> bytes \<times> bytes list option) list"
type_synonym ref_db = "ref_store \<times> (nat \<times> ref_store) list"

definition ref_cell :: "bytes \<times> bytes list option \<Rightarrow> cell" where
  "ref_cell c = (case snd c of None \<Rightarrow> Plain (fst c) | Some vs \<Rightarrow> Merged (fst c # vs))"

definition ref_value :: "bytes \<times> bytes list option \<Rightarrow> bytes" where
  "ref_value c = (case snd c of None \<Rightarrow> fst c | Some vs \<Rightarrow> Finish (foldl MergeNewer (int64_Merge (fst c)) vs))"

definition ref_cells :: "ref_store \<Rightarrow> bytes \<Rightarrow> cell option" where
  "ref_cells xs k = map_option ref_cell (map_of xs k)"

definition ref_read :: "ref_store \<Rightarrow> bytes \<Rightarrow> lib_error + bytes" where
  "ref_read xs k = (case map_of xs k of None \<Rightarrow> Inl LibNotFound | Some c \<Rightarrow> Inr (ref_value c))"

definition ref_scan :: "ref_store \<Rightarrow> bytes \<Rightarrow> bytes \<Rightarrow> data_map" where
  "ref_scan xs lo hi = map (\<lambda>k. (k, ref_value (the (map_of xs k)))) (filter (in_range lo hi) (sort (remdups (map fst xs))))"

primrec ref_call :: "ref_store \<Rightarrow> batch_call \<Rightarrow> ref_store" where
  "ref_call xs (BSet k v) = (k, v, None) # xs"
| "ref_call xs (BDelete k) = filter (\<lambda>e. fst e \<noteq> k) xs"
| "ref_call xs (BMerge k d) =
     (k, case map_of xs k of None \<Rightarrow> (d, Some []) | Some (v, None) \<Rightarrow> (v, Some [d]) | Some (v, Some vs) \<Rightarrow> (v, Some (vs @ [d]))) # xs"

definition ref_pkg :: "(ref_db, nat, data_map \<times> int, ref_store) pebble_pkg" where
  "ref_pkg =
     \<lparr>pb_Open = (\<lambda>dir. Inr (dir, [])), pb_Close = (\<lambda>db. (None, db)), pb_Get = (\<lambda>db. ref_read (fst db)),
      pb_Apply = (\<lambda>db b sync. (None, (foldl ref_call (fst db) b, snd db))),
      pb_LogData = (\<lambda>db. (None, db)), pb_Flush = (\<lambda>db. (None, db)), pb_Compact = (\<lambda>db. (None, db)),
      pb_Checkpoint = (\<lambda>db. Inr (fst db)),
      pb_NewSnapshot = (\<lambda>db. let sn = Suc (sum_list (map fst (snd db))) in (sn, (fst db, (sn, fst db) # snd db))),
      pb_snapGet = (\<lambda>db sn. case map_of (snd db) sn of None \<Rightarrow> (\<lambda>k. Inl LibNotFound) | Some xs \<Rightarrow> ref_read xs),
      pb_snapClose = (\<lambda>db sn. (None, (fst db, filter (\<lambda>e. fst e \<noteq> sn) (snd db)))),
      pb_NewIter = (\<lambda>db lo hi. Inr (ref_scan (fst db) lo hi, -1)),
      pb_snapIter = (\<lambda>db sn lo hi. case map_of (snd db) sn of None \<Rightarrow> Inl LibNotFound | Some xs \<Rightarrow> Inr (ref_scan xs lo hi, -1)),
      pi_First = (\<lambda>it. (0 < length (fst it), (fst it, 0))),
      pi_Next = (\<lambda>it. (0 \<le> snd it + 1 \<and> snd it + 1 < int (length (fst it)), (fst it, snd it + 1))),
      pi_Prev = (\<lambda>it. (0 \<le> snd it - 1 \<and> snd it - 1 < int (length (fst it)), (fst it, snd it - 1))),
      pi_Valid = (\<lambda>it. 0 \<le> snd it \<and> snd it < int (length (fst it))),
      pi_Key = (\<lambda>it. fst (fst it ! nat (snd it))), pi_Value = (\<lambda>it. snd (fst it ! nat (snd it))),
      pb_cells = (\<lambda>db. ref_cells (fst db)), pb_snaps = (\<lambda>db sn. map_option ref_cells (map_of (snd db) sn)),
      pb_stored = ref_cells, pi_pairs = fst, pi_pos = snd\<rparr>"

lemma ref_merges: "merges Int64Merger (v # vs) (foldl MergeNewer (int64_Merge v) vs)"
proof (induction vs rule: rev_induct)
  case Nil
  show ?case using m_start [of Int64Merger v] by (simp add: Int64Merger_def)
next
  case (snoc w vs)
  from m_newer [OF snoc, of w] show ?case by (simp add: Int64Merger_def)
qed

lemma ref_read_ok: "cell_read Int64Merger (ref_cells xs k) (ref_read xs k)"
proof -
  have "merge_value Int64Merger (v # vs) (Finish (foldl MergeNewer (int64_Merge v) vs))" for v vs
    using mv_finish [OF ref_merges, of v vs] by (simp add: Int64Merger_def)
  then show ?thesis
    by (auto simp: cell_read_def ref_cells_def ref_read_def ref_cell_def ref_value_def split: option.splits)
qed

lemma ref_scan_ok: "lists_reads (ref_scan xs lo hi) (ref_read xs) lo hi"
proof -
  let ?ks = "filter (in_range lo hi) (sort (remdups (map fst xs)))"
  have "sorted_wrt (<) ?ks" by (simp add: strict_sorted_iff sorted_wrt_filter)
  moreover have "map fst (ref_scan xs lo hi) = ?ks" by (simp add: ref_scan_def comp_def)
  moreover have "map_of (ref_scan xs lo hi) k = (if k \<in> set ?ks then Some (ref_value (the (map_of xs k))) else None)" for k
    by (simp add: ref_scan_def map_of_map_restrict)
  moreover have "k \<in> set ?ks \<longleftrightarrow> in_range lo hi k \<and> map_of xs k \<noteq> None" for k
    by (auto simp: map_of_eq_None_iff)
  ultimately show ?thesis
    by (auto simp: lists_reads_def ref_read_def split: option.splits)
qed

lemma ref_call_cells: "ref_cells (ref_call xs c) = cells_call (ref_cells xs) c"
  by (cases c) (auto simp: ref_cells_def cells_call_def ref_cell_def fun_eq_iff map_of_drop_key split: option.splits)

lemma ref_apply_cells: "ref_cells (foldl ref_call xs b) = foldl cells_call (ref_cells xs) b"
  by (induction b arbitrary: xs) (simp_all add: ref_call_cells)

lemma ref_cursor_ok: "cursor_ok ref_pkg"
  by (simp add: cursor_ok_def ref_pkg_def)

lemma ref_ok: "pebble_ok Int64Merger ref_pkg"
  unfolding pebble_ok_def
  by (intro conjI ref_cursor_ok)
    (auto simp: ref_pkg_def same_db_def ref_read_ok ref_scan_ok ref_apply_cells fresh_handle map_of_drop_key Let_def
      split: option.splits)

declare skipReserved.simps [code] skipReservedBackward.simps [code] raw_walk.simps [code] consumer_walk.simps [code]

subsection \<open>Properties\<close>

text \<open>
  C14. The registered merge operator is a correct one: in whatever order the library feeds the operands of a key
  to \<open>MergeNewer\<close> and \<open>MergeOlder\<close>, and however many partial results compactions store in between, the
  value read is the one the in-process engines compute by adding the operands from left to right.
\<close>

theorem pebble_merge_any_schedule:
  assumes "merge_value Int64Merger vs w"
  shows "w = foldl mergeInt64 (encodeInt64 0) vs"
proof -
  have "foldl mergeInt64 (encodeInt64 a) us = encodeInt64 (a + sum_list (map decodeInt64 us))" for a us
    by (induction us arbitrary: a) (simp_all add: mergeInt64_def add.assoc)
  then show ?thesis using merge_value_sum [OF assms] by simp
qed

text \<open>Three operands, the last two merged by a compaction before the read.\<close>

theorem pebble_merge_any_schedule_witness:
  "vm_Finish Int64Merger (vm_MergeOlder Int64Merger (vm_Merge Int64Merger (vm_Finish Int64Merger
     (vm_MergeNewer Int64Merger (vm_Merge Int64Merger (encodeInt64 5)) (encodeInt64 (-2))))) (encodeInt64 40))
   = foldl mergeInt64 (encodeInt64 0) [encodeInt64 40, encodeInt64 5, encodeInt64 (-2)]"
proof -
  let ?M = Int64Merger and ?a = "encodeInt64 40" and ?b = "encodeInt64 5" and ?c = "encodeInt64 (-2)"
  let ?m = "vm_MergeNewer ?M (vm_Merge ?M ?b) ?c"
  have 1: "merges ?M [?b, ?c] ?m" using m_newer [OF m_start, of ?M ?b ?c] by simp
  have "merges ?M [?a, vm_Finish ?M ?m] (vm_MergeOlder ?M (vm_Merge ?M (vm_Finish ?M ?m)) ?a)"
    by (rule m_older [OF m_start])
  then have "merge_value ?M ([?a] @ [?b, ?c] @ [])
      (vm_Finish ?M (vm_MergeOlder ?M (vm_Merge ?M (vm_Finish ?M ?m)) ?a))"
    by (intro mv_compact [OF 1] mv_finish) simp
  then show ?thesis by (intro pebble_merge_any_schedule) simp
qed

text \<open>
  C20. The consumer iterator returns from every call: over a cursor on finitely many pairs the loops that skip reserved
  keys end, in both directions, and \<open>First\<close>, \<open>Next\<close> and \<open>Prev\<close> move as a cursor over the user
  pairs alone does, with the same answers.
\<close>

theorem consumer_iter_returns:
  assumes "cursor_ok P" "consumer_sim P it mi"
  shows "(\<exists>it'. consumer_First P it = Some (fst (it_First mi), it') \<and> consumer_sim P it' (snd (it_First mi)))
    \<and> (pi_Valid P it \<longrightarrow>
         (\<exists>it'. consumer_Next P it = Some (fst (it_Next mi), it') \<and> consumer_sim P it' (snd (it_Next mi)))
       \<and> (\<exists>it'. consumer_Prev P it = Some (fst (it_Prev mi), it') \<and> consumer_sim P it' (snd (it_Prev mi)))
       \<and> pi_Key P it = it_Key mi \<and> pi_Value P it = it_Value mi)"
  using consumer_First_sim [OF assms(1)] consumer_Next_sim [OF assms] consumer_Prev_sim [OF assms]
    consumer_sim_valid(2) [OF assms] assms(2)
  by (simp add: consumer_sim_def)

text \<open>From the first of two user keys with a reserved key between them.\<close>

theorem consumer_iter_returns_witness:
  "consumer_Next ref_pkg ([([1], [7]), (appliedKey, [0]), (appliedKey @ [255, 255], [9])], 0) \<noteq> None"
proof -
  let ?xs = "[([1], [7]), (appliedKey, [0]), (appliedKey @ [255, 255], [9])] :: data_map"
  have 1: "\<not> isReserved (fst (?xs ! 0))" by code_simp
  have 2: "pi_pairs ref_pkg (?xs, 0) = ?xs" "pi_pos ref_pkg (?xs, 0) = 0" "pi_Valid ref_pkg (?xs, 0)"
    by (simp_all add: ref_pkg_def)
  then have "consumer_sim ref_pkg (?xs, 0) \<lparr>it_pairs = drop_reserved ?xs, it_pos = 0\<rparr>"
    using 1 by (simp add: consumer_sim_def)
  from consumer_iter_returns [OF ref_cursor_ok this] 2(3) show ?thesis by auto
qed

text \<open>
  C9. Snapshot isolation of the Pebble engine: whatever is committed, compacted or checkpointed after
  \<open>GetSnapshot\<close>, and however the background goroutine replaces and closes pooled snapshots meanwhile, the
  snapshot's reads, version reads and scans keep showing the store as it was when it was taken.
\<close>

theorem pebble_snapshot_isolation:
  assumes "peb_invar e" "pebble_GetSnapshot e = (s, e1)" "(peb_step s)\<^sup>*\<^sup>* e1 e2"
  shows "pebble_snap_Get e2 s k = pebble_Get e k
    \<and> pebble_snap_GetVersion e2 s k = stored_version (peb_contents e (versionKey k))
    \<and> lists_kv (it_pairs (pebble_snap_NewIter e2 s start stop))
        (restrict_kv (peb_contents e) (\<lambda>k. in_range start stop k \<and> \<not> isReserved k))"
proof -
  note S = peb_snapshot [OF assms(1,2)]
  from peb_steps_keep [OF assms(3) S(1,3)] S(4)
  have e2: "peb_invar e2" "peb_live e2 s" "peb_view e2 s = peb_contents e" by auto
  show ?thesis
    using peb.snap_get [OF e2(1,2), of k] peb.snap_version [OF e2(1,2), of k] peb.get [OF assms(1), of k] e2(3)
      peb.snap_iter [OF e2(1,2), of start stop]
    by (simp add: pebble_engine_def)
qed

text \<open>An engine opened on a directory with one key, a snapshot of it, an overwrite and a refresh.\<close>

definition peb0 :: "ref_store \<Rightarrow> (ref_db, nat, data_map \<times> int, ref_store) pebbleEngine" where
  "peb0 dir = refreshSharedSnapshot \<lparr>pebPkg = ref_pkg, pebDB = (dir, []), sharedSnap = None, retired = [], stopClosed = False\<rparr>"

lemma peb0_open: "pebble_Open ref_pkg dir = Inr (peb0 dir)"
  by (simp add: pebble_Open_def peb0_def ref_pkg_def)

theorem pebble_snapshot_isolation_witness:
  "pebble_snap_Get (refreshSharedSnapshot (snd (pebble_ApplyBatch (snd (pebble_GetSnapshot (peb0 [([1], [7], None)])))
     [BSet [1] [8]] False))) (fst (pebble_GetSnapshot (peb0 [([1], [7], None)]))) [1] = Inr [7]"
proof -
  let ?e = "peb0 [([1], [7], None)]"
  obtain s e1 where s: "pebble_GetSnapshot ?e = (s, e1)" by fastforce
  obtain r e2 where a: "pebble_ApplyBatch e1 [BSet [1] [8]] False = (r, e2)" by fastforce
  have "(peb_step s)\<^sup>*\<^sup>* e1 (refreshSharedSnapshot e2)"
    using p_apply [OF a, of s] p_refresh [of s e2] by (meson rtranclp.rtrancl_into_rtrancl rtranclp.rtrancl_refl)
  from pebble_snapshot_isolation [OF pebble_Open_invar(1) [OF ref_ok peb0_open] s this, of "[1]"]
  have "pebble_snap_Get (refreshSharedSnapshot e2) s [1] = pebble_Get ?e [1]" by blast
  moreover have "pebble_Get ?e [1] = Inr [7]" by code_simp
  ultimately show ?thesis using s a by simp
qed

lemma pebble_reopened:
  assumes "peb_invar e" "pebble_CreateCheckpoint e = (Inr dir, e')" "pebble_Open (pebPkg e) dir = Inr e2"
  shows "peb_invar e2" "peb_contents e2 = peb_contents e" "peb_invar e'" "peb_contents e' = peb_contents e"
proof -
  have ok: "pebble_ok Int64Merger (pebPkg e)" using assms(1) by (simp add: peb_invar_def)
  obtain db where f: "pb_Flush (pebPkg e) (pebDB e) = (None, db)" "pb_Checkpoint (pebPkg e) db = Inr dir"
    "e' = e\<lparr>pebDB := db\<rparr>"
    using assms(2) by (auto simp: pebble_CreateCheckpoint_def split: prod.splits option.splits)
  have s: "same_db (pebPkg e) (pebDB e) db" using pebble_okD(7) [OF ok, of "pebDB e"] f(1) by simp
  note O = pebble_Open_invar [OF ok assms(3)]
  show "peb_invar e2" by (rule O(1))
  show "peb_contents e2 = peb_contents e" using O(2) pebble_okD(14) [OF ok f(2)] s by (simp add: peb_contents_def same_db_def)
  show "peb_invar e'" "peb_contents e' = peb_contents e" using peb_same [OF assms(1) s] f(3) by simp_all
qed

lemma pebble_Get_contents: "peb_invar e \<Longrightarrow> pebble_Get e k = kv_result (peb_contents e k)"
  using peb.get [of e k] by (simp add: pebble_engine_def)

text \<open>
  A checkpoint of the Pebble engine is complete: an engine opened on the directory it wrote reads every key, user
  and reserved, as the engine that wrote it did, and reports the same sequence number; writing it changed nothing.
\<close>

theorem pebble_checkpoint_roundtrip:
  assumes "peb_invar e" "pebble_CreateCheckpoint e = (Inr dir, e')" "pebble_Open (pebPkg e) dir = Inr e2"
  shows "pebble_Get e2 k = pebble_Get e k \<and> pebble_CurrentSequence e2 = pebble_CurrentSequence e
    \<and> pebble_Get e' k = pebble_Get e k \<and> peb_invar e2"
  using pebble_reopened [OF assms] assms(1) by (simp add: pebble_Get_contents peb_sequence)

theorem pebble_checkpoint_roundtrip_witness:
  "pebble_Get (peb0 [([1], [7], Some [[1]])]) [1]
   = pebble_Get (snd (pebble_ApplyBatch (peb0 [([1], [7], None)]) [BMerge [1] [1]] False)) [1]"
proof -
  let ?e = "snd (pebble_ApplyBatch (peb0 [([1], [7], None)]) [BMerge [1] [1]] False)"
  let ?dir = "[([1], [7], Some [[1]]), ([1], [7], None)] :: ref_store"
  obtain r e where a: "pebble_ApplyBatch (peb0 [([1], [7], None)]) [BMerge [1] [1]] False = (r, e)" by fastforce
  have i: "peb_invar ?e" using peb_apply(1) [OF pebble_Open_invar(1) [OF ref_ok peb0_open] a] a by simp
  have p: "pebPkg ?e = ref_pkg" "fst (pebDB ?e) = ?dir"
    by (simp_all add: peb0_def refreshSharedSnapshot_def pebble_ApplyBatch_def ref_pkg_def Let_def)
  have c: "pebble_CreateCheckpoint ?e = (Inr ?dir, ?e)"
    using p by (simp add: pebble_CreateCheckpoint_def) (simp add: ref_pkg_def)
  have o: "pebble_Open (pebPkg ?e) ?dir = Inr (peb0 ?dir)" using p by (simp add: peb0_open)
  have "pebble_Get (peb0 [([1], [7], Some [[1]])]) [1] = pebble_Get (peb0 ?dir) [1]" by code_simp
  with pebble_checkpoint_roundtrip [OF i c o, of "[1]"] show ?thesis by simp
qed


definition peb_direct0 :: "(ref_db, nat, data_map \<times> int, ref_store) pebbleEngine directProposer" where
  "peb_direct0 = projr (newDirectProposer pebble_engine (peb0 []) SyncNone False)"

end
