(* ===== verification/Badger.thy ===== *)
theory Badger
  imports Backend
begin

text \<open>
  The Badger engine of \<open>src/engine/badger/badger.go\<close>. The library \<open>github.com/dgraph-io/badger\<close> is not part of the
  repository: it is the parameter \<open>bdgPkg\<close>, a record of the operations the engine calls, over the types of its
  database and transaction handles and of the files it keeps in a directory. \<open>badger_ok\<close> states what its
  documentation promises. Timing is left out.
\<close>

subsection \<open>The library\<close>

text \<open>An item, as the engine uses it: its key and what \<open>ValueCopy\<close> returns.\<close>

record badger_item =
  bi_KeyCopy :: bytes
  bi_ValueCopy :: "lib_error + bytes"

record ('db, 'tx, 'f) badger_pkg =
  bd_Open :: "'f \<Rightarrow> lib_error + 'db"
  bd_Close :: "'db \<Rightarrow> lib_error option \<times> 'db"
  bd_Sync :: "'db \<Rightarrow> lib_error option \<times> 'db"
  bd_NewTransaction :: "'db \<Rightarrow> bool \<Rightarrow> 'tx \<times> 'db"
  bd_Get :: "'db \<Rightarrow> 'tx \<Rightarrow> bytes \<Rightarrow> lib_error + badger_item"
  bd_Set :: "'db \<Rightarrow> 'tx \<Rightarrow> bytes \<Rightarrow> bytes \<Rightarrow> lib_error option \<times> 'db"
  bd_Delete :: "'db \<Rightarrow> 'tx \<Rightarrow> bytes \<Rightarrow> lib_error option \<times> 'db"
  bd_Commit :: "'db \<Rightarrow> 'tx \<Rightarrow> lib_error option \<times> 'db"
  bd_Discard :: "'db \<Rightarrow> 'tx \<Rightarrow> 'db"
  bd_Seek :: "'db \<Rightarrow> 'tx \<Rightarrow> bytes \<Rightarrow> badger_item list"
  bd_map :: "'db \<Rightarrow> kv"
  bd_txns :: "'db \<Rightarrow> 'tx \<Rightarrow> (kv \<times> batch) option"
  bd_stored :: "'f \<Rightarrow> kv"

text \<open>
  The documented behaviour, with the last three fields as the state that the documentation speaks of: the
  committed pairs, the open transactions, each with the pairs that were committed when it began and its own
  writes, and the pairs in a directory. \<open>bd_Seek\<close> is the items an iterator of a transaction passes from
  \<open>Seek\<close> on, in order. Reads of open transactions do not fail, except that the empty key is refused; a write, a
  commit or a synchronisation may fail, and then changes nothing but the transaction it was made in.
\<close>

definition txn_view :: "kv \<times> batch \<Rightarrow> kv" where
  "txn_view t = kv_apply (fst t) (snd t)"

definition badger_item_of :: "bytes \<times> bytes \<Rightarrow> badger_item" where
  "badger_item_of e = \<lparr>bi_KeyCopy = fst e, bi_ValueCopy = Inr (snd e)\<rparr>"

definition badger_reads_ok :: "('db, 'tx, 'f) badger_pkg \<Rightarrow> bool" where
  "badger_reads_ok P \<longleftrightarrow> (\<forall>db tx t. bd_txns P db tx = Some t \<longrightarrow>
     (\<forall>k. k \<noteq> [] \<longrightarrow> bd_Get P db tx k
        = (case txn_view t k of None \<Rightarrow> Inl LibNotFound | Some v \<Rightarrow> Inr (badger_item_of (k, v))))
     \<and> (\<forall>start. \<exists>xs. lists_kv xs (restrict_kv (txn_view t) (\<lambda>k. \<not> k < start))
          \<and> bd_Seek P db tx start = map badger_item_of xs))"

definition badger_set_ok :: "('db, 'tx, 'f) badger_pkg \<Rightarrow> bool" where
  "badger_set_ok P \<longleftrightarrow> (\<forall>db tx m b k v r db'. bd_txns P db tx = Some (m, b) \<longrightarrow> bd_Set P db tx k v = (r, db') \<longrightarrow>
     bd_map P db' = bd_map P db
     \<and> (\<exists>b'. bd_txns P db' = (bd_txns P db)(tx \<mapsto> (m, b')) \<and> (r = None \<longrightarrow> k \<noteq> [] \<and> b' = b @ [BSet k v])))"

definition badger_delete_ok :: "('db, 'tx, 'f) badger_pkg \<Rightarrow> bool" where
  "badger_delete_ok P \<longleftrightarrow> (\<forall>db tx m b k r db'. bd_txns P db tx = Some (m, b) \<longrightarrow> bd_Delete P db tx k = (r, db') \<longrightarrow>
     bd_map P db' = bd_map P db
     \<and> (\<exists>b'. bd_txns P db' = (bd_txns P db)(tx \<mapsto> (m, b')) \<and> (r = None \<longrightarrow> b' = b @ [BDelete k])
         \<and> (r = Some LibNotFound \<longrightarrow> b' = b \<and> kv_apply m b k = None)))"

definition badger_commit_ok :: "('db, 'tx, 'f) badger_pkg \<Rightarrow> bool" where
  "badger_commit_ok P \<longleftrightarrow> (\<forall>db tx m b r db'. bd_txns P db tx = Some (m, b) \<longrightarrow> bd_Commit P db tx = (r, db') \<longrightarrow>
     bd_map P db' = (if r = None then kv_apply (bd_map P db) b else bd_map P db)
     \<and> (\<forall>tx'. tx' \<noteq> tx \<longrightarrow> bd_txns P db' tx' = bd_txns P db tx'))"

definition badger_ok :: "('db, 'tx, 'f) badger_pkg \<Rightarrow> bool" where
  "badger_ok P \<longleftrightarrow> badger_reads_ok P \<and> badger_set_ok P \<and> badger_delete_ok P \<and> badger_commit_ok P
     \<and> (\<forall>db upd tx db'. bd_NewTransaction P db upd = (tx, db') \<longrightarrow> bd_txns P db tx = None
          \<and> bd_map P db' = bd_map P db \<and> bd_txns P db' = (bd_txns P db)(tx \<mapsto> (bd_map P db, [])))
     \<and> (\<forall>db tx. bd_map P (bd_Discard P db tx) = bd_map P db
          \<and> bd_txns P (bd_Discard P db tx) = (bd_txns P db)(tx := None))
     \<and> (\<forall>db. bd_map P (snd (bd_Sync P db)) = bd_map P db \<and> bd_txns P (snd (bd_Sync P db)) = bd_txns P db)
     \<and> (\<forall>f db. bd_Open P f = Inr db \<longrightarrow> bd_map P db = bd_stored P f \<and> bd_stored P f [] = None
          \<and> bd_txns P db = Map.empty)"

subsection \<open>The engine\<close>

record ('db, 'tx, 'f) badgerEngine =
  bdgPkg :: "('db, 'tx, 'f) badger_pkg"
  bdgDB :: 'db

text \<open>A directory: the files of the library, and the file \<open>dump\<close> of a checkpoint.\<close>

record 'f badger_dir =
  bdFiles :: 'f
  bdDump :: "bytes option"

definition badger_Open :: "('db, 'tx, 'f) badger_pkg \<Rightarrow> 'f badger_dir \<Rightarrow> lib_error + ('db, 'tx, 'f) badgerEngine" where
  "badger_Open P dir =
     (case bd_Open P (bdFiles dir) of Inl err \<Rightarrow> Inl err | Inr db \<Rightarrow> Inr \<lparr>bdgPkg = P, bdgDB = db\<rparr>)"

definition badger_Close :: "('db, 'tx, 'f) badger_pkg \<Rightarrow> 'db option \<Rightarrow> lib_error option \<times> 'db option" where
  "badger_Close P db = (case db of None \<Rightarrow> (None, None) | Some d \<Rightarrow> (case bd_Close P d of (err, d') \<Rightarrow> (err, Some d')))"

text \<open>\<open>View\<close> discards its transaction before it returns, so it leaves the engine as it was.\<close>

definition badger_item_value :: "lib_error + badger_item \<Rightarrow> engine_error + bytes" where
  "badger_item_value r =
     (case r of
        Inl LibNotFound \<Rightarrow> Inl ErrKeyNotFound
      | Inl err \<Rightarrow> Inl (lib_raw err)
      | Inr item \<Rightarrow> (case bi_ValueCopy item of Inl err \<Rightarrow> Inl (lib_raw err) | Inr v \<Rightarrow> Inr v))"

definition badger_Get :: "('db, 'tx, 'f) badgerEngine \<Rightarrow> bytes \<Rightarrow> engine_error + bytes" where
  "badger_Get e key =
     (let (txn, db) = bd_NewTransaction (bdgPkg e) (bdgDB e) False
      in badger_item_value (bd_Get (bdgPkg e) db txn key))"

definition badger_CurrentSequence :: "('db, 'tx, 'f) badgerEngine \<Rightarrow> uint64" where
  "badger_CurrentSequence e =
     (case badger_Get e appliedKey of Inl err \<Rightarrow> 0 | Inr val \<Rightarrow> if length val < 8 then 0 else decodeUint64 val)"

record 'tx badgerSnapshot =
  bsTxn :: 'tx
  bsSeq :: uint64

definition badger_GetSnapshot ::
  "('db, 'tx, 'f) badgerEngine \<Rightarrow> 'tx badgerSnapshot \<times> ('db, 'tx, 'f) badgerEngine" where
  "badger_GetSnapshot e =
     (let seq = badger_CurrentSequence e; (txn, db) = bd_NewTransaction (bdgPkg e) (bdgDB e) False
      in (\<lparr>bsTxn = txn, bsSeq = seq\<rparr>, e\<lparr>bdgDB := db\<rparr>))"

subsection \<open>Batches\<close>

primrec badgerBatch_call :: "batchOp list \<Rightarrow> batch_call \<Rightarrow> batchOp list" where
  "badgerBatch_call ops (BSet key value) = ops @ [\<lparr>bop = CHR ''s'', bkey = key, bvalue = value\<rparr>]"
| "badgerBatch_call ops (BDelete key) = ops @ [\<lparr>bop = CHR ''d'', bkey = key, bvalue = []\<rparr>]"
| "badgerBatch_call ops (BMerge key value) = ops @ [\<lparr>bop = CHR ''m'', bkey = key, bvalue = value\<rparr>]"

definition merge_operand :: "bytes \<Rightarrow> int64" where
  "merge_operand val = (if length val \<ge> 8 then decodeUint64 val else 0)"

definition badger_op :: "('db, 'tx, 'f) badger_pkg \<Rightarrow> 'tx \<Rightarrow> 'db \<Rightarrow> batchOp \<Rightarrow> lib_error option \<times> 'db" where
  "badger_op P txn db op =
     (if bop op = CHR ''s'' then bd_Set P db txn (bkey op) (bvalue op)
      else if bop op = CHR ''d'' then
        (case bd_Delete P db txn (bkey op) of (err, db') \<Rightarrow> (if err = Some LibNotFound then None else err, db'))
      else if bop op = CHR ''m'' then
        (case bd_Get P db txn (bkey op) of
           Inr item \<Rightarrow>
             (case bi_ValueCopy item of
                Inl err2 \<Rightarrow> (Some err2, db)
              | Inr val \<Rightarrow> bd_Set P db txn (bkey op) (le_put 8 (merge_operand val + merge_operand (bvalue op))))
         | Inl LibNotFound \<Rightarrow> bd_Set P db txn (bkey op) (le_put 8 (0 + merge_operand (bvalue op)))
         | Inl err \<Rightarrow> (Some err, db))
      else (None, db))"

primrec badger_ops :: "('db, 'tx, 'f) badger_pkg \<Rightarrow> 'tx \<Rightarrow> 'db \<Rightarrow> batchOp list \<Rightarrow> lib_error option \<times> 'db" where
  "badger_ops P txn db [] = (None, db)"
| "badger_ops P txn db (op # ops) =
     (case badger_op P txn db op of (Some err, db') \<Rightarrow> (Some err, db') | (None, db') \<Rightarrow> badger_ops P txn db' ops)"

text \<open>The deferred \<open>Discard\<close> runs on every return; the second loop over the operations has no effect.\<close>

definition badger_ApplyBatch ::
  "('db, 'tx, 'f) badgerEngine \<Rightarrow> batch \<Rightarrow> bool \<Rightarrow> engine_error option \<times> ('db, 'tx, 'f) badgerEngine" where
  "badger_ApplyBatch e b sync =
     (let P = bdgPkg e; (txn, db) = bd_NewTransaction P (bdgDB e) True;
          (err, db') = (case badger_ops P txn db (foldl badgerBatch_call [] b) of
             (Some err, db1) \<Rightarrow> (Some err, db1) | (None, db1) \<Rightarrow> bd_Commit P db1 txn)
      in (lib_fail err, e\<lparr>bdgDB := bd_Discard P db' txn\<rparr>))"

definition badger_Sync :: "('db, 'tx, 'f) badgerEngine \<Rightarrow> engine_error option \<times> ('db, 'tx, 'f) badgerEngine" where
  "badger_Sync e = (case bd_Sync (bdgPkg e) (bdgDB e) of (err, db) \<Rightarrow> (lib_fail err, e\<lparr>bdgDB := db\<rparr>))"

subsection \<open>Snapshots\<close>

definition badger_snap_Get :: "('db, 'tx, 'f) badgerEngine \<Rightarrow> 'tx badgerSnapshot \<Rightarrow> bytes \<Rightarrow> engine_error + bytes" where
  "badger_snap_Get e s key = badger_item_value (bd_Get (bdgPkg e) (bdgDB e) (bsTxn s) key)"

text \<open>A missing version and a failed read both come with the zero record, which is what \<open>readSetSlice\<close> then uses.\<close>

definition badger_snap_GetVersion :: "('db, 'tx, 'f) badgerEngine \<Rightarrow> 'tx badgerSnapshot \<Rightarrow> bytes \<Rightarrow> EpochRecord" where
  "badger_snap_GetVersion e s key =
     (case bd_Get (bdgPkg e) (bdgDB e) (bsTxn s) (versionKey key) of
        Inl err \<Rightarrow> zero_epoch
      | Inr item \<Rightarrow> (case bi_ValueCopy item of Inl err \<Rightarrow> zero_epoch | Inr val \<Rightarrow> decodeEpochRecord0 val))"

definition badger_snap_Close ::
  "('db, 'tx, 'f) badgerEngine \<Rightarrow> 'tx badgerSnapshot \<Rightarrow> ('db, 'tx, 'f) badgerEngine" where
  "badger_snap_Close e s = e\<lparr>bdgDB := bd_Discard (bdgPkg e) (bdgDB e) (bsTxn s)\<rparr>"

subsection \<open>Scans and checkpoints\<close>

text \<open>The loops of \<open>RawIter\<close> and \<open>NewIter\<close>: an item whose value cannot be copied ends them, silently.\<close>

primrec badger_collect :: "(bytes \<Rightarrow> bool) \<Rightarrow> bytes \<Rightarrow> badger_item list \<Rightarrow> data_map" where
  "badger_collect skip stop [] = []"
| "badger_collect skip stop (item # items) =
     (let k = bi_KeyCopy item in
        if stop \<noteq> [] \<and> stop \<le> k then []
        else if skip k then badger_collect skip stop items
        else case bi_ValueCopy item of Inl err \<Rightarrow> [] | Inr v \<Rightarrow> (k, v) # badger_collect skip stop items)"

definition badger_RawIter :: "('db, 'tx, 'f) badgerEngine \<Rightarrow> bytes \<Rightarrow> bytes \<Rightarrow> memIter" where
  "badger_RawIter e start stop =
     (let (txn, db) = bd_NewTransaction (bdgPkg e) (bdgDB e) False
      in new_iter (badger_collect (\<lambda>k. False) stop (bd_Seek (bdgPkg e) db txn start)))"

definition badger_snap_NewIter ::
  "('db, 'tx, 'f) badgerEngine \<Rightarrow> 'tx badgerSnapshot \<Rightarrow> bytes \<Rightarrow> bytes \<Rightarrow> memIter" where
  "badger_snap_NewIter e s start stop =
     new_iter (badger_collect isReserved stop (bd_Seek (bdgPkg e) (bdgDB e) (bsTxn s) start))"

primrec badger_dump_items :: "data_map \<Rightarrow> badger_item list \<Rightarrow> lib_error + data_map" where
  "badger_dump_items data [] = Inr data"
| "badger_dump_items data (item # items) =
     (case bi_ValueCopy item of
        Inl err \<Rightarrow> Inl err
      | Inr v \<Rightarrow> badger_dump_items (AList.update (bi_KeyCopy item) v data) items)"

text \<open>\<open>Rewind\<close> is \<open>Seek\<close> from the empty key; the checkpoint writes the file \<open>dump\<close> of a directory.\<close>

definition badger_CreateCheckpoint :: "('db, 'tx, 'f) badgerEngine \<Rightarrow> 'f badger_dir \<Rightarrow> lib_error + 'f badger_dir" where
  "badger_CreateCheckpoint e dir =
     (let (txn, db) = bd_NewTransaction (bdgPkg e) (bdgDB e) False
      in case badger_dump_items [] (bd_Seek (bdgPkg e) db txn []) of
           Inl err \<Rightarrow> Inl err
         | Inr data \<Rightarrow> Inr (dir\<lparr>bdDump := Some (badger_encodeDump data)\<rparr>))"

definition badger_engine :: "(('db, 'tx, 'f) badgerEngine, 'tx badgerSnapshot) StorageEngine" where
  "badger_engine =
     \<lparr>eGet = badger_Get, eGetSnapshot = badger_GetSnapshot, eApplyBatch = badger_ApplyBatch, eSync = badger_Sync,
      eCurrentSequence = badger_CurrentSequence, eRawIter = badger_RawIter, sGet = badger_snap_Get,
      sGetVersion = badger_snap_GetVersion, sNewIter = badger_snap_NewIter, sSequence = (\<lambda>e s. bsSeq s),
      sClose = badger_snap_Close\<rparr>"

end
