(* ===== verification/Badger_Props.thy ===== *)
theory Badger_Props
  imports Badger Engine_Agree
begin

text \<open>
  The Badger engine keeps the contract of the storage interface: its batches are atomic whatever the library refuses, and
  its snapshots are isolated. Its checkpoints are not read back.
\<close>

subsection \<open>Laws of the library\<close>

lemma badger_okD:
  assumes "badger_ok P"
  shows "badger_reads_ok P" "badger_set_ok P"
    "bd_NewTransaction P db upd = (tx, db') \<Longrightarrow> bd_txns P db tx = None \<and> bd_map P db' = bd_map P db
       \<and> bd_txns P db' = (bd_txns P db)(tx \<mapsto> (bd_map P db, []))"
    "bd_map P (bd_Discard P db tx) = bd_map P db" "bd_txns P (bd_Discard P db tx) = (bd_txns P db)(tx := None)"
    "bd_map P (snd (bd_Sync P db)) = bd_map P db" "bd_txns P (snd (bd_Sync P db)) = bd_txns P db"
    "bd_Open P f = Inr db \<Longrightarrow> bd_map P db = bd_stored P f \<and> bd_stored P f [] = None \<and> bd_txns P db = Map.empty"
    "badger_delete_ok P" "badger_commit_ok P"
  using assms unfolding badger_ok_def by (elim conjE; simp)+

lemma badger_readsD:
  assumes "badger_ok P" "bd_txns P db tx = Some t"
  shows "k \<noteq> [] \<Longrightarrow> bd_Get P db tx k
      = (case txn_view t k of None \<Rightarrow> Inl LibNotFound | Some v \<Rightarrow> Inr (badger_item_of (k, v)))"
    "\<exists>xs. lists_kv xs (restrict_kv (txn_view t) (\<lambda>k. \<not> k < start)) \<and> bd_Seek P db tx start = map badger_item_of xs"
  using badger_okD(1) [OF assms(1)] assms(2) unfolding badger_reads_ok_def by blast+

lemma badger_writesD:
  assumes "badger_ok P" "bd_txns P db tx = Some (m, b)"
  shows "bd_Set P db tx k v = (r, db') \<Longrightarrow> bd_map P db' = bd_map P db
      \<and> (\<exists>b'. bd_txns P db' = (bd_txns P db)(tx \<mapsto> (m, b')) \<and> (r = None \<longrightarrow> k \<noteq> [] \<and> b' = b @ [BSet k v]))"
    "bd_Delete P db tx k = (r, db') \<Longrightarrow> bd_map P db' = bd_map P db
      \<and> (\<exists>b'. bd_txns P db' = (bd_txns P db)(tx \<mapsto> (m, b')) \<and> (r = None \<longrightarrow> b' = b @ [BDelete k])
          \<and> (r = Some LibNotFound \<longrightarrow> b' = b \<and> kv_apply m b k = None))"
    "bd_Commit P db tx = (r, db') \<Longrightarrow> bd_map P db' = (if r = None then kv_apply (bd_map P db) b else bd_map P db)
      \<and> (\<forall>tx'. tx' \<noteq> tx \<longrightarrow> bd_txns P db' tx' = bd_txns P db tx')"
proof -
  note W = badger_okD(2) [OF assms(1), unfolded badger_set_ok_def, rule_format, OF assms(2)]
    badger_okD(9) [OF assms(1), unfolded badger_delete_ok_def, rule_format, OF assms(2)]
    badger_okD(10) [OF assms(1), unfolded badger_commit_ok_def, rule_format, OF assms(2)]
  show "bd_Set P db tx k v = (r, db') \<Longrightarrow> bd_map P db' = bd_map P db
      \<and> (\<exists>b'. bd_txns P db' = (bd_txns P db)(tx \<mapsto> (m, b')) \<and> (r = None \<longrightarrow> k \<noteq> [] \<and> b' = b @ [BSet k v]))"
    by (rule W(1))
  show "bd_Delete P db tx k = (r, db') \<Longrightarrow> bd_map P db' = bd_map P db
      \<and> (\<exists>b'. bd_txns P db' = (bd_txns P db)(tx \<mapsto> (m, b')) \<and> (r = None \<longrightarrow> b' = b @ [BDelete k])
          \<and> (r = Some LibNotFound \<longrightarrow> b' = b \<and> kv_apply m b k = None))" by (rule W(2))
  show "bd_Commit P db tx = (r, db') \<Longrightarrow> bd_map P db' = (if r = None then kv_apply (bd_map P db) b else bd_map P db)
      \<and> (\<forall>tx'. tx' \<noteq> tx \<longrightarrow> bd_txns P db' tx' = bd_txns P db tx')" by (rule W(3))
qed

lemma badger_item_simps [simp]:
  "bi_KeyCopy (badger_item_of e) = fst e" "bi_ValueCopy (badger_item_of e) = Inr (snd e)"
  by (simp_all add: badger_item_of_def)

lemma badger_item_value_simps [simp]:
  "badger_item_value (Inl LibNotFound) = Inl ErrKeyNotFound"
  "badger_item_value (Inr (badger_item_of e)) = Inr (snd e)"
  by (simp_all add: badger_item_value_def)

subsection \<open>Batches\<close>

lemma badgerBatch_call_eq: "foldl badgerBatch_call ops b = ops @ map call_op b"
proof -
  have "badgerBatch_call ops c = ops @ [call_op c]" for ops c by (cases c) simp_all
  then show ?thesis by (induction b arbitrary: ops) simp_all
qed

text \<open>
  An operation inside the write transaction: it changes nothing but that transaction, and if it succeeds the
  transaction's writes amount to one more call.
\<close>

lemma badger_set_call:
  assumes "badger_ok P" "bd_txns P db tx = Some (m, b)" "bd_Set P db tx k v = (r, db')"
    and "kv_apply m b [] = None" "k \<noteq> [] \<Longrightarrow> kv_call (kv_apply m b) c = kv_call (kv_apply m b) (BSet k v)"
  shows "bd_map P db' = bd_map P db \<and> (\<exists>b'. bd_txns P db' = (bd_txns P db)(tx \<mapsto> (m, b'))
    \<and> (r = None \<longrightarrow> kv_apply m b' = kv_call (kv_apply m b) c \<and> kv_apply m b' [] = None))"
  using badger_writesD(1) [OF assms(1,2,3)] assms(4,5) by (auto simp: kv_call_def)

lemma merge_operand_decode: "merge_operand v = decodeInt64 v"
  by (simp add: merge_operand_def decodeInt64_def decodeUint64_def)

lemma badger_op_call:
  assumes "badger_ok P" "bd_txns P db tx = Some (m, b)" "kv_apply m b [] = None"
    and "badger_op P tx db (call_op c) = (r, db')"
  shows "bd_map P db' = bd_map P db \<and> (\<exists>b'. bd_txns P db' = (bd_txns P db)(tx \<mapsto> (m, b'))
    \<and> (r = None \<longrightarrow> kv_apply m b' = kv_call (kv_apply m b) c \<and> kv_apply m b' [] = None))"
proof (cases c)
  case (BSet k v)
  with assms(4) badger_set_call [OF assms(1,2) _ assms(3)] show ?thesis by (simp add: badger_op_def)
next
  case (BDelete k)
  with assms(4) obtain r0 where d: "bd_Delete P db tx k = (r0, db')" "r = (if r0 = Some LibNotFound then None else r0)"
    by (auto simp: badger_op_def split: prod.splits)
  from badger_writesD(2) [OF assms(1,2) d(1)] obtain b' where b': "bd_map P db' = bd_map P db"
    "bd_txns P db' = (bd_txns P db)(tx \<mapsto> (m, b'))" "r0 = None \<longrightarrow> b' = b @ [BDelete k]"
    "r0 = Some LibNotFound \<longrightarrow> b' = b \<and> kv_apply m b k = None" by blast
  have "r = None \<longrightarrow> kv_apply m b' = kv_call (kv_apply m b) c \<and> kv_apply m b' [] = None"
    using b'(3,4) d(2) assms(3) BDelete by (auto simp: kv_call_def)
  with b'(1,2) show ?thesis by blast
next
  case (BMerge k d)
  let ?v = "kv_apply m b k" and ?set = "\<lambda>old. bd_Set P db tx k (le_put 8 (old + merge_operand d)) = (r, db')"
  have op: "badger_op P tx db (call_op c) =
      (case bd_Get P db tx k of
         Inr item \<Rightarrow> (case bi_ValueCopy item of Inl err2 \<Rightarrow> (Some err2, db)
           | Inr val \<Rightarrow> bd_Set P db tx k (le_put 8 (merge_operand val + merge_operand d)))
       | Inl LibNotFound \<Rightarrow> bd_Set P db tx k (le_put 8 (0 + merge_operand d))
       | Inl err \<Rightarrow> (Some err, db))"
    by (simp add: BMerge badger_op_def split: sum.splits lib_error.splits)
  have g: "k \<noteq> [] \<Longrightarrow> bd_Get P db tx k = (case ?v of None \<Rightarrow> Inl LibNotFound | Some v \<Rightarrow> Inr (badger_item_of (k, v)))"
    using badger_readsD(1) [OF assms(1,2), of k] by (simp add: txn_view_def)
  consider (get) old where "?set old" "k \<noteq> [] \<Longrightarrow> old = merge_operand (case ?v of None \<Rightarrow> [] | Some v \<Rightarrow> v)"
    | (fail) "r \<noteq> None" "db' = db"
  proof (cases "bd_Get P db tx k")
    case (Inl err)
    show thesis
    proof (cases err)
      case LibNotFound
      with Inl op assms(4) have "?set 0" by simp
      moreover have "k \<noteq> [] \<Longrightarrow> 0 = merge_operand (case ?v of None \<Rightarrow> [] | Some v \<Rightarrow> v)"
        using g Inl LibNotFound by (simp add: merge_operand_def split: option.splits)
      ultimately show thesis by (rule get)
    next
      case (LibFailed msg)
      with Inl op assms(4) show thesis by (intro fail) auto
    qed
  next
    case (Inr item)
    show thesis
    proof (cases "bi_ValueCopy item")
      case (Inl err)
      with Inr op assms(4) show thesis by (intro fail) auto
    next
      case val: (Inr val)
      with Inr op assms(4) have "?set (merge_operand val)" by simp
      moreover have "k \<noteq> [] \<Longrightarrow> merge_operand val = merge_operand (case ?v of None \<Rightarrow> [] | Some v \<Rightarrow> v)"
        using g Inr val by (auto split: option.splits)
      ultimately show thesis by (rule get)
    qed
  qed
  then show ?thesis
  proof cases
    case get
    have "k \<noteq> [] \<Longrightarrow> kv_call (kv_apply m b) c = kv_call (kv_apply m b) (BSet k (le_put 8 (old + merge_operand d)))"
      using get(2) BMerge by (simp add: kv_call_def mergeInt64_def merge_operand_decode encodeInt64_def)
    from badger_set_call [OF assms(1,2) get(1) assms(3) this] show ?thesis .
  next
    case fail
    have "bd_txns P db = (bd_txns P db)(tx \<mapsto> (m, b))" using assms(2) by (simp add: map_upd_triv)
    with fail show ?thesis by blast
  qed
qed

lemma badger_ops_calls:
  assumes "badger_ok P" "bd_txns P db tx = Some (m, b)" "kv_apply m b [] = None"
    and "badger_ops P tx db (map call_op cs) = (r, db')"
  shows "bd_map P db' = bd_map P db \<and> (\<exists>b'. bd_txns P db' = (bd_txns P db)(tx \<mapsto> (m, b'))
    \<and> (r = None \<longrightarrow> kv_apply m b' = kv_apply (kv_apply m b) cs \<and> kv_apply m b' [] = None))"
  using assms(2-)
proof (induction cs arbitrary: db b)
  case Nil
  then have "bd_txns P db = (bd_txns P db)(tx \<mapsto> (m, b))" by (simp add: map_upd_triv)
  moreover have "db' = db" "r = None" using Nil by simp_all
  ultimately show ?case using Nil(2) by (metis kv_apply_simps(1))
next
  case (Cons c cs)
  obtain r1 db1 where o: "badger_op P tx db (call_op c) = (r1, db1)" by fastforce
  from badger_op_call [OF assms(1) Cons.prems(1,2) o] obtain b1 where b1: "bd_map P db1 = bd_map P db"
    "bd_txns P db1 = (bd_txns P db)(tx \<mapsto> (m, b1))"
    "r1 = None \<longrightarrow> kv_apply m b1 = kv_call (kv_apply m b) c \<and> kv_apply m b1 [] = None" by blast
  show ?case
  proof (cases r1)
    case None
    with Cons.prems(3) o have "badger_ops P tx db1 (map call_op cs) = (r, db')" by simp
    moreover have "bd_txns P db1 tx = Some (m, b1)" "kv_apply m b1 [] = None" using b1(2,3) None by (simp, blast)
    ultimately obtain b' where b': "bd_map P db' = bd_map P db1"
      "bd_txns P db' = (bd_txns P db1)(tx \<mapsto> (m, b'))"
      "r = None \<longrightarrow> kv_apply m b' = kv_apply (kv_apply m b1) cs \<and> kv_apply m b' [] = None" using Cons.IH by blast
    have "bd_txns P db' = (bd_txns P db)(tx \<mapsto> (m, b'))" unfolding b'(2) b1(2) by simp
    with b'(1,3) b1(1,3) None show ?thesis by auto
  next
    case (Some err)
    with Cons.prems(3) o have "r \<noteq> None" "db' = db1" by auto
    with b1 show ?thesis by blast
  qed
qed

subsection \<open>Invariant and abstraction\<close>

definition bdg_invar :: "('db, 'tx, 'f) badgerEngine \<Rightarrow> bool" where
  "bdg_invar e \<longleftrightarrow> badger_ok (bdgPkg e) \<and> bd_map (bdgPkg e) (bdgDB e) [] = None"

definition bdg_contents :: "('db, 'tx, 'f) badgerEngine \<Rightarrow> kv" where
  "bdg_contents e = bd_map (bdgPkg e) (bdgDB e)"

definition bdg_live :: "('db, 'tx, 'f) badgerEngine \<Rightarrow> 'tx badgerSnapshot \<Rightarrow> bool" where
  "bdg_live e s \<longleftrightarrow> (\<exists>m. bd_txns (bdgPkg e) (bdgDB e) (bsTxn s) = Some (m, []) \<and> m [] = None)"

definition bdg_view :: "('db, 'tx, 'f) badgerEngine \<Rightarrow> 'tx badgerSnapshot \<Rightarrow> kv" where
  "bdg_view e s = fst (the (bd_txns (bdgPkg e) (bdgDB e) (bsTxn s)))"

lemmas bdg_defs = bdg_invar_def bdg_contents_def bdg_live_def bdg_view_def

lemma bdg_liveE:
  assumes "bdg_live e s"
  obtains m where "bd_txns (bdgPkg e) (bdgDB e) (bsTxn s) = Some (m, [])" "m [] = None" "bdg_view e s = m"
  using assms by (auto simp: bdg_defs)

lemma txn_view_fresh [simp]: "txn_view (m, []) = m"
  by (simp add: txn_view_def)

lemma badger_reads:
  assumes "badger_ok P" "bd_txns P db tx = Some (m, [])" "k \<noteq> []"
  shows "bd_Get P db tx k = (case m k of None \<Rightarrow> Inl LibNotFound | Some v \<Rightarrow> Inr (badger_item_of (k, v)))"
    "badger_item_value (bd_Get P db tx k) = kv_result (m k)"
  using badger_readsD(1) [OF assms] by (simp_all split: option.splits)

lemma badger_ApplyBatch_outcome:
  assumes "bdg_invar e" "badger_ApplyBatch e b sync = (r, e')"
  shows "bdg_invar e'" "bdg_contents e' = (if r = None then kv_apply (bdg_contents e) b else bdg_contents e)"
    "bdg_live e s \<Longrightarrow> bdg_live e' s \<and> bdg_view e' s = bdg_view e s"
proof -
  let ?P = "bdgPkg e" and ?m = "bd_map (bdgPkg e) (bdgDB e)"
  have ok: "badger_ok ?P" and m: "?m [] = None" using assms(1) by (simp_all add: bdg_invar_def)
  obtain tx db where n: "bd_NewTransaction ?P (bdgDB e) True = (tx, db)" by fastforce
  note N = badger_okD(3) [OF ok n]
  obtain r1 db1 where o: "badger_ops ?P tx db (map call_op b) = (r1, db1)" by fastforce
  have "bd_txns ?P db tx = Some (?m, [])" "kv_apply ?m [] [] = None" using N m by simp_all
  from badger_ops_calls [OF ok this o] N obtain b' where b': "bd_map ?P db1 = ?m"
    "bd_txns ?P db1 = (bd_txns ?P (bdgDB e))(tx \<mapsto> (?m, b'))"
    "r1 = None \<longrightarrow> kv_apply ?m b' = kv_apply ?m b \<and> kv_apply ?m b' [] = None" by auto
  obtain r2 db2 where c: "(case r1 of Some err \<Rightarrow> (Some err, db1) | None \<Rightarrow> bd_Commit ?P db1 tx) = (r2, db2)" by fastforce
  have t: "bd_txns ?P db1 tx = Some (?m, b')" using b'(2) by simp
  have C: "bd_map ?P db2 = (if r2 = None then kv_apply ?m b else ?m)" "r2 = None \<longrightarrow> kv_apply ?m b [] = None"
    "tx' \<noteq> tx \<Longrightarrow> bd_txns ?P db2 tx' = bd_txns ?P (bdgDB e) tx'" for tx'
    using c b' badger_writesD(3) [OF ok t, of r2 db2] by (auto split: option.splits)
  have e': "e' = e\<lparr>bdgDB := bd_Discard ?P db2 tx\<rparr>" "r = lib_fail r2"
    using assms(2) n o c
    by (auto simp: badger_ApplyBatch_def badgerBatch_call_eq Let_def split: option.splits prod.splits)
  have r: "r = None \<longleftrightarrow> r2 = None" using e'(2) by (simp add: lib_fail_def)
  show "bdg_invar e'" "bdg_contents e' = (if r = None then kv_apply (bdg_contents e) b else bdg_contents e)"
    using assms(1) C(1,2) e'(1) r by (auto simp: bdg_invar_def bdg_contents_def badger_okD(4) [OF ok])
  show "bdg_live e s \<Longrightarrow> bdg_live e' s \<and> bdg_view e' s = bdg_view e s"
    using C(3) [of "bsTxn s"] N e'(1) by (auto simp: bdg_live_def bdg_view_def badger_okD(5) [OF ok])
qed

subsection \<open>Scans\<close>

lemma badger_collect_filter:
  assumes "sorted_wrt (<) (map fst xs)"
  shows "badger_collect skip stop (map badger_item_of xs)
    = filter (\<lambda>(k, v). (stop = [] \<or> \<not> stop \<le> k) \<and> \<not> skip k) xs"
  using assms
proof (induction xs)
  case (Cons e xs)
  show ?case
  proof (cases "stop \<noteq> [] \<and> stop \<le> fst e")
    case True
    then have "\<forall>(k, v) \<in> set xs. stop \<le> k" using Cons.prems by fastforce
    then have "filter (\<lambda>(k, v). (stop = [] \<or> \<not> stop \<le> k) \<and> \<not> skip k) xs = []"
      using True by (auto simp: filter_empty_conv)
    with True show ?thesis by (cases e) (simp add: Let_def)
  next
    case False
    then have s: "stop = [] \<or> \<not> stop \<le> fst e" by blast
    have "sorted_wrt (<) (map fst xs)" using Cons.prems by simp
    from Cons.IH [OF this] s show ?thesis by (auto simp: Let_def case_prod_beta)
  qed
qed simp

lemma badger_collect_lists:
  assumes "badger_ok P" "bd_txns P db tx = Some (m, [])"
  shows "lists_kv (badger_collect skip stop (bd_Seek P db tx start))
    (restrict_kv m (\<lambda>k. in_range start stop k \<and> \<not> skip k))"
proof -
  from badger_readsD(2) [OF assms, of start] obtain xs where xs: "lists_kv xs (restrict_kv m (\<lambda>k. \<not> k < start))"
    "bd_Seek P db tx start = map badger_item_of xs" by auto
  have r: "restrict_kv (restrict_kv m (\<lambda>k. \<not> k < start)) (\<lambda>k. (stop = [] \<or> \<not> stop \<le> k) \<and> \<not> skip k)
      = restrict_kv m (\<lambda>k. in_range start stop k \<and> \<not> skip k)"
    by (auto simp: restrict_kv_def in_range_def fun_eq_iff)
  have "sorted_wrt (<) (map fst xs)" using xs(1) by (simp add: lists_kv_def)
  from badger_collect_filter [OF this, of skip stop] lists_kv_filter [OF xs(1), of "\<lambda>k. (stop = [] \<or> \<not> stop \<le> k) \<and> \<not> skip k"]
  show ?thesis by (simp add: xs(2) r)
qed

lemma badger_begin:
  assumes "bdg_invar e" "bd_NewTransaction (bdgPkg e) (bdgDB e) upd = (tx, db)"
  shows "bd_txns (bdgPkg e) db tx = Some (bdg_contents e, [])"
    "bdg_invar (e\<lparr>bdgDB := db\<rparr>)" "bdg_contents (e\<lparr>bdgDB := db\<rparr>) = bdg_contents e"
    "bdg_live (e\<lparr>bdgDB := db\<rparr>) \<lparr>bsTxn = tx, bsSeq = n\<rparr>" "bdg_view (e\<lparr>bdgDB := db\<rparr>) \<lparr>bsTxn = tx, bsSeq = n\<rparr> = bdg_contents e"
    "bdg_live e s \<Longrightarrow> bdg_live (e\<lparr>bdgDB := db\<rparr>) s \<and> bdg_view (e\<lparr>bdgDB := db\<rparr>) s = bdg_view e s"
proof -
  have ok: "badger_ok (bdgPkg e)" using assms(1) by (simp add: bdg_invar_def)
  note N = badger_okD(3) [OF ok assms(2)]
  from N assms(1) show "bd_txns (bdgPkg e) db tx = Some (bdg_contents e, [])"
    "bdg_invar (e\<lparr>bdgDB := db\<rparr>)" "bdg_contents (e\<lparr>bdgDB := db\<rparr>) = bdg_contents e"
    "bdg_live (e\<lparr>bdgDB := db\<rparr>) \<lparr>bsTxn = tx, bsSeq = n\<rparr>" "bdg_view (e\<lparr>bdgDB := db\<rparr>) \<lparr>bsTxn = tx, bsSeq = n\<rparr> = bdg_contents e"
    "bdg_live e s \<Longrightarrow> bdg_live (e\<lparr>bdgDB := db\<rparr>) s \<and> bdg_view (e\<lparr>bdgDB := db\<rparr>) s = bdg_view e s"
    by (auto simp: bdg_defs)
qed

lemma badger_Get_contents:
  assumes "bdg_invar e" "k \<noteq> []"
  shows "badger_Get e k = kv_result (bdg_contents e k)"
proof -
  obtain tx db where n: "bd_NewTransaction (bdgPkg e) (bdgDB e) False = (tx, db)" by fastforce
  have "badger_ok (bdgPkg e)" using assms(1) by (simp add: bdg_invar_def)
  from badger_reads(2) [OF this badger_begin(1) [OF assms(1) n] assms(2)] n show ?thesis by (simp add: badger_Get_def)
qed

lemma badger_GetSnapshot_outcome:
  assumes "bdg_invar e" "badger_GetSnapshot e = (s, e')"
  shows "bdg_invar e'" "bdg_contents e' = bdg_contents e" "bdg_live e' s" "bdg_view e' s = bdg_contents e"
    "bdg_live e s' \<Longrightarrow> bdg_live e' s' \<and> bdg_view e' s' = bdg_view e s'"
proof -
  obtain tx db where n: "bd_NewTransaction (bdgPkg e) (bdgDB e) False = (tx, db)" by fastforce
  then have e': "e' = e\<lparr>bdgDB := db\<rparr>" "s = \<lparr>bsTxn = tx, bsSeq = badger_CurrentSequence e\<rparr>"
    using assms(2) by (simp_all add: badger_GetSnapshot_def)
  show "bdg_invar e'" "bdg_contents e' = bdg_contents e" "bdg_live e' s" "bdg_view e' s = bdg_contents e"
    "bdg_live e s' \<Longrightarrow> bdg_live e' s' \<and> bdg_view e' s' = bdg_view e s'"
    using badger_begin(2-6) [OF assms(1) n] by (simp_all add: e')
qed

interpretation bdg: scanning_engine badger_engine bdg_invar bdg_contents bdg_live bdg_view "\<lambda>_ _. True" "\<lambda>k. k \<noteq> []"
proof (unfold_locales, goal_cases)
  case (1 e k)
  then show ?case by (simp add: badger_engine_def badger_Get_contents)
next
  case (2 e s e')
  then show ?case using badger_GetSnapshot_outcome(1-4) [of e s e'] by (simp add: badger_engine_def)
next
  case (3 e s e' s')
  then show ?case using badger_GetSnapshot_outcome(5) [of e s e'] by (simp add: badger_engine_def)
next
  case (4 e b sync e')
  then show ?case using badger_ApplyBatch_outcome [of e b sync None e'] by (simp add: badger_engine_def)
next
  case (5 e b sync e' s)
  then show ?case using badger_ApplyBatch_outcome [of e b sync None e'] by (simp add: badger_engine_def)
next
  case (6 e b sync err e')
  then show ?case using badger_ApplyBatch_outcome [of e b sync "Some err" e'] by (simp add: badger_engine_def)
next
  case (7 e r e')
  then have ok: "badger_ok (bdgPkg e)" by (simp add: bdg_invar_def)
  from 7(2) have "e' = e\<lparr>bdgDB := snd (bd_Sync (bdgPkg e) (bdgDB e))\<rparr>"
    by (auto simp: badger_engine_def badger_Sync_def split: prod.splits)
  with 7(1) badger_okD(6,7) [OF ok] show ?case by (simp add: bdg_defs)
next
  case (8 e s k)
  then have ok: "badger_ok (bdgPkg e)" by (simp add: bdg_invar_def)
  from 8(2) obtain m where m: "bd_txns (bdgPkg e) (bdgDB e) (bsTxn s) = Some (m, [])" "bdg_view e s = m"
    by (rule bdg_liveE)
  from badger_reads(2) [OF ok m(1) 8(3)] m(2) show ?case by (simp add: badger_engine_def badger_snap_Get_def)
next
  case (9 e s k)
  then have ok: "badger_ok (bdgPkg e)" by (simp add: bdg_invar_def)
  from 9(2) obtain m where m: "bd_txns (bdgPkg e) (bdgDB e) (bsTxn s) = Some (m, [])" "bdg_view e s = m"
    by (rule bdg_liveE)
  have "versionKey k \<noteq> []" by (simp add: versionKey_def verPrefix_def go_string_def)
  from badger_reads(1) [OF ok m(1) this] m(2) show ?case
    by (simp add: badger_engine_def badger_snap_GetVersion_def stored_version_def split: option.splits)
next
  case (10 e s start stop)
  then have ok: "badger_ok (bdgPkg e)" by (simp add: bdg_invar_def)
  from 10(2) obtain m where m: "bd_txns (bdgPkg e) (bdgDB e) (bsTxn s) = Some (m, [])" "bdg_view e s = m"
    by (rule bdg_liveE)
  from badger_collect_lists [OF ok m(1)] m(2) show ?case
    by (simp add: badger_engine_def badger_snap_NewIter_def new_iter_def)
next
  case (11 e s k v)
  then show ?case by (auto simp: bdg_live_def bdg_view_def)
next
  case (12 e start stop)
  then have ok: "badger_ok (bdgPkg e)" by (simp add: bdg_invar_def)
  obtain tx db where n: "bd_NewTransaction (bdgPkg e) (bdgDB e) False = (tx, db)" by fastforce
  from badger_collect_lists [OF ok badger_begin(1) [OF 12 n], of "\<lambda>k. False"] n show ?case
    by (simp add: badger_engine_def badger_RawIter_def new_iter_def)
qed

interpretation bdgt: total_engine badger_engine bdg_invar bdg_contents bdg_live bdg_view "\<lambda>_ _. True" "\<lambda>k. k \<noteq> []"
  by unfold_locales simp

interpretation bdgf: full_engine badger_engine bdg_invar bdg_contents bdg_live bdg_view "\<lambda>_ _. True" "\<lambda>k. k \<noteq> []"
  by unfold_locales

subsection \<open>Checkpoints\<close>

lemma badger_dump_items_fresh:
  "distinct (map fst (data @ xs)) \<Longrightarrow> badger_dump_items data (map badger_item_of xs) = Inr (data @ xs)"
proof (induction xs arbitrary: data)
  case (Cons e xs)
  have "AList.update (fst e) (snd e) data = data @ [e]"
    using AList_update_fresh [of "fst e" data "snd e"] Cons.prems by auto
  with Cons.IH [of "data @ [e]"] Cons.prems show ?case by simp
qed simp

lemma badger_CreateCheckpoint_dump:
  assumes "bdg_invar e"
  shows "\<exists>data. lists_kv data (bdg_contents e)
    \<and> badger_CreateCheckpoint e dir = Inr (dir\<lparr>bdDump := Some (badger_encodeDump data)\<rparr>)"
proof -
  have ok: "badger_ok (bdgPkg e)" using assms by (simp add: bdg_invar_def)
  obtain tx db where n: "bd_NewTransaction (bdgPkg e) (bdgDB e) False = (tx, db)" by fastforce
  have nl: "\<not> (k :: bytes) < []" for k by simp
  from badger_readsD(2) [OF ok badger_begin(1) [OF assms n], of "[]"] obtain xs where
    xs: "lists_kv xs (bdg_contents e)" "bd_Seek (bdgPkg e) db tx [] = map badger_item_of xs"
    by (auto simp: restrict_kv_def nl)
  have "distinct (map fst xs)" using xs(1) by (simp add: lists_kv_def sorted_wrt_less_distinct)
  with badger_dump_items_fresh [of "[]" xs] xs n show ?thesis by (auto simp: badger_CreateCheckpoint_def)
qed

lemma badger_Open_contents:
  assumes "badger_ok P" "badger_Open P dir = Inr e"
  shows "bdg_invar e" "bdg_contents e = bd_stored P (bdFiles dir)"
  using assms badger_okD(8) [OF assms(1)] by (auto simp: badger_Open_def bdg_defs split: sum.splits)

end
