(* ===== verification/Badger_Claims.thy ===== *)
theory Badger_Claims
  imports Badger_Props
begin

text \<open>
  Properties of the Badger engine, with an executable instance of the library for their witnesses.
\<close>

subsection \<open>An instance of the library\<close>

text \<open>
  A store that keeps its pairs in a list; a transaction is a copy of the pairs with the calls made in it, and a
  commit performs the calls on the pairs of the store.
\<close>

type_synonym badger_ref = "data_map \<times> (nat \<times> data_map \<times> batch) list"

definition ref_keys :: "data_map \<Rightarrow> batch \<Rightarrow> bytes list" where
  "ref_keys st b = filter (\<lambda>k. kv_apply (map_of st) b k \<noteq> None) (sort (remdups (map fst st @ map call_key b)))"

definition ref_pairs :: "data_map \<Rightarrow> batch \<Rightarrow> data_map" where
  "ref_pairs st b = map (\<lambda>k. (k, the (kv_apply (map_of st) b k))) (ref_keys st b)"

definition ref_put :: "badger_ref \<Rightarrow> nat \<Rightarrow> batch_call \<Rightarrow> badger_ref" where
  "ref_put db tx c = (case map_of (snd db) tx of None \<Rightarrow> db
     | Some (st, b) \<Rightarrow> (fst db, (tx, st, b @ [c]) # snd db))"

definition ref_badger :: "(badger_ref, nat, data_map) badger_pkg" where
  "ref_badger =
     \<lparr>bd_Open = (\<lambda>f. Inr (filter (\<lambda>e. fst e \<noteq> []) f, [])), bd_Close = (\<lambda>db. (None, db)), bd_Sync = (\<lambda>db. (None, db)),
      bd_NewTransaction = (\<lambda>db upd. let tx = Suc (sum_list (map fst (snd db))) in (tx, (fst db, (tx, fst db, []) # snd db))),
      bd_Get = (\<lambda>db tx k. case map_of (snd db) tx of None \<Rightarrow> Inl (LibFailed ''discarded'')
         | Some (st, b) \<Rightarrow> (case kv_apply (map_of st) b k of None \<Rightarrow> Inl LibNotFound | Some v \<Rightarrow> Inr (badger_item_of (k, v)))),
      bd_Set = (\<lambda>db tx k v. if k = [] then (Some (LibFailed ''empty key''), db) else (None, ref_put db tx (BSet k v))),
      bd_Delete = (\<lambda>db tx k. (None, ref_put db tx (BDelete k))),
      bd_Commit = (\<lambda>db tx. case map_of (snd db) tx of None \<Rightarrow> (Some (LibFailed ''discarded''), db)
         | Some (st, b) \<Rightarrow> (None, (ref_pairs (fst db) b, snd db))),
      bd_Discard = (\<lambda>db tx. (fst db, filter (\<lambda>e. fst e \<noteq> tx) (snd db))),
      bd_Seek = (\<lambda>db tx start. case map_of (snd db) tx of None \<Rightarrow> []
         | Some (st, b) \<Rightarrow> map badger_item_of (filter (\<lambda>(k, v). \<not> k < start) (ref_pairs st b))),
      bd_map = (\<lambda>db. map_of (fst db)),
      bd_txns = (\<lambda>db tx. map_option (\<lambda>(st, b). (map_of st, b)) (map_of (snd db) tx)),
      bd_stored = (\<lambda>f. map_of (filter (\<lambda>e. fst e \<noteq> []) f))\<rparr>"

lemma kv_apply_dom: "kv_apply m b k = Some v \<Longrightarrow> m k \<noteq> None \<or> k \<in> call_key ` set b"
  using kv_apply_untouched [of k b m] by (cases "m k") auto

lemma ref_pairs_lists: "lists_kv (ref_pairs st b) (kv_apply (map_of st) b)"
proof -
  have "sorted_wrt (<) (ref_keys st b)" by (simp add: ref_keys_def strict_sorted_iff sorted_wrt_filter)
  moreover have "map fst (ref_pairs st b) = ref_keys st b" by (simp add: ref_pairs_def comp_def)
  moreover have k: "k \<in> set (ref_keys st b) \<longleftrightarrow> kv_apply (map_of st) b k \<noteq> None" for k
    using kv_apply_dom [of "map_of st" b k] by (auto simp: ref_keys_def map_of_eq_None_iff)
  have "map_of (ref_pairs st b) = kv_apply (map_of st) b"
    using k by (auto simp: ref_pairs_def map_of_map_restrict fun_eq_iff restrict_map_def)
  ultimately show ?thesis by (simp add: lists_kv_def)
qed

lemma ref_reads_ok: "badger_reads_ok ref_badger"
proof -
  have "\<exists>xs. lists_kv xs (restrict_kv (kv_apply (map_of st) b) (\<lambda>k. \<not> k < start))
      \<and> map badger_item_of (filter (\<lambda>(k, v). \<not> k < start) (ref_pairs st b)) = map badger_item_of xs" for st b start
    using lists_kv_filter [OF ref_pairs_lists, of "\<lambda>k. \<not> k < start"] by blast
  then show ?thesis by (auto simp: badger_reads_ok_def ref_badger_def txn_view_def)
qed

lemma map_option_upd: "(\<lambda>t. map_option f ((m(x \<mapsto> y)) t)) = (\<lambda>t. map_option f (m t))(x \<mapsto> f y)"
  by (simp add: fun_eq_iff)

lemma ref_set_ok: "badger_set_ok ref_badger"
proof -
  have "\<exists>b'. (\<lambda>t. map_option (\<lambda>(st, b). (map_of st, b)) (m t)) = (\<lambda>t. map_option (\<lambda>(st, b). (map_of st, b)) (m t))(tx \<mapsto> (map_of st, b'))"
    if "m tx = Some (st, b)" for m :: "nat \<Rightarrow> (data_map \<times> batch) option" and tx st b
    using that by (intro exI [of _ b]) (simp add: fun_eq_iff)
  then show ?thesis
    unfolding badger_set_ok_def ref_badger_def
    by (auto simp: ref_put_def map_option_upd fun_eq_iff split: if_splits)
qed

lemma ref_delete_ok: "badger_delete_ok ref_badger"
  unfolding badger_delete_ok_def ref_badger_def by (auto simp: ref_put_def map_option_upd fun_eq_iff)

lemma ref_commit_ok: "badger_commit_ok ref_badger"
  unfolding badger_commit_ok_def ref_badger_def using ref_pairs_lists by (auto simp: lists_kv_def)

lemma ref_badger_ok: "badger_ok ref_badger"
  unfolding badger_ok_def
  by (intro conjI ref_reads_ok ref_set_ok ref_delete_ok ref_commit_ok)
    (auto simp: ref_badger_def fresh_handle map_of_drop_key Let_def fun_eq_iff)

definition bdg0 :: "data_map \<Rightarrow> (badger_ref, nat, data_map) badgerEngine" where
  "bdg0 f = \<lparr>bdgPkg = ref_badger, bdgDB = (filter (\<lambda>e. fst e \<noteq> []) f, [])\<rparr>"

lemma bdg0_open: "badger_Open ref_badger \<lparr>bdFiles = f, bdDump = d\<rparr> = Inr (bdg0 f)"
  by (simp add: badger_Open_def bdg0_def ref_badger_def)

lemmas bdg0_invar = badger_Open_contents(1) [OF ref_badger_ok bdg0_open]

subsection \<open>Properties\<close>

text \<open>
  C23. A batch on the Badger engine is applied as a whole or not at all, whichever of its calls, or the commit, the
  library refuses: after a success every key reads as after the calls in their order, merges computed on the values the
  batch itself wrote before; after an error every key reads as before. Snapshots taken earlier read as before in
  either case.
\<close>

theorem badger_batch_atomic:
  assumes "bdg_invar e" "badger_ApplyBatch e b sync = (r, e')" "k \<noteq> []"
  shows "badger_Get e' k = (if r = None then kv_result (kv_apply (bdg_contents e) b k) else badger_Get e k)
    \<and> (bdg_live e s \<longrightarrow> badger_snap_Get e' s k = badger_snap_Get e s k)"
proof -
  note A = badger_ApplyBatch_outcome [OF assms(1,2)]
  have "badger_snap_Get e' s k = badger_snap_Get e s k" if l: "bdg_live e s"
    using bdg.snap_get [OF assms(1) l assms(3)] bdg.snap_get [OF A(1), of s k] A(3) [OF l] assms(3)
    by (simp add: badger_engine_def)
  then show ?thesis
    using A(2) badger_Get_contents [OF assms(1,3)] badger_Get_contents [OF A(1) assms(3)] by simp
qed

text \<open>A batch whose last call has the empty key, which the library refuses.\<close>

theorem badger_batch_atomic_witness:
  "badger_Get (snd (badger_ApplyBatch (bdg0 [([1], [7])]) [BSet [1] [8], BMerge [2] [], BSet [] [9]] False)) [1] = Inr [7]"
proof -
  let ?a = "badger_ApplyBatch (bdg0 [([1], [7])]) [BSet [1] [8], BMerge [2] [], BSet [] [9]] False"
  have a: "?a = (fst ?a, snd ?a)" and k: "[1] \<noteq> ([] :: bytes)" by simp_all
  have f: "fst ?a \<noteq> None" and g: "badger_Get (bdg0 [([1], [7])]) [1] = Inr [7]" by code_simp+
  show ?thesis using badger_batch_atomic [OF bdg0_invar a k] f g by simp
qed

text \<open>
  A checkpoint of the Badger engine is complete but is not read back: \<open>CreateCheckpoint\<close> writes every pair to the
  file \<open>dump\<close>, and an engine opened on that directory shows what the library's own files there held before, so
  nothing at all on a new directory.
\<close>

theorem badger_checkpoint_not_loaded:
  assumes "bdg_invar e" "badger_CreateCheckpoint e dir = Inr dir'" "badger_Open (bdgPkg e) dir' = Inr e2"
  shows "bdg_contents e2 = bd_stored (bdgPkg e) (bdFiles dir)
    \<and> (\<exists>data. bdDump dir' = Some (badger_encodeDump data) \<and> lists_kv data (bdg_contents e))"
proof -
  have ok: "badger_ok (bdgPkg e)" using assms(1) by (simp add: bdg_invar_def)
  from badger_CreateCheckpoint_dump [OF assms(1), of dir] assms(2) obtain data where
    "lists_kv data (bdg_contents e)" "dir' = dir\<lparr>bdDump := Some (badger_encodeDump data)\<rparr>" by auto
  then show ?thesis using badger_Open_contents(2) [OF ok assms(3)] by auto
qed

theorem badger_checkpoint_not_loaded_witness:
  "\<exists>dir' e2. badger_CreateCheckpoint (bdg0 [([1], [7])]) \<lparr>bdFiles = [], bdDump = None\<rparr> = Inr dir'
     \<and> badger_Open ref_badger dir' = Inr e2 \<and> bdg_contents (bdg0 [([1], [7])]) [1] = Some [7] \<and> bdg_contents e2 [1] = None"
proof -
  let ?e = "bdg0 [([1], [7])]"
  obtain dir' where d: "badger_CreateCheckpoint ?e \<lparr>bdFiles = [], bdDump = None\<rparr> = Inr dir'" "bdFiles dir' = []"
    using badger_CreateCheckpoint_dump [OF bdg0_invar, of "[([1], [7])]" "\<lparr>bdFiles = [], bdDump = None\<rparr>"] by auto
  have p: "bdgPkg ?e = ref_badger" by (simp add: bdg0_def)
  have o: "badger_Open (bdgPkg ?e) dir' = Inr (bdg0 [])"
    using d(2) by (simp add: badger_Open_def p) (simp add: ref_badger_def bdg0_def)
  from badger_checkpoint_not_loaded [OF bdg0_invar d(1) o] have "bdg_contents (bdg0 []) [1] = None"
    by (simp add: p) (simp add: ref_badger_def)
  moreover have "bdg_contents ?e [1] = Some [7]" by code_simp
  ultimately show ?thesis using d(1) o p by auto
qed

end
