(* ===== verification/Oshodi.thy ===== *)
theory Oshodi
  imports Backend
begin

text \<open>
  The Oshodi engine of \<open>src/engine/oshodi/oshodi.go\<close>. The library \<open>github.com/agberohq/oshodi\<close> is not part of the
  repository: it is the parameter \<open>oshPkg\<close>, a record of the operations the engine calls on a database and on its one
  bucket. \<open>oshodi_ok\<close> states what the engine relies on. Timing is left out.
\<close>

subsection \<open>The library\<close>

record ('db, 'f) oshodi_pkg =
  os_Open :: "'f \<Rightarrow> lib_error + 'db"
  os_Close :: "'db \<Rightarrow> lib_error option \<times> 'db"
  os_Flush :: "'db \<Rightarrow> lib_error option \<times> 'db"
  os_Get :: "'db \<Rightarrow> bytes \<Rightarrow> lib_error + bytes"
  os_Set :: "'db \<Rightarrow> bytes \<Rightarrow> bytes \<Rightarrow> lib_error option \<times> 'db"
  os_Delete :: "'db \<Rightarrow> bytes \<Rightarrow> lib_error option \<times> 'db"
  os_Scan :: "'db \<Rightarrow> data_map \<times> lib_error option"
  os_file :: "'db \<Rightarrow> 'f"
  os_map :: "'db \<Rightarrow> kv"
  os_stored :: "'f \<Rightarrow> kv"

text \<open>
  A bucket is a map: \<open>Get\<close>, \<open>Set\<close> and \<open>Delete\<close> read and change one key, \<open>Scan\<close> visits every pair once, in some
  order, and a flushed database is what its file holds. An operation that returns an error has changed nothing. The
  last three fields are the state this speaks of: the file of a database, its pairs, and the pairs in a file.
\<close>

definition oshodi_ok :: "('db, 'f) oshodi_pkg \<Rightarrow> bool" where
  "oshodi_ok P \<longleftrightarrow>
     (\<forall>db k. os_Get P db k = (case os_map P db k of None \<Rightarrow> Inl LibNotFound | Some v \<Rightarrow> Inr v))
     \<and> (\<forall>db k v r db'. os_Set P db k v = (r, db') \<longrightarrow>
          os_map P db' = (if r = None then (os_map P db)(k \<mapsto> v) else os_map P db))
     \<and> (\<forall>db k r db'. os_Delete P db k = (r, db') \<longrightarrow>
          os_map P db' = (if r = None then (os_map P db)(k := None) else os_map P db))
     \<and> (\<forall>db xs. os_Scan P db = (xs, None) \<longrightarrow> distinct (map fst xs) \<and> map_of xs = os_map P db)
     \<and> (\<forall>db r db'. os_Flush P db = (r, db') \<longrightarrow> os_map P db' = os_map P db
          \<and> (r = None \<longrightarrow> os_stored P (os_file P db') = os_map P db))
     \<and> (\<forall>f db. os_Open P f = Inr db \<longrightarrow> os_map P db = os_stored P f)"

text \<open>A library none of whose operations fails.\<close>

definition oshodi_reliable :: "('db, 'f) oshodi_pkg \<Rightarrow> bool" where
  "oshodi_reliable P \<longleftrightarrow> (\<forall>db k v. fst (os_Set P db k v) = None) \<and> (\<forall>db k. fst (os_Delete P db k) = None)
     \<and> (\<forall>db. fst (os_Flush P db) = None) \<and> (\<forall>db. snd (os_Scan P db) = None)"

subsection \<open>The engine\<close>

record ('db, 'f) oshodiEngine =
  oshPkg :: "('db, 'f) oshodi_pkg"
  oshDB :: 'db
  oshSeq :: uint64

definition readApplied :: "('db, 'f) oshodi_pkg \<Rightarrow> 'db \<Rightarrow> lib_error + uint64" where
  "readApplied P db =
     (case os_Get P db appliedKey of
        Inl err \<Rightarrow> if err = LibNotFound then Inr 0 else Inl err
      | Inr val \<Rightarrow> if length val < 8 then Inr 0 else Inr (decodeUint64 val))"

definition oshodi_Open :: "('db, 'f) oshodi_pkg \<Rightarrow> 'f \<Rightarrow> lib_error + ('db, 'f) oshodiEngine" where
  "oshodi_Open P f =
     (case os_Open P f of
        Inl err \<Rightarrow> Inl err
      | Inr db \<Rightarrow> (case readApplied P db of
          Inl err \<Rightarrow> Inl err | Inr seq \<Rightarrow> Inr \<lparr>oshPkg = P, oshDB = db, oshSeq = seq\<rparr>))"

definition oshodi_Close :: "('db, 'f) oshodi_pkg \<Rightarrow> 'db option \<Rightarrow> lib_error option \<times> 'db option" where
  "oshodi_Close P db = (case db of None \<Rightarrow> (None, None) | Some d \<Rightarrow> (case os_Close P d of (err, d') \<Rightarrow> (err, Some d')))"

definition oshodi_Get :: "('db, 'f) oshodiEngine \<Rightarrow> bytes \<Rightarrow> engine_error + bytes" where
  "oshodi_Get e key = lib_result (os_Get (oshPkg e) (oshDB e) key)"

definition oshodi_CurrentSequence :: "('db, 'f) oshodiEngine \<Rightarrow> uint64" where
  "oshodi_CurrentSequence e = (case readApplied (oshPkg e) (oshDB e) of Inl err \<Rightarrow> oshSeq e | Inr val \<Rightarrow> val)"

subsection \<open>Batches\<close>

primrec oshodiBatch_call :: "batchOp list \<Rightarrow> batch_call \<Rightarrow> batchOp list" where
  "oshodiBatch_call ops (BSet key value) = ops @ [\<lparr>bop = CHR ''s'', bkey = key, bvalue = value\<rparr>]"
| "oshodiBatch_call ops (BDelete key) = ops @ [\<lparr>bop = CHR ''d'', bkey = key, bvalue = []\<rparr>]"
| "oshodiBatch_call ops (BMerge key value) = ops @ [\<lparr>bop = CHR ''m'', bkey = key, bvalue = value\<rparr>]"

text \<open>One operation. A missing key reads as the empty slice, which decodes to zero.\<close>

definition oshodi_op :: "('db, 'f) oshodiEngine \<Rightarrow> batchOp \<Rightarrow> lib_error option \<times> ('db, 'f) oshodiEngine" where
  "oshodi_op e op =
     (let P = oshPkg e; db = oshDB e in
      if bop op = CHR ''s'' then
        (case os_Set P db (bkey op) (bvalue op) of
           (Some err, db') \<Rightarrow> (Some err, e\<lparr>oshDB := db'\<rparr>)
         | (None, db') \<Rightarrow> (None, if bkey op = appliedKey \<and> length (bvalue op) \<ge> 8
             then e\<lparr>oshDB := db', oshSeq := decodeUint64 (bvalue op)\<rparr> else e\<lparr>oshDB := db'\<rparr>))
      else if bop op = CHR ''d'' then
        (case os_Delete P db (bkey op) of (err, db') \<Rightarrow> (err, e\<lparr>oshDB := db'\<rparr>))
      else if bop op = CHR ''m'' then
        (case os_Get P db (bkey op) of
           Inl (LibFailed msg) \<Rightarrow> (Some (LibFailed msg), e)
         | r \<Rightarrow> (let cur = (case r of Inl err \<Rightarrow> [] | Inr v \<Rightarrow> v);
                     val = encodeInt64 (decodeInt64 cur + decodeInt64 (bvalue op))
                 in case os_Set P db (bkey op) val of (err, db') \<Rightarrow> (err, e\<lparr>oshDB := db'\<rparr>)))
      else (None, e))"

primrec oshodi_ops :: "('db, 'f) oshodiEngine \<Rightarrow> batchOp list \<Rightarrow> lib_error option \<times> ('db, 'f) oshodiEngine" where
  "oshodi_ops e [] = (None, e)"
| "oshodi_ops e (op # ops) =
     (case oshodi_op e op of (Some err, e') \<Rightarrow> (Some err, e') | (None, e') \<Rightarrow> oshodi_ops e' ops)"

definition oshodi_Sync :: "('db, 'f) oshodiEngine \<Rightarrow> engine_error option \<times> ('db, 'f) oshodiEngine" where
  "oshodi_Sync e = (case os_Flush (oshPkg e) (oshDB e) of (err, db) \<Rightarrow> (lib_fail err, e\<lparr>oshDB := db\<rparr>))"

definition oshodi_ApplyBatch ::
  "('db, 'f) oshodiEngine \<Rightarrow> batch \<Rightarrow> bool \<Rightarrow> engine_error option \<times> ('db, 'f) oshodiEngine" where
  "oshodi_ApplyBatch e b sync =
     (case oshodi_ops e (foldl oshodiBatch_call [] b) of
        (Some err, e') \<Rightarrow> (lib_fail (Some err), e')
      | (None, e') \<Rightarrow> if sync then oshodi_Sync e' else (None, e'))"

subsection \<open>Snapshots\<close>

text \<open>The materialised map, as an association list: \<open>NewIter\<close> visits it in whatever order.\<close>

record oshodiSnapshot =
  osData :: data_map
  osSeq :: uint64

definition oshodi_GetSnapshot :: "('db, 'f) oshodiEngine \<Rightarrow> lib_error + oshodiSnapshot" where
  "oshodi_GetSnapshot e =
     (case os_Scan (oshPkg e) (oshDB e) of
        (xs, Some err) \<Rightarrow> Inl err
      | (xs, None) \<Rightarrow> Inr \<lparr>osData = collect_items [] xs, osSeq = oshSeq e\<rparr>)"

definition oshodi_snap_Get :: "oshodiSnapshot \<Rightarrow> bytes \<Rightarrow> engine_error + bytes" where
  "oshodi_snap_Get s key = (case map_of (osData s) key of None \<Rightarrow> Inl ErrKeyNotFound | Some v \<Rightarrow> Inr v)"

definition oshodi_snap_GetVersion :: "oshodiSnapshot \<Rightarrow> bytes \<Rightarrow> EpochRecord" where
  "oshodi_snap_GetVersion s key =
     (case map_of (osData s) (versionKey key) of None \<Rightarrow> zero_epoch | Some v \<Rightarrow> decodeEpochRecord0 v)"

definition oshodi_range :: "bytes \<Rightarrow> bytes \<Rightarrow> data_map \<Rightarrow> data_map" where
  "oshodi_range ss se xs = filter (\<lambda>(k, v). \<not> k < ss \<and> \<not> (se \<noteq> [] \<and> se \<le> k)) xs"

definition oshodi_snap_NewIter :: "oshodiSnapshot \<Rightarrow> bytes \<Rightarrow> bytes \<Rightarrow> memIter" where
  "oshodi_snap_NewIter s start stop = new_iter (sort_key fst (drop_reserved (oshodi_range start stop (osData s))))"

text \<open>A failed scan gives an iterator that is never valid.\<close>

definition oshodi_RawIter :: "('db, 'f) oshodiEngine \<Rightarrow> bytes \<Rightarrow> bytes \<Rightarrow> memIter" where
  "oshodi_RawIter e start stop =
     new_iter (case os_Scan (oshPkg e) (oshDB e) of
        (xs, Some err) \<Rightarrow> [] | (xs, None) \<Rightarrow> sort_key fst (oshodi_range start stop xs))"

subsection \<open>Checkpoints\<close>

text \<open>The loop that fills the new database, and the checkpoint, given what the target file holds.\<close>

primrec oshodi_fill :: "('db, 'f) oshodi_pkg \<Rightarrow> 'db \<Rightarrow> data_map \<Rightarrow> lib_error option \<times> 'db" where
  "oshodi_fill P db [] = (None, db)"
| "oshodi_fill P db (e # es) =
     (case os_Set P db (fst e) (snd e) of (Some err, db') \<Rightarrow> (Some err, db') | (None, db') \<Rightarrow> oshodi_fill P db' es)"

definition oshodi_CreateCheckpoint :: "('db, 'f) oshodiEngine \<Rightarrow> 'f \<Rightarrow> lib_error + 'f" where
  "oshodi_CreateCheckpoint e target =
     (case os_Scan (oshPkg e) (oshDB e) of
        (xs, Some err) \<Rightarrow> Inl err
      | (xs, None) \<Rightarrow> (case os_Open (oshPkg e) target of
          Inl err \<Rightarrow> Inl err
        | Inr cpDB \<Rightarrow> (case oshodi_fill (oshPkg e) cpDB (collect_items [] xs) of
            (Some err, db) \<Rightarrow> Inl err
          | (None, db) \<Rightarrow> (case os_Flush (oshPkg e) db of
              (Some err, db') \<Rightarrow> Inl err | (None, db') \<Rightarrow> Inr (os_file (oshPkg e) db')))))"

text \<open>
  The interface has no place for an error of \<open>GetSnapshot\<close>; the contract below only speaks of a library that
  does not fail, where the last case does not arise.
\<close>

definition oshodi_engine :: "(('db, 'f) oshodiEngine, oshodiSnapshot) StorageEngine" where
  "oshodi_engine =
     \<lparr>eGet = oshodi_Get,
      eGetSnapshot = (\<lambda>e. (case oshodi_GetSnapshot e of Inr s \<Rightarrow> s | Inl err \<Rightarrow> \<lparr>osData = [], osSeq = 0\<rparr>, e)),
      eApplyBatch = oshodi_ApplyBatch, eSync = oshodi_Sync, eCurrentSequence = oshodi_CurrentSequence,
      eRawIter = oshodi_RawIter, sGet = (\<lambda>e. oshodi_snap_Get), sGetVersion = (\<lambda>e. oshodi_snap_GetVersion),
      sNewIter = (\<lambda>e. oshodi_snap_NewIter), sSequence = (\<lambda>e. osSeq), sClose = (\<lambda>e s. e)\<rparr>"

end
