(* ===== verification/Oshodi_Props.thy ===== *)
theory Oshodi_Props
  imports Oshodi Engine_Agree
begin

text \<open>
  The Oshodi engine: what an interrupted batch leaves, what a snapshot taken in the middle of one shows, the contract of
  the storage interface on a library that does not fail, and its checkpoints.
\<close>

lemma oshodi_okD:
  assumes "oshodi_ok P"
  shows "os_Get P db k = (case os_map P db k of None \<Rightarrow> Inl LibNotFound | Some v \<Rightarrow> Inr v)"
    "os_Set P db k v = (r, db') \<Longrightarrow> os_map P db' = (if r = None then (os_map P db)(k \<mapsto> v) else os_map P db)"
    "os_Delete P db k = (r, db') \<Longrightarrow> os_map P db' = (if r = None then (os_map P db)(k := None) else os_map P db)"
    "os_Scan P db = (xs, None) \<Longrightarrow> distinct (map fst xs) \<and> map_of xs = os_map P db"
    "os_Flush P db = (r, db') \<Longrightarrow> os_map P db' = os_map P db \<and> (r = None \<longrightarrow> os_stored P (os_file P db') = os_map P db)"
    "os_Open P f = Inr db \<Longrightarrow> os_map P db = os_stored P f"
  using assms unfolding oshodi_ok_def by (elim conjE; simp)+

lemma oshodi_reliableD:
  assumes "oshodi_reliable P"
  shows "os_Set P db k v = (r, db') \<Longrightarrow> r = None" "os_Delete P db k = (r, db') \<Longrightarrow> r = None"
    "os_Flush P db = (r, db') \<Longrightarrow> r = None" "os_Scan P db = (xs, r) \<Longrightarrow> r = None"
  using assms unfolding oshodi_reliable_def by (metis fst_conv snd_conv)+

definition osh_contents :: "('db, 'f) oshodiEngine \<Rightarrow> kv" where
  "osh_contents e = os_map (oshPkg e) (oshDB e)"

subsection \<open>Batches\<close>

lemma oshodiBatch_call_eq: "foldl oshodiBatch_call ops b = ops @ map call_op b"
proof -
  have "oshodiBatch_call ops c = ops @ [call_op c]" for ops c by (cases c) simp_all
  then show ?thesis by (induction b arbitrary: ops) simp_all
qed

lemma oshodi_op_call:
  assumes "oshodi_ok (oshPkg e)" "oshodi_op e (call_op c) = (r, e')"
  shows "oshPkg e' = oshPkg e" "osh_contents e' = (if r = None then kv_call (osh_contents e) c else osh_contents e)"
proof -
  note G = oshodi_okD(1) [OF assms(1)] and S = oshodi_okD(2) [OF assms(1)] and D = oshodi_okD(3) [OF assms(1)]
  have "oshPkg e' = oshPkg e \<and> osh_contents e' = (if r = None then kv_call (osh_contents e) c else osh_contents e)"
  proof (cases c)
    case (BSet k v)
    with assms(2) show ?thesis
      by (auto simp: oshodi_op_def Let_def osh_contents_def kv_call_def split: prod.splits option.splits if_splits dest!: S)
  next
    case (BDelete k)
    with assms(2) show ?thesis
      by (auto simp: oshodi_op_def Let_def osh_contents_def kv_call_def split: prod.splits if_splits dest!: D)
  next
    case (BMerge k d)
    with assms(2) G [of "oshDB e" k] show ?thesis
      by (auto simp: oshodi_op_def Let_def osh_contents_def kv_call_def mergeInt64_def decodeInt64_def
          split: prod.splits if_splits option.splits dest!: S)
  qed
  then show "oshPkg e' = oshPkg e" "osh_contents e' = (if r = None then kv_call (osh_contents e) c else osh_contents e)"
    by blast+
qed

text \<open>The loop stops at the first call that fails, and what was done before stays.\<close>

lemma oshodi_ops_prefix:
  assumes "oshodi_ok (oshPkg e)" "oshodi_ops e (map call_op b) = (r, e')"
  shows "oshPkg e' = oshPkg e \<and> (\<exists>n \<le> length b. osh_contents e' = kv_apply (osh_contents e) (take n b)
    \<and> (r = None \<longrightarrow> n = length b) \<and> (r \<noteq> None \<longrightarrow> n < length b))"
  using assms
proof (induction b arbitrary: e)
  case (Cons c b)
  obtain r1 e1 where o: "oshodi_op e (call_op c) = (r1, e1)" by fastforce
  note C = oshodi_op_call [OF Cons.prems(1) o]
  show ?case
  proof (cases r1)
    case None
    then have "oshodi_ops e1 (map call_op b) = (r, e')" using Cons.prems(2) o by simp
    from Cons.IH [OF _ this] C Cons.prems(1) obtain n where n: "oshPkg e' = oshPkg e1" "n \<le> length b"
      "osh_contents e' = kv_apply (osh_contents e1) (take n b)" "r = None \<longrightarrow> n = length b" "r \<noteq> None \<longrightarrow> n < length b"
      by auto
    then show ?thesis using C None by (intro conjI exI [of _ "Suc n"]) auto
  next
    case (Some err)
    then have "r = Some err" "e' = e1" using Cons.prems(2) o by simp_all
    with C Some show ?thesis by (intro conjI exI [of _ 0]) auto
  qed
qed auto

lemma oshodi_Sync_outcome:
  assumes "oshodi_ok (oshPkg e)" "oshodi_Sync e = (r, e')"
  shows "oshPkg e' = oshPkg e" "osh_contents e' = osh_contents e" "oshodi_reliable (oshPkg e) \<Longrightarrow> r = None"
proof -
  obtain r0 db where f: "os_Flush (oshPkg e) (oshDB e) = (r0, db)" by fastforce
  with assms(2) have e': "e' = e\<lparr>oshDB := db\<rparr>" "r = lib_fail r0" by (simp_all add: oshodi_Sync_def)
  show "oshPkg e' = oshPkg e" "osh_contents e' = osh_contents e"
    using oshodi_okD(5) [OF assms(1) f] by (simp_all add: e'(1) osh_contents_def)
  show "oshodi_reliable (oshPkg e) \<Longrightarrow> r = None"
    using oshodi_reliableD(3) [OF _ f] by (simp add: e'(2) lib_fail_def)
qed

lemma oshodi_ApplyBatch_prefix:
  assumes "oshodi_ok (oshPkg e)" "oshodi_ApplyBatch e b sync = (r, e')"
  shows "oshPkg e' = oshPkg e \<and> (\<exists>n \<le> length b. osh_contents e' = kv_apply (osh_contents e) (take n b)
    \<and> (r = None \<longrightarrow> n = length b))"
proof -
  obtain r1 e1 where o: "oshodi_ops e (map call_op b) = (r1, e1)" by fastforce
  note P = oshodi_ops_prefix [OF assms(1) o]
  show ?thesis
  proof (cases r1)
    case None
    show ?thesis
    proof (cases sync)
      case True
      with None o assms(2) have s: "oshodi_Sync e1 = (r, e')"
        by (simp add: oshodi_ApplyBatch_def oshodiBatch_call_eq)
      have "oshodi_ok (oshPkg e1)" using P assms(1) by simp
      from oshodi_Sync_outcome [OF this s] P None show ?thesis by auto
    next
      case False
      with None o assms(2) have "r = None" "e' = e1" by (simp_all add: oshodi_ApplyBatch_def oshodiBatch_call_eq)
      with P None show ?thesis by blast
    qed
  next
    case (Some err)
    with o assms(2) have "r \<noteq> None" "e' = e1" by (auto simp: oshodi_ApplyBatch_def oshodiBatch_call_eq lib_fail_def)
    with P show ?thesis by blast
  qed
qed

lemma oshodi_op_reliable: "oshodi_reliable (oshPkg e) \<Longrightarrow> oshodi_ok (oshPkg e) \<Longrightarrow> oshodi_op e (call_op c) = (r, e') \<Longrightarrow> r = None"
  by (cases c) (auto simp: oshodi_op_def Let_def oshodi_okD(1) split: prod.splits option.splits dest: oshodi_reliableD)

lemma oshodi_ops_reliable:
  "oshodi_reliable (oshPkg e) \<Longrightarrow> oshodi_ok (oshPkg e) \<Longrightarrow> fst (oshodi_ops e (map call_op b)) = None"
proof (induction b arbitrary: e)
  case (Cons c b)
  obtain r e1 where o: "oshodi_op e (call_op c) = (r, e1)" by fastforce
  with oshodi_op_reliable [OF Cons.prems o] oshodi_op_call(1) [OF Cons.prems(2) o] Cons show ?case by simp
qed simp

lemma oshodi_ApplyBatch_reliable:
  assumes "oshodi_reliable (oshPkg e)" "oshodi_ok (oshPkg e)" "oshodi_ApplyBatch e b sync = (r, e')"
  shows "r = None"
proof -
  obtain e1 where o: "oshodi_ops e (map call_op b) = (None, e1)"
    using oshodi_ops_reliable [OF assms(1,2), of b] by (cases "oshodi_ops e (map call_op b)") auto
  have "oshPkg e1 = oshPkg e" using oshodi_ops_prefix [OF assms(2) o] by blast
  with o assms oshodi_Sync_outcome(3) [of e1 r e'] show ?thesis
    by (auto simp: oshodi_ApplyBatch_def oshodiBatch_call_eq split: if_splits)
qed

subsection \<open>Snapshots and scans\<close>

lemma oshodi_GetSnapshot_data:
  assumes "oshodi_ok (oshPkg e)" "oshodi_GetSnapshot e = Inr s"
  shows "distinct (map fst (osData s))" "map_of (osData s) = osh_contents e"
proof -
  obtain xs where xs: "os_Scan (oshPkg e) (oshDB e) = (xs, None)" "osData s = collect_items [] xs"
    using assms(2) by (auto simp: oshodi_GetSnapshot_def split: prod.splits option.splits)
  with oshodi_okD(4) [OF assms(1) xs(1)] collect_items_fresh [of "[]" xs]
  show "distinct (map fst (osData s))" "map_of (osData s) = osh_contents e" by (simp_all add: osh_contents_def)
qed

lemma oshodi_range_lists:
  assumes "distinct (map fst xs)"
  shows "lists_kv (sort_key fst (oshodi_range start stop xs)) (restrict_kv (map_of xs) (in_range start stop))"
    "lists_kv (sort_key fst (drop_reserved (oshodi_range start stop xs)))
       (restrict_kv (map_of xs) (\<lambda>k. in_range start stop k \<and> \<not> isReserved k))"
proof -
  have sub: "lists_kv (sort_key fst (filter (\<lambda>(k, v). Q k) xs)) (restrict_kv (map_of xs) Q)" for Q
    using lists_kv_sort [OF distinct_map_filter [OF assms], of "\<lambda>(k, v). Q k"] map_of_filter_key [OF assms, of Q] by simp
  have r: "oshodi_range start stop xs = filter (\<lambda>(k, v). in_range start stop k) xs"
    by (simp add: oshodi_range_def in_range_def)
  have d: "drop_reserved (oshodi_range start stop xs) = filter (\<lambda>(k, v). in_range start stop k \<and> \<not> isReserved k) xs"
    by (auto simp: r drop_reserved_def intro: filter_cong)
  show "lists_kv (sort_key fst (oshodi_range start stop xs)) (restrict_kv (map_of xs) (in_range start stop))"
    "lists_kv (sort_key fst (drop_reserved (oshodi_range start stop xs)))
       (restrict_kv (map_of xs) (\<lambda>k. in_range start stop k \<and> \<not> isReserved k))"
    by (simp only: r sub, simp only: d sub)
qed

definition osh_invar :: "('db, 'f) oshodiEngine \<Rightarrow> bool" where
  "osh_invar e \<longleftrightarrow> oshodi_ok (oshPkg e) \<and> oshodi_reliable (oshPkg e)"

definition osh_live :: "('db, 'f) oshodiEngine \<Rightarrow> oshodiSnapshot \<Rightarrow> bool" where
  "osh_live e s \<longleftrightarrow> distinct (map fst (osData s))"

definition osh_view :: "('db, 'f) oshodiEngine \<Rightarrow> oshodiSnapshot \<Rightarrow> kv" where
  "osh_view e s = map_of (osData s)"

lemma osh_GetSnapshot:
  assumes "osh_invar e"
  obtains s where "oshodi_GetSnapshot e = Inr s" "distinct (map fst (osData s))" "map_of (osData s) = osh_contents e"
proof -
  have P: "oshodi_ok (oshPkg e)" "oshodi_reliable (oshPkg e)" using assms by (simp_all add: osh_invar_def)
  have "\<exists>s. oshodi_GetSnapshot e = Inr s"
    using oshodi_reliableD(4) [OF P(2)] by (auto simp: oshodi_GetSnapshot_def split: prod.splits option.splits)
  with oshodi_GetSnapshot_data [OF P(1)] that show thesis by blast
qed

lemma osh_apply:
  assumes "osh_invar e" "oshodi_ApplyBatch e b sync = (r, e')"
  shows "r = None" "osh_invar e'" "osh_contents e' = kv_apply (osh_contents e) b"
proof -
  have P: "oshodi_ok (oshPkg e)" "oshodi_reliable (oshPkg e)" using assms by (simp_all add: osh_invar_def)
  show r: "r = None" by (rule oshodi_ApplyBatch_reliable [OF P(2,1) assms(2)])
  from oshodi_ApplyBatch_prefix [OF P(1) assms(2)] r P
  show "osh_invar e'" "osh_contents e' = kv_apply (osh_contents e) b" by (auto simp: osh_invar_def)
qed

interpretation osh: scanning_engine oshodi_engine osh_invar osh_contents osh_live osh_view "\<lambda>_ _. True" "\<lambda>_. True"
proof (unfold_locales, goal_cases)
  case (1 e k)
  then show ?case
    by (auto simp: oshodi_engine_def oshodi_Get_def lib_result_def osh_contents_def osh_invar_def oshodi_okD(1) split: option.splits)
next
  case (2 e s e')
  obtain s0 where "oshodi_GetSnapshot e = Inr s0" "distinct (map fst (osData s0))" "map_of (osData s0) = osh_contents e"
    by (rule osh_GetSnapshot [OF 2(1)])
  with 2 show ?case by (auto simp: oshodi_engine_def osh_live_def osh_view_def)
next
  case (3 e s e' s')
  then show ?case by (auto simp: oshodi_engine_def osh_live_def osh_view_def)
next
  case (4 e b sync e')
  then show ?case using osh_apply [of e b sync None e'] by (simp add: oshodi_engine_def)
next
  case (5 e b sync e' s)
  then show ?case by (simp add: osh_live_def osh_view_def)
next
  case (6 e b sync err e')
  then show ?case using osh_apply(1) [of e b sync "Some err" e'] by (simp add: oshodi_engine_def)
next
  case (7 e r e')
  then show ?case using oshodi_Sync_outcome [of e r e'] by (simp add: oshodi_engine_def osh_invar_def osh_live_def osh_view_def)
next
  case (8 e s k)
  then show ?case by (simp add: oshodi_engine_def oshodi_snap_Get_def osh_view_def kv_result_def)
next
  case (9 e s k)
  then show ?case by (simp add: oshodi_engine_def oshodi_snap_GetVersion_def osh_view_def stored_version_def)
next
  case (10 e s start stop)
  then show ?case
    using oshodi_range_lists(2) by (simp add: oshodi_engine_def oshodi_snap_NewIter_def osh_live_def osh_view_def new_iter_def)
next
  case (12 e start stop)
  obtain xs where xs: "os_Scan (oshPkg e) (oshDB e) = (xs, None)"
    using oshodi_reliableD(4) 12 by (metis osh_invar_def surj_pair)
  have "oshodi_ok (oshPkg e)" using 12 by (simp add: osh_invar_def)
  from oshodi_okD(4) [OF this xs] oshodi_range_lists(1) [of xs start stop] xs show ?case
    by (simp add: oshodi_engine_def oshodi_RawIter_def new_iter_def osh_contents_def)
qed simp

interpretation osht: total_engine oshodi_engine osh_invar osh_contents osh_live osh_view "\<lambda>_ _. True" "\<lambda>_. True"
  by unfold_locales simp

interpretation oshf: full_engine oshodi_engine osh_invar osh_contents osh_live osh_view "\<lambda>_ _. True" "\<lambda>_. True"
  by unfold_locales

subsection \<open>Checkpoints\<close>

lemma oshodi_fill_map:
  assumes "oshodi_ok P" "distinct (map fst xs)" "oshodi_fill P db xs = (None, db')"
  shows "os_map P db' = os_map P db ++ map_of xs"
  using assms(2,3)
proof (induction xs arbitrary: db)
  case (Cons e xs)
  obtain db1 where s: "os_Set P db (fst e) (snd e) = (None, db1)" "oshodi_fill P db1 xs = (None, db')"
    using Cons.prems(2) by (auto split: prod.splits option.splits)
  have "os_map P db' = os_map P db1 ++ map_of xs" using Cons s(2) by simp
  also have "\<dots> = (os_map P db)(fst e \<mapsto> snd e) ++ map_of xs" using oshodi_okD(2) [OF assms(1) s(1)] by simp
  also have "\<dots> = os_map P db ++ map_of (e # xs)" using map_add_fresh [of "fst e" xs] Cons.prems(1) by simp
  finally show ?case .
qed simp

lemma oshodi_Open_contents:
  assumes "oshodi_ok P" "oshodi_Open P f = Inr e"
  shows "osh_contents e = os_stored P f" "oshPkg e = P"
  using assms oshodi_okD(6) [OF assms(1)] by (auto simp: oshodi_Open_def osh_contents_def split: sum.splits)

end
