(* ===== verification/Oshodi_Claims.thy ===== *)
theory Oshodi_Claims
  imports Oshodi_Props
begin

text \<open>
  Properties of the Oshodi engine, with an executable instance of the library for their witnesses.
\<close>

subsection \<open>An instance of the library\<close>

text \<open>A bucket that keeps its pairs in a list and fails to write the keys in \<open>bad\<close>.\<close>

definition ref_oshodi :: "(bytes \<Rightarrow> bool) \<Rightarrow> (data_map, data_map) oshodi_pkg" where
  "ref_oshodi bad =
     \<lparr>os_Open = Inr, os_Close = (\<lambda>db. (None, db)), os_Flush = (\<lambda>db. (None, db)),
      os_Get = (\<lambda>db k. case map_of db k of None \<Rightarrow> Inl LibNotFound | Some v \<Rightarrow> Inr v),
      os_Set = (\<lambda>db k v. if bad k then (Some (LibFailed ''write''), db) else (None, (k, v) # db)),
      os_Delete = (\<lambda>db k. (None, filter (\<lambda>e. fst e \<noteq> k) db)),
      os_Scan = (\<lambda>db. (map (\<lambda>k. (k, the (map_of db k))) (remdups (map fst db)), None)),
      os_file = (\<lambda>db. db), os_map = map_of, os_stored = map_of\<rparr>"

lemma ref_oshodi_ok: "oshodi_ok (ref_oshodi bad)"
proof -
  have "map_of (map (\<lambda>k. (k, the (map_of db k))) (remdups (map fst db))) k = map_of db k" for db :: data_map and k
  proof -
    have "k \<in> fst ` set db \<longleftrightarrow> map_of db k \<noteq> None" by (simp add: map_of_eq_None_iff)
    then show ?thesis by (cases "map_of db k") (simp_all add: map_of_map_restrict restrict_map_def)
  qed
  then have "map_of (map (\<lambda>k. (k, the (map_of db k))) (remdups (map fst db))) = map_of db" for db :: data_map ..
  moreover have "map fst (map (\<lambda>k. (k, the (map_of db k))) (remdups (map fst db))) = remdups (map fst db)" for db :: data_map
    by (simp add: comp_def)
  ultimately show ?thesis
    by (auto simp: oshodi_ok_def ref_oshodi_def map_of_drop_key split: if_splits)
qed

definition osh0 :: "(bytes \<Rightarrow> bool) \<Rightarrow> data_map \<Rightarrow> (data_map, data_map) oshodiEngine" where
  "osh0 bad db = \<lparr>oshPkg = ref_oshodi bad, oshDB = db, oshSeq = 0\<rparr>"

lemma osh0_ok: "oshodi_ok (oshPkg (osh0 bad db))"
  by (simp add: osh0_def ref_oshodi_ok)

subsection \<open>Properties\<close>

text \<open>
  C24. A batch on the Oshodi engine takes effect call by call: whatever it returns, the store afterwards is the one after
  some first calls of the batch, all of them when it returns no error. A snapshot taken while a batch is being applied
  likewise shows exactly the calls made so far.
\<close>

theorem oshodi_batch_prefix:
  assumes "oshodi_ok (oshPkg e)" "oshodi_ApplyBatch e b sync = (r, e')"
  shows "(\<exists>n \<le> length b. (\<forall>k. oshodi_Get e' k = kv_result (kv_apply (osh_contents e) (take n b) k))
      \<and> (r = None \<longrightarrow> n = length b))
    \<and> (\<forall>m e1 s. oshodi_ops e (map call_op (take m b)) = (None, e1) \<longrightarrow> oshodi_GetSnapshot e1 = Inr s \<longrightarrow>
        (\<forall>k. oshodi_snap_Get s k = kv_result (kv_apply (osh_contents e) (take m b) k)))"
proof (intro conjI allI impI)
  from oshodi_ApplyBatch_prefix [OF assms] obtain n where n: "oshPkg e' = oshPkg e" "n \<le> length b"
    "osh_contents e' = kv_apply (osh_contents e) (take n b)" "r = None \<longrightarrow> n = length b" by blast
  have "oshodi_Get e' k = kv_result (osh_contents e' k)" for k
    using oshodi_okD(1) [OF assms(1)] n(1)
    by (auto simp: oshodi_Get_def lib_result_def osh_contents_def split: option.splits)
  with n show "\<exists>n \<le> length b. (\<forall>k. oshodi_Get e' k = kv_result (kv_apply (osh_contents e) (take n b) k))
      \<and> (r = None \<longrightarrow> n = length b)" by auto
next
  fix m e1 s k
  assume o: "oshodi_ops e (map call_op (take m b)) = (None, e1)" and s: "oshodi_GetSnapshot e1 = Inr s"
  from oshodi_ops_prefix [OF assms(1) o] have e1: "oshPkg e1 = oshPkg e"
    "osh_contents e1 = kv_apply (osh_contents e) (take m b)" by (auto simp: min_def split: if_splits)
  have "oshodi_ok (oshPkg e1)" using assms(1) e1(1) by simp
  from oshodi_GetSnapshot_data(2) [OF this s] e1(2)
  show "oshodi_snap_Get s k = kv_result (kv_apply (osh_contents e) (take m b) k)"
    by (simp add: oshodi_snap_Get_def kv_result_def)
qed

text \<open>The second of three writes fails: the first stays, the third is not made.\<close>

theorem oshodi_batch_prefix_witness:
  "let e = osh0 (\<lambda>k. k = [2]) [([1], [0])]; b = [BSet [1] [7], BSet [2] [8], BSet [3] [9]];
       (r, e') = oshodi_ApplyBatch e b False
   in r \<noteq> None \<and> (\<exists>n < 3. n \<noteq> 0 \<and> (\<forall>k. oshodi_Get e' k = kv_result (kv_apply (osh_contents e) (take n b) k)))"
proof -
  let ?e = "osh0 (\<lambda>k. k = [2]) [([1], [0])]" and ?b = "[BSet [1] [7], BSet [2] [8], BSet [3] [9]]"
  let ?a = "oshodi_ApplyBatch ?e ?b False"
  have r: "fst ?a \<noteq> None" and g: "oshodi_Get (snd ?a) [1] = Inr [7]" "oshodi_Get (snd ?a) [3] = Inl ErrKeyNotFound"
    by code_simp+
  have a: "?a = (fst ?a, snd ?a)" by simp
  from oshodi_batch_prefix [OF osh0_ok a] obtain n where
    n: "n \<le> length ?b" "\<forall>k. oshodi_Get (snd ?a) k = kv_result (kv_apply (osh_contents ?e) (take n ?b) k)" by blast
  have c: "osh_contents ?e [1] = Some [0]" by code_simp
  have "n \<noteq> 0" using n(2) [rule_format, of "[1]"] g(1) c by (intro notI) simp
  moreover have "n \<noteq> 3" using n(2) [rule_format, of "[3]"] g(2) by (intro notI) (simp add: kv_call_at)
  ultimately have "n < 3 \<and> n \<noteq> 0" using n(1) by auto
  with n(2) r show ?thesis by (auto simp: split_beta Let_def)
qed

text \<open>
  A checkpoint of the Oshodi engine into a new file is complete: an engine opened on it reads every key as the engine
  that wrote it does, and recovers the applied sequence number stored there.
\<close>

theorem oshodi_checkpoint_roundtrip:
  assumes "oshodi_ok (oshPkg e)" "os_stored (oshPkg e) target = Map.empty"
    and "oshodi_CreateCheckpoint e target = Inr f" "oshodi_Open (oshPkg e) f = Inr e2"
  shows "oshodi_Get e2 k = oshodi_Get e k \<and> oshSeq e2 = oshodi_CurrentSequence e"
proof -
  let ?P = "oshPkg e"
  obtain xs db db1 db2 where s: "os_Scan ?P (oshDB e) = (xs, None)" "os_Open ?P target = Inr db"
    "oshodi_fill ?P db (collect_items [] xs) = (None, db1)" "os_Flush ?P db1 = (None, db2)" "f = os_file ?P db2"
    using assms(3) by (auto simp: oshodi_CreateCheckpoint_def split: prod.splits option.splits sum.splits)
  note X = oshodi_okD(4) [OF assms(1) s(1)]
  have "collect_items [] xs = xs" using collect_items_fresh [of "[]" xs] X by simp
  with oshodi_fill_map [OF assms(1) _ s(3)] X oshodi_okD(6) [OF assms(1) s(2)] assms(2)
  have "os_map ?P db1 = os_map ?P (oshDB e)" by simp
  then have "os_stored ?P f = os_map ?P (oshDB e)" using oshodi_okD(5) [OF assms(1) s(4)] s(5) by simp
  with oshodi_Open_contents [OF assms(1,4)] have m: "os_map ?P (oshDB e2) = os_map ?P (oshDB e)" "oshPkg e2 = ?P"
    by (simp_all add: osh_contents_def)
  then have g: "os_Get ?P (oshDB e2) = os_Get ?P (oshDB e)" using oshodi_okD(1) [OF assms(1)] by (simp add: fun_eq_iff)
  have "readApplied ?P (oshDB e2) = Inr (oshSeq e2)"
    using assms(4) by (auto simp: oshodi_Open_def split: sum.splits)
  with g m(2) show ?thesis by (simp add: oshodi_Get_def oshodi_CurrentSequence_def readApplied_def)
qed

theorem oshodi_checkpoint_roundtrip_witness:
  "\<exists>f e2. oshodi_CreateCheckpoint (osh0 (\<lambda>k. False) [([1], [7])]) [] = Inr f
     \<and> oshodi_Open (ref_oshodi (\<lambda>k. False)) f = Inr e2 \<and> oshodi_Get e2 [1] = oshodi_Get (osh0 (\<lambda>k. False) [([1], [7])]) [1]"
proof -
  let ?e = "osh0 (\<lambda>k. False) [([1], [7])]" and ?P = "ref_oshodi (\<lambda>k. False)"
  have c: "oshodi_CreateCheckpoint ?e [] = Inr [([1], [7])]" by code_simp
  have p: "oshPkg ?e = ?P" by (simp add: osh0_def)
  have st: "os_stored (oshPkg ?e) [] = Map.empty" by (simp add: p ref_oshodi_def)
  have "\<not> isl (oshodi_Open ?P [([1], [7])])" by code_simp
  then obtain e2 where o: "oshodi_Open (oshPkg ?e) [([1], [7])] = Inr e2"
    unfolding p by (cases "oshodi_Open ?P [([1], [7])]") auto
  from oshodi_checkpoint_roundtrip [OF osh0_ok st c o, of "[1]"] c o p show ?thesis by auto
qed

end
