(* ===== verification/Telemetry.thy ===== *)
theory Telemetry
  imports Prelude
begin

text \<open>
  The stage timers of \<open>src/shared/telemetry.go\<close>. \<open>Record\<close> is called from many goroutines at once and
  uses atomic operations only: the model has one step per atomic operation, and a run interleaves the steps of any number
  of calls. The sum and the counter wrap at 64 bits; a minimum or maximum is only copied, so it is an integer.
\<close>

subsection \<open>The timer\<close>

record StageTimer =
  sumNs :: int64
  tmCount :: int64
  minNs :: int
  maxNs :: int

definition zero_timer :: StageTimer where
  "zero_timer = \<lparr>sumNs = 0, tmCount = 0, minNs = 0, maxNs = 0\<rparr>"

text \<open>Where a call of \<open>Record\<close> stands; the loops keep the value they loaded until their compare-and-swap.\<close>

datatype rec_pc =
    AddSum int
  | AddCount int
  | LoadMin int
  | CasMin int int
  | LoadMax int
  | CasMax int int
  | Recorded int

fun rec_step :: "StageTimer \<Rightarrow> rec_pc \<Rightarrow> (StageTimer \<times> rec_pc) option" where
  "rec_step s (AddSum ns) = Some (s\<lparr>sumNs := sumNs s + word_of_int ns\<rparr>, AddCount ns)"
| "rec_step s (AddCount ns) = Some (s\<lparr>tmCount := tmCount s + 1\<rparr>, LoadMin ns)"
| "rec_step s (LoadMin ns) =
     Some (s, let cur = minNs s in if cur \<noteq> 0 \<and> cur \<le> ns then LoadMax ns else CasMin ns cur)"
| "rec_step s (CasMin ns cur) =
     Some (if minNs s = cur then (s\<lparr>minNs := ns\<rparr>, LoadMax ns) else (s, LoadMin ns))"
| "rec_step s (LoadMax ns) = Some (s, let cur = maxNs s in if cur \<ge> ns then Recorded ns else CasMax ns cur)"
| "rec_step s (CasMax ns cur) =
     Some (if maxNs s = cur then (s\<lparr>maxNs := ns\<rparr>, Recorded ns) else (s, LoadMax ns))"
| "rec_step s (Recorded ns) = None"

text \<open>A step of one of the calls in progress, and a call on its own.\<close>

inductive tel_step :: "StageTimer \<times> rec_pc list \<Rightarrow> StageTimer \<times> rec_pc list \<Rightarrow> bool" where
  tel_call: "i < length ps \<Longrightarrow> rec_step s (ps ! i) = Some (s', p') \<Longrightarrow> tel_step (s, ps) (s', ps[i := p'])"

inductive_cases tel_stepE: "tel_step (s, ps) (s', ps')"

fun rec_run :: "nat \<Rightarrow> StageTimer \<Rightarrow> rec_pc \<Rightarrow> StageTimer" where
  "rec_run 0 s p = s"
| "rec_run (Suc n) s p = (case rec_step s p of None \<Rightarrow> s | Some (s', p') \<Rightarrow> rec_run n s' p')"

text \<open>Alone, a call needs six steps.\<close>

definition Record :: "StageTimer \<Rightarrow> int \<Rightarrow> StageTimer" where
  "Record s ns = rec_run 6 s (AddSum ns)"

definition timer_Count :: "StageTimer \<Rightarrow> int64" where
  "timer_Count s = tmCount s"

text \<open>Go's division truncates towards zero.\<close>

definition Mean :: "StageTimer \<Rightarrow> int" where
  "Mean s = (let c = sint (tmCount s) in
     if c = 0 then 0
     else let q = \<bar>sint (sumNs s)\<bar> div \<bar>c\<bar> in if (sint (sumNs s) < 0) \<noteq> (c < 0) then - q else q)"

definition timer_Min :: "StageTimer \<Rightarrow> int" where
  "timer_Min s = minNs s"

definition timer_Max :: "StageTimer \<Rightarrow> int" where
  "timer_Max s = maxNs s"

text \<open>A call that runs alone updates every field at once.\<close>

lemma Record_alone:
  "Record s ns = s\<lparr>sumNs := sumNs s + word_of_int ns, tmCount := tmCount s + 1,
     minNs := (if minNs s \<noteq> 0 \<and> minNs s \<le> ns then minNs s else ns), maxNs := max (maxNs s) ns\<rparr>"
  by (simp add: Record_def numeral_eq_Suc Let_def)

text \<open>Zero stands for "no minimum yet", so an observation of zero is forgotten by the next one.\<close>

lemma zero_minimum_forgotten: "timer_Min (Record (Record (Record zero_timer 5) 0) 7) = 7"
  by (simp add: Record_alone timer_Min_def zero_timer_def)

subsection \<open>Every run ends\<close>

text \<open>
  The phases a call still has before it, and within a loop how far it is from leaving it: a compare-and-swap whose
  loaded value is out of date goes back to loading, and a value gets out of date only when another call leaves its loop.
\<close>

fun phases :: "rec_pc \<Rightarrow> nat" where
  "phases (AddSum ns) = 4" | "phases (AddCount ns) = 3" | "phases (LoadMin ns) = 2" | "phases (CasMin ns cur) = 2"
| "phases (LoadMax ns) = 1" | "phases (CasMax ns cur) = 1" | "phases (Recorded ns) = 0"

fun staleness :: "StageTimer \<Rightarrow> rec_pc \<Rightarrow> nat" where
  "staleness s (LoadMin ns) = 1" | "staleness s (CasMin ns cur) = (if minNs s = cur then 0 else 2)"
| "staleness s (LoadMax ns) = 1" | "staleness s (CasMax ns cur) = (if maxNs s = cur then 0 else 2)"
| "staleness s p = 0"

definition tel_measure :: "(StageTimer \<times> rec_pc list) \<Rightarrow> nat \<times> nat" where
  "tel_measure c = (sum_list (map phases (snd c)), sum_list (map (staleness (fst c)) (snd c)))"

lemma rec_step_measure:
  assumes "rec_step s p = Some (s', p')"
  shows "phases p' < phases p \<or> s' = s \<and> phases p' = phases p \<and> staleness s p' < staleness s p"
  using assms by (cases p) (auto simp: Let_def split: if_splits)

lemma sum_list_update_less: "i < length xs \<Longrightarrow> f y < (f (xs ! i) :: nat) \<Longrightarrow> sum_list (map f (xs[i := y])) < sum_list (map f xs)"
  by (induction xs arbitrary: i) (auto split: nat.splits)

lemma sum_list_update_same: "i < length xs \<Longrightarrow> f y = (f (xs ! i) :: nat) \<Longrightarrow> sum_list (map f (xs[i := y])) = sum_list (map f xs)"
  by (induction xs arbitrary: i) (auto split: nat.splits)

lemma tel_step_measure: "tel_step c c' \<Longrightarrow> (tel_measure c', tel_measure c) \<in> less_than <*lex*> less_than"
proof (induction rule: tel_step.induct)
  case (tel_call i ps s s' p')
  from rec_step_measure [OF tel_call(2)] tel_call(1) show ?case
    using sum_list_update_less [of i ps phases p'] sum_list_update_same [of i ps phases p']
      sum_list_update_less [of i ps "staleness s" p']
    by (auto simp: tel_measure_def)
qed

subsection \<open>What a run leaves\<close>

fun pc_ns :: "rec_pc \<Rightarrow> int" where
  "pc_ns (AddSum ns) = ns" | "pc_ns (AddCount ns) = ns" | "pc_ns (LoadMin ns) = ns" | "pc_ns (CasMin ns cur) = ns"
| "pc_ns (LoadMax ns) = ns" | "pc_ns (CasMax ns cur) = ns" | "pc_ns (Recorded ns) = ns"

text \<open>
  Per call: what it has contributed to the sum and the counter, and what it knows of the minimum and the maximum.
\<close>

definition sum_share :: "rec_pc \<Rightarrow> int64" where
  "sum_share p = (if phases p < 4 then word_of_int (pc_ns p) else 0)"

definition count_share :: "rec_pc \<Rightarrow> int64" where
  "count_share p = (if phases p < 3 then 1 else 0)"

fun cas_ok :: "rec_pc \<Rightarrow> bool" where
  "cas_ok (CasMin ns cur) \<longleftrightarrow> cur = 0 \<or> ns < cur" | "cas_ok (CasMax ns cur) \<longleftrightarrow> cur < ns" | "cas_ok p \<longleftrightarrow> True"

definition pc_ok :: "StageTimer \<Rightarrow> rec_pc \<Rightarrow> bool" where
  "pc_ok s p \<longleftrightarrow> cas_ok p \<and> 0 < pc_ns p \<and> (phases p < 2 \<longrightarrow> 0 < minNs s \<and> minNs s \<le> pc_ns p)
     \<and> (phases p < 1 \<longrightarrow> pc_ns p \<le> maxNs s)"

definition tel_inv :: "StageTimer \<times> rec_pc list \<Rightarrow> bool" where
  "tel_inv c \<longleftrightarrow> (case c of (s, ps) \<Rightarrow>
     sumNs s = sum_list (map sum_share ps) \<and> tmCount s = sum_list (map count_share ps)
     \<and> (\<forall>p \<in> set ps. pc_ok s p)
     \<and> minNs s \<in> insert 0 (pc_ns ` set ps) \<and> maxNs s \<in> insert 0 (pc_ns ` set ps))"

lemma rec_step_ns: "rec_step s p = Some (s', p') \<Longrightarrow> pc_ns p' = pc_ns p"
  by (cases p) (auto simp: Let_def split: if_splits)

lemma rec_step_shares:
  assumes "rec_step s p = Some (s', p')"
  shows "sumNs s' + sum_share p = sumNs s + sum_share p'" "tmCount s' + count_share p = tmCount s + count_share p'"
  using assms by (cases p; auto simp: sum_share_def count_share_def Let_def split: if_splits)+

lemma rec_step_extremes:
  assumes "rec_step s p = Some (s', p')" "pc_ok s p" "0 \<le> minNs s" "0 \<le> maxNs s"
  shows "pc_ok s' p'" "minNs s' = minNs s \<or> minNs s' = pc_ns p \<and> (minNs s = 0 \<or> pc_ns p < minNs s)"
    "maxNs s' = maxNs s \<or> maxNs s' = pc_ns p \<and> maxNs s < pc_ns p"
  using assms by (cases p; auto simp: pc_ok_def Let_def split: if_splits)+

lemma pc_ok_other:
  assumes "pc_ok s q" "0 < n" "minNs s' = minNs s \<or> minNs s' = n \<and> (minNs s = 0 \<or> n < minNs s)"
    and "maxNs s' = maxNs s \<or> maxNs s' = n' \<and> maxNs s < n'"
  shows "pc_ok s' q"
  using assms by (auto simp: pc_ok_def)

lemma pc_ns_update: "i < length ps \<Longrightarrow> pc_ns p' = pc_ns (ps ! i) \<Longrightarrow> map pc_ns (ps[i := p']) = map pc_ns ps"
  by (simp add: map_update list_update_same_conv)

lemma tel_step_inv:
  assumes "tel_step (s, ps) (s', ps')" "tel_inv (s, ps)"
  shows "tel_inv (s', ps') \<and> map pc_ns ps' = map pc_ns ps"
proof -
  from assms(1) obtain i p' where i: "i < length ps" "rec_step s (ps ! i) = Some (s', p')" "ps' = ps[i := p']"
    by (rule tel_stepE)
  note ns = pc_ns_update [OF i(1) rec_step_ns [OF i(2)]]
  have img: "pc_ns ` set ps' = pc_ns ` set ps" using ns by (metis i(3) list.set_map)
  have mem: "ps ! i \<in> set ps" using i(1) by simp
  have inv: "\<forall>p \<in> set ps. pc_ok s p" "minNs s \<in> insert 0 (pc_ns ` set ps)" "maxNs s \<in> insert 0 (pc_ns ` set ps)"
    using assms(2) by (simp_all add: tel_inv_def)
  have pos: "0 < pc_ns p" if "p \<in> set ps" for p using inv(1) that by (simp add: pc_ok_def)
  then have nn: "0 \<le> minNs s" "0 \<le> maxNs s" using inv(2,3) by (auto intro: less_imp_le)
  have ok: "pc_ok s (ps ! i)" using inv(1) mem by blast
  note X = rec_step_extremes [OF i(2) ok nn]
  have all: "pc_ok s' q" if q: "q \<in> set ps'" for q
    using set_update_subset_insert [of ps i p'] q i(3) X(1) pc_ok_other [OF _ pos [OF mem] X(2,3), of q] inv(1) by auto
  have sums: "sumNs s' = sum_list (map sum_share ps')" "tmCount s' = sum_list (map count_share ps')"
    using sum_list_update_share [OF i(1), of sum_share p'] sum_list_update_share [OF i(1), of count_share p']
      rec_step_shares [OF i(2)] assms(2) by (simp_all add: tel_inv_def i(3)) (metis add_right_cancel)+
  have "minNs s' \<in> insert 0 (pc_ns ` set ps')" "maxNs s' \<in> insert 0 (pc_ns ` set ps')"
    using X(2,3) inv(2,3) mem unfolding img by auto
  with all sums ns i(3) show ?thesis by (simp add: tel_inv_def)
qed

lemma tel_run_inv:
  assumes "tel_step\<^sup>*\<^sup>* c c'" "tel_inv c"
  shows "tel_inv c' \<and> map pc_ns (snd c') = map pc_ns (snd c)"
  using assms
proof (induction rule: rtranclp_induct)
  case (step c1 c2)
  then show ?case using tel_step_inv [of "fst c1" "snd c1" "fst c2" "snd c2"] by simp
qed simp

text \<open>A call that has not ended can always move on: nothing in \<open>Record\<close> waits.\<close>

lemma tel_progress: "i < length ps \<Longrightarrow> (\<forall>ns. ps ! i \<noteq> Recorded ns) \<Longrightarrow> \<exists>c'. tel_step (s, ps) c'"
proof -
  assume i: "i < length ps" and r: "\<forall>ns. ps ! i \<noteq> Recorded ns"
  from r have "rec_step s (ps ! i) \<noteq> None" by (cases "ps ! i") simp_all
  then obtain s' p' where "rec_step s (ps ! i) = Some (s', p')" by auto
  from tel_call [OF i this] show ?thesis by blast
qed

lemma length_le_sum_list: "list_all (\<lambda>d. 0 < d) ds \<Longrightarrow> int (length ds) \<le> sum_list ds"
  by (induction ds) auto

lemma Mean_exact:
  assumes "tmCount s = word_of_nat (length ds)" "sumNs s = word_of_int (sum_list ds)"
    and "list_all (\<lambda>d. 0 < d) ds" "ds \<noteq> []" "sum_list ds < 2 ^ 63"
  shows "Mean s = sum_list ds div int (length ds)"
proof -
  note L = length_le_sum_list [OF assms(3)]
  have w: "sint (word_of_int x :: int64) = x" if "0 \<le> x" "x < 2 ^ 63" for x
    using that by (simp add: sint_word_ariths signed_take_bit_int_eq_self_iff signed_of_int)
  have "sint (tmCount s) = int (length ds)" "sint (sumNs s) = sum_list ds"
    using w [of "int (length ds)"] w [of "sum_list ds"] L assms(1,2,5) by simp_all
  with L assms(4) show ?thesis by (simp add: Mean_def Let_def)
qed

text \<open>The run that a schedule of calls gives.\<close>

fun tel_sched :: "nat list \<Rightarrow> StageTimer \<times> rec_pc list \<Rightarrow> StageTimer \<times> rec_pc list" where
  "tel_sched [] c = c"
| "tel_sched (i # is) (s, ps) =
     (if i < length ps
      then (case rec_step s (ps ! i) of None \<Rightarrow> tel_sched is (s, ps) | Some (s', p') \<Rightarrow> tel_sched is (s', ps[i := p']))
      else tel_sched is (s, ps))"

lemma tel_sched_run: "tel_step\<^sup>*\<^sup>* c (tel_sched is c)"
  by (induction "is" c rule: tel_sched.induct)
    (auto split: option.splits intro: converse_rtranclp_into_rtranclp [where r = tel_step] tel_call)

subsection \<open>Properties\<close>

text \<open>
  C21. \<open>Record\<close> is lock-free and ends: however the atomic operations of any number of concurrent calls interleave, and
  however often their compare-and-swap operations fail, there is no infinite run.
\<close>

theorem telemetry_runs_end: "wf {(c', c). tel_step c c'}"
proof -
  have "{(c', c). tel_step c c'} \<subseteq> inv_image (less_than <*lex*> less_than) tel_measure"
    using tel_step_measure by auto
  then show ?thesis by (rule wf_subset [OF wf_inv_image [OF wf_lex_prod [OF wf_less_than wf_less_than]]])
qed

text \<open>
  C22. Concurrent observations are all counted: when any number of concurrent calls of \<open>Record\<close> with positive durations
  have ended, in whatever order their atomic operations ran, the timer holds exactly their number and their sum, both
  up to 64 bits, and the smallest and the largest of them; while the sum fits, \<open>Mean\<close> is their mean.
\<close>

theorem telemetry_exact:
  assumes "tel_step\<^sup>*\<^sup>* (zero_timer, map AddSum ds) (s, map Recorded ds')" "list_all (\<lambda>d. 0 < d) ds" "ds \<noteq> []"
  shows "timer_Count s = word_of_nat (length ds) \<and> sumNs s = word_of_int (sum_list ds)
    \<and> timer_Min s = Min (set ds) \<and> timer_Max s = Max (set ds)
    \<and> (sum_list ds < 2 ^ 63 \<longrightarrow> Mean s = sum_list ds div int (length ds))"
proof -
  have z: "sum_list (map (f \<circ> AddSum) ds) = (0 :: int64)" if "\<And>d. f (AddSum d) = 0" for f
    using that by (induction ds) simp_all
  have "tel_inv (zero_timer, map AddSum ds)"
    using assms(2) by (auto simp: tel_inv_def zero_timer_def z sum_share_def count_share_def pc_ok_def list_all_iff)
  from tel_run_inv [OF assms(1) this] have I: "tel_inv (s, map Recorded ds')" and "map pc_ns (map Recorded ds') = map pc_ns (map AddSum ds)"
    by simp_all
  then have ds: "ds' = ds" by (simp add: comp_def)
  have sums: "sum_list (map (sum_share \<circ> Recorded) ds) = word_of_int (sum_list ds)"
    "sum_list (map (count_share \<circ> Recorded) ds) = word_of_nat (length ds)"
    by (induction ds) (simp_all add: sum_share_def count_share_def)
  have "\<forall>d \<in> set ds. minNs s \<le> d \<and> d \<le> maxNs s \<and> 0 < minNs s" "minNs s \<in> insert 0 (set ds)" "maxNs s \<in> insert 0 (set ds)"
    using I assms(2) by (auto simp: tel_inv_def ds pc_ok_def image_image)
  moreover have "\<exists>d. d \<in> set ds" "\<forall>d \<in> set ds. 0 < d" using assms(2,3) by (auto simp: list_all_iff neq_Nil_conv)
  ultimately have "minNs s = Min (set ds)" "maxNs s = Max (set ds)"
    by (auto intro!: Min_eqI [symmetric] Max_eqI [symmetric])
  moreover have c: "tmCount s = word_of_nat (length ds)" "sumNs s = word_of_int (sum_list ds)"
    using I sums by (simp_all add: tel_inv_def ds)
  ultimately show ?thesis
    using Mean_exact [OF c assms(2,3)] by (simp add: timer_Count_def timer_Min_def timer_Max_def)
qed

text \<open>Two calls that both load the initial minimum: the second compare-and-swap fails and is repeated.\<close>

theorem telemetry_exact_witness:
  "let s = fst (tel_sched [0, 1, 0, 1, 0, 1, 0, 1, 1, 1, 1, 0, 0, 1, 1, 1] (zero_timer, map AddSum [5, 3]))
   in timer_Count s = 2 \<and> timer_Min s = 3 \<and> timer_Max s = 5 \<and> Mean s = 4"
proof -
  let ?c = "tel_sched [0, 1, 0, 1, 0, 1, 0, 1, 1, 1, 1, 0, 0, 1, 1, 1] (zero_timer, map AddSum [5, 3])"
  have "snd ?c = map Recorded [5, 3]" by code_simp
  then have c: "?c = (fst ?c, map Recorded [5, 3])" by (metis prod.collapse)
  have "tel_step\<^sup>*\<^sup>* (zero_timer, map AddSum [5, 3]) (fst ?c, map Recorded [5, 3])"
    using tel_sched_run [of "(zero_timer, map AddSum [5, 3])"] c by metis
  from telemetry_exact [OF this] show ?thesis by (simp add: Let_def)
qed

end
