(* ===== verification/Runner.thy ===== *)
theory Runner
  imports Tx
begin

text \<open>
  The load generator of \<open>src/workspace/runner.go\<close>: its random numbers, workloads, key ranges, seeding, and the
  bookkeeping of a timed run and of several runs. A Go panic is \<open>None\<close>. Durations are integers; the float arithmetic of the
  report is not modelled: the rank in \<open>pct\<close> and the throughput of a run are arguments. Printing is left out.
\<close>

subsection \<open>Random numbers\<close>

definition rng_next :: "uint64 \<Rightarrow> uint64" where
  "rng_next x0 =
     (let x1 = x0 XOR push_bit 13 x0; x2 = x1 XOR drop_bit 7 x1; x3 = x2 XOR push_bit 17 x2 in x3)"

text \<open>A number below \<open>n\<close> and the next state; the remainder by zero panics.\<close>

definition intn :: "uint64 \<Rightarrow> nat \<Rightarrow> (nat \<times> uint64) option" where
  "intn r n = (let x = rng_next r in if (word_of_nat n :: uint64) = 0 then None else Some (unat (x mod word_of_nat n), x))"

text \<open>\<open>binary.LittleEndian.PutUint64\<close> on a buffer.\<close>

definition PutUint64 :: "bytes \<Rightarrow> uint64 \<Rightarrow> bytes option" where
  "PutUint64 b v = (if length b < 8 then None else Some (le_put 8 v @ drop 8 b))"

subsection \<open>Samples\<close>

definition mergeAndSort :: "int list list \<Rightarrow> int list" where
  "mergeAndSort all = sort (concat all)"

text \<open>\<open>pct\<close>, given the value of \<open>math.Ceil(p/100*float64(len(s)))\<close>.\<close>

definition pct :: "int \<Rightarrow> int list \<Rightarrow> int" where
  "pct rank s =
     (if s = [] then 0
      else let i = rank - 1; i1 = (if i < 0 then 0 else i);
               i2 = (if i1 \<ge> int (length s) then int (length s) - 1 else i1)
           in s ! nat i2)"

definition avg :: "int list \<Rightarrow> int" where
  "avg s =
     (if s = [] then 0
      else let sum = sint (foldl (\<lambda>acc v. acc + word_of_int v) (0 :: int64) s); q = \<bar>sum\<bar> div int (length s)
           in if sum < 0 then - q else q)"

subsection \<open>Workloads\<close>

text \<open>
  A workload draws its key and value and hands a transaction to \<open>RunInTx\<close>: the transaction, the value buffer and
  the generator's state afterwards.
\<close>

type_synonym workload = "bytes list \<Rightarrow> bytes \<Rightarrow> uint64 \<Rightarrow> (txprog \<times> bytes \<times> uint64) option"

definition workloadWrite :: workload where
  "workloadWrite keys valBuf rng =
     (case intn rng (length keys) of
        None \<Rightarrow> None
      | Some (i, rng1) \<Rightarrow>
          (let v = rng_next rng1 in
           case PutUint64 valBuf v of None \<Rightarrow> None | Some vb \<Rightarrow> Some (DoSet (keys ! i) vb (\<lambda>r. Return r), vb, v)))"

definition workloadRead :: workload where
  "workloadRead keys valBuf rng =
     (case intn rng (length keys) of
        None \<Rightarrow> None
      | Some (i, rng1) \<Rightarrow>
          Some (DoGet (keys ! i) (\<lambda>r. Return (case r of Inl err \<Rightarrow> if err \<noteq> DpxKeyNotFound then Some err else None
            | Inr v \<Rightarrow> None)), valBuf, rng1))"

definition workloadAtomic :: workload where
  "workloadAtomic keys valBuf rng =
     (case intn rng (length keys) of
        None \<Rightarrow> None
      | Some (i, rng1) \<Rightarrow>
          (case intn rng1 100 of
             None \<Rightarrow> None
           | Some (d, rng2) \<Rightarrow>
               Some (DoAdd (keys ! i) (word_of_nat (d + 1)) (\<lambda>r. Return (case r of Inl err \<Rightarrow> Some err | Inr v \<Rightarrow> None)),
                     valBuf, rng2)))"

definition workloadMixed :: workload where
  "workloadMixed keys valBuf rng =
     (case intn rng 100 of
        None \<Rightarrow> None
      | Some (r, rng1) \<Rightarrow>
          if r < 70 then workloadRead keys valBuf rng1
          else if r < 90 then workloadAtomic keys valBuf rng1
          else workloadWrite keys valBuf rng1)"

subsection \<open>A timed run\<close>

record run_counts =
  rcOps :: uint64
  rcErrs :: uint64
  rcConflicts :: uint64
  rcLocals :: "int list list"

definition isConflictExhausted :: "dpx_error option \<Rightarrow> bool" where
  "isConflictExhausted err \<longleftrightarrow> err = Some DpxConflictExhausted"

text \<open>One call of the workload by worker \<open>idx\<close>: its error and its latency. The counters are atomic.\<close>

definition count_call :: "run_counts \<Rightarrow> nat \<times> dpx_error option \<times> int \<Rightarrow> run_counts" where
  "count_call c ev = (case ev of (idx, err, lat) \<Rightarrow>
     if err = None then c\<lparr>rcOps := rcOps c + 1, rcLocals := (rcLocals c)[idx := rcLocals c ! idx @ [lat]]\<rparr>
     else if isConflictExhausted err then c\<lparr>rcConflicts := rcConflicts c + 1\<rparr>
     else c\<lparr>rcErrs := rcErrs c + 1\<rparr>)"

record runResult =
  rrDuration :: int
  rrOps :: uint64
  rrErrors :: uint64
  rrConflicts :: uint64
  rrLatencies :: "int list"
  rrGCPauses :: int
  rrGCCount :: uint32

text \<open>The calls of all workers in the order of their atomic updates, with the measurements of the runtime.\<close>

definition timedRunWithWorkerKeys :: "nat \<Rightarrow> (nat \<times> dpx_error option \<times> int) list \<Rightarrow> int \<Rightarrow> int \<Rightarrow> uint32 \<Rightarrow> runResult" where
  "timedRunWithWorkerKeys concurrency evs elapsed pauses gcs =
     (let c = foldl count_call \<lparr>rcOps = 0, rcErrs = 0, rcConflicts = 0, rcLocals = replicate concurrency []\<rparr> evs
      in \<lparr>rrDuration = elapsed, rrOps = rcOps c, rrErrors = rcErrs c, rrConflicts = rcConflicts c,
          rrLatencies = mergeAndSort (rcLocals c), rrGCPauses = pauses, rrGCCount = gcs\<rparr>)"

subsection \<open>Several runs\<close>

record 'f runStats =
  rsRuns :: int
  tpsSamples :: "'f list"
  rsLatencies :: "int list"
  totalOps :: uint64
  totalErrors :: uint64
  totalConflicts :: uint64
  totalDuration :: int
  totalGCPauses :: int
  totalGCCount :: uint32

definition newRunStats :: "int \<Rightarrow> 'f runStats" where
  "newRunStats numRuns = \<lparr>rsRuns = numRuns, tpsSamples = [], rsLatencies = [], totalOps = 0, totalErrors = 0,
     totalConflicts = 0, totalDuration = 0, totalGCPauses = 0, totalGCCount = 0\<rparr>"

definition stats_add :: "(runResult \<Rightarrow> 'f) \<Rightarrow> 'f runStats \<Rightarrow> runResult \<Rightarrow> bool \<Rightarrow> 'f runStats" where
  "stats_add tps s r isWarmupRun =
     (let s1 = s\<lparr>tpsSamples := tpsSamples s @ [tps r]\<rparr> in
      if \<not> isWarmupRun then
        s1\<lparr>rsLatencies := rsLatencies s @ rrLatencies r, totalOps := totalOps s + rrOps r,
           totalErrors := totalErrors s + rrErrors r, totalConflicts := totalConflicts s + rrConflicts r,
           totalDuration := totalDuration s + rrDuration r, totalGCPauses := totalGCPauses s + rrGCPauses r,
           totalGCCount := totalGCCount s + rrGCCount r\<rparr>
      else s1)"

definition measuredSamples :: "'f runStats \<Rightarrow> 'f list" where
  "measuredSamples s = (if length (tpsSamples s) > 1 then tl (tpsSamples s) else tpsSamples s)"

definition sortedLatencies :: "'f runStats \<Rightarrow> int list" where
  "sortedLatencies s = sort (rsLatencies s)"

text \<open>The loop over the runs of \<open>runBenchmark\<close>, given their results in order, from run number \<open>n\<close> on.\<close>

primrec run_loop :: "(runResult \<Rightarrow> 'f) \<Rightarrow> nat \<Rightarrow> nat \<Rightarrow> runResult list \<Rightarrow> 'f runStats \<Rightarrow> 'f runStats" where
  "run_loop tps numRuns n [] s = s"
| "run_loop tps numRuns n (r # rs) s =
     run_loop tps numRuns (n + 1) rs (stats_add tps s r (n = 1 \<and> numRuns > 1))"

definition benchmark_stats :: "(runResult \<Rightarrow> 'f) \<Rightarrow> runResult list \<Rightarrow> 'f runStats" where
  "benchmark_stats tps rs = run_loop tps (length rs) 1 rs (newRunStats (int (length rs)))"

text \<open>The averages that \<open>printTelemetrySummary\<close> reports; totals are not negative.\<close>

definition avgDuration :: "'f runStats \<Rightarrow> int" where
  "avgDuration s = totalDuration s div rsRuns s"

definition avgGCPauses :: "'f runStats \<Rightarrow> int" where
  "avgGCPauses s = totalGCPauses s div rsRuns s"

subsection \<open>Keys\<close>

text \<open>\<open>fmt.Sprintf("k:%08d", i)\<close> of a number that is not negative.\<close>

fun decimal :: "nat \<Rightarrow> nat list" where
  "decimal n = (if n < 10 then [n] else decimal (n div 10) @ [n mod 10])"

declare decimal.simps [simp del]

definition bench_key :: "nat \<Rightarrow> bytes" where
  "bench_key i = go_string ''k:''
     @ map (\<lambda>d. 48 + word_of_nat d) (replicate (8 - length (decimal i)) 0 @ decimal i)"

definition allKeys :: "nat \<Rightarrow> bytes list" where
  "allKeys keys = map bench_key [0..<keys]"

text \<open>The range of the keys of worker \<open>i\<close>, and a slice expression, which panics out of range.\<close>

definition striped_range :: "int \<Rightarrow> int \<Rightarrow> int \<Rightarrow> int \<times> int" where
  "striped_range keys concurrency i =
     (let stride0 = keys div concurrency; stride = (if stride0 < 1 then 1 else stride0);
          lo = i * stride; hi0 = lo + stride;
          hi = (if hi0 > keys \<or> i = concurrency - 1 then keys else hi0)
      in if lo \<ge> keys then (keys - 1, keys) else (lo, hi))"

definition go_slice :: "'a list \<Rightarrow> int \<Rightarrow> int \<Rightarrow> 'a list option" where
  "go_slice xs lo hi =
     (if 0 \<le> lo \<and> lo \<le> hi \<and> hi \<le> int (length xs) then Some (take (nat hi - nat lo) (drop (nat lo) xs)) else None)"

definition worker_keys :: "bool \<Rightarrow> 'a list \<Rightarrow> nat \<Rightarrow> nat \<Rightarrow> 'a list option" where
  "worker_keys striped keys concurrency i =
     (if striped \<and> concurrency > 0
      then (case striped_range (int (length keys)) (int concurrency) (int i) of (lo, hi) \<Rightarrow> go_slice keys lo hi)
      else Some keys)"

subsection \<open>Seeding\<close>

definition seedBatchSize :: nat where
  "seedBatchSize = 1000"

text \<open>The inner loop fills a batch; the value buffer is copied into each call.\<close>

primrec seed_fill :: "bytes list \<Rightarrow> bytes \<Rightarrow> uint64 \<Rightarrow> batch \<Rightarrow> (batch \<times> bytes \<times> uint64) option" where
  "seed_fill [] valBuf rng b = Some (b, valBuf, rng)"
| "seed_fill (k # ks) valBuf rng b =
     (let v = rng_next rng in
      case PutUint64 valBuf v of None \<Rightarrow> None | Some vb \<Rightarrow> seed_fill ks vb v (b @ [BSet k vb]))"

text \<open>The outer loop hands every batch to the engine and ignores what it returns.\<close>

function seed_engine :: "('e, 's) StorageEngine \<Rightarrow> bytes list \<Rightarrow> nat \<Rightarrow> bytes \<Rightarrow> uint64 \<Rightarrow> 'e \<Rightarrow> 'e option" where
  "seed_engine E keys i valBuf rng e =
     (if i < length keys
      then case seed_fill (take seedBatchSize (drop i keys)) valBuf rng [] of
             None \<Rightarrow> None
           | Some (b, vb, rng') \<Rightarrow> seed_engine E keys (i + seedBatchSize) vb rng' (snd (eApplyBatch E e b False))
      else Some e)"
  by pat_completeness auto
termination
  by (relation "measure (\<lambda>(E, keys, i, valBuf, rng, e). length keys - i)") (auto simp: seedBatchSize_def)

declare seed_engine.simps [simp del]

subsection \<open>Flags\<close>

definition parse_sync :: "string \<Rightarrow> SyncPolicy option" where
  "parse_sync f =
     (if f = ''full'' then Some SyncFull else if f = ''none'' then Some SyncNone
      else if f = ''batch'' \<or> f = [] then Some SyncBatch else None)"

definition clamp_runs :: "int \<Rightarrow> int" where
  "clamp_runs numRuns = (if numRuns < 1 then 1 else numRuns)"

definition parse_keydist :: "string \<Rightarrow> bool option" where
  "parse_keydist f = (if f \<noteq> ''random'' \<and> f \<noteq> ''striped'' then None else Some (f = ''striped''))"

text \<open>The table of the workloads; calling the function of an unknown name panics.\<close>

definition workFn :: "string \<Rightarrow> workload option" where
  "workFn f =
     (if f = ''write'' then Some workloadWrite else if f = ''read'' then Some workloadRead
      else if f = ''atomic'' then Some workloadAtomic else if f = ''mixed'' then Some workloadMixed else None)"

end
