(* ===== verification/Runner_Props.thy ===== *)
theory Runner_Props
  imports Runner Tx_Props "HOL-Library.Multiset"
begin

text \<open>
  The load generator: its random numbers never get stuck, its key ranges partition the keys, its workloads touch
  only the keys they were given, seeding writes every key, and its reports account for every call.
\<close>

subsection \<open>Random numbers\<close>

lemma push_bit_fixed:
  fixes z :: "'a::len word"
  assumes "push_bit k z = z" "0 < k"
  shows "z = 0"
proof (rule bit_eqI)
  fix n
  have "\<not> bit z n" for n
  proof (induction n rule: less_induct)
    case (less n)
    show ?case
    proof
      assume b: "bit z n"
      then have "bit (push_bit k z) n" using assms(1) by simp
      then have "k \<le> n" "bit z (n - k)" by (simp_all add: bit_push_bit_iff)
      with less [of "n - k"] assms(2) show False by simp
    qed
  qed
  then show "bit z n \<longleftrightarrow> bit 0 n" by simp
qed

lemma drop_bit_fixed:
  fixes z :: "'a::len word"
  assumes "drop_bit k z = z" "0 < k"
  shows "z = 0"
proof (rule bit_eqI)
  fix n
  have s: "bit z m \<longleftrightarrow> bit z (k + m)" for m using assms(1) by (metis bit_drop_bit_eq comp_apply)
  have "bit z m \<longleftrightarrow> bit z (j * k + m)" for j m
    by (induction j) (simp, metis s add.assoc mult_Suc)
  then have "bit z n \<longleftrightarrow> bit z (LENGTH('a) * k + n)" .
  moreover have "LENGTH('a) \<le> LENGTH('a) * k + n" using assms(2) by (cases k) simp_all
  ultimately show "bit z n \<longleftrightarrow> bit 0 n" using bit_imp_le_length [of z "LENGTH('a) * k + n"] by auto
qed

lemma xorshift_inj:
  fixes f :: "'a::len word \<Rightarrow> 'a word"
  assumes "\<And>x y. f (x XOR y) = f x XOR f y" "\<And>z. f z = z \<Longrightarrow> z = 0"
  shows "inj (\<lambda>x. x XOR f x)"
proof (rule injI)
  fix x y
  assume e: "x XOR f x = y XOR f y"
  then have "f (x XOR y) = x XOR y" by (simp add: assms(1)) (metis xor.assoc xor.commute xor.left_commute xor_self_eq xor.right_neutral)
  then have "x XOR y = 0" by (rule assms(2))
  then show "x = y" by (metis xor.assoc xor.right_neutral xor_self_eq xor.commute)
qed

lemma rng_next_inj: "inj rng_next"
proof -
  have "inj (\<lambda>x. x XOR push_bit k x :: uint64)" if "0 < k" for k
    by (rule xorshift_inj) (simp add: push_bit_xor, rule push_bit_fixed [OF _ that])
  moreover have "inj (\<lambda>x. x XOR drop_bit k x :: uint64)" if "0 < k" for k
    by (rule xorshift_inj) (simp add: drop_bit_xor, rule drop_bit_fixed [OF _ that])
  ultimately have "inj ((\<lambda>x. x XOR push_bit 17 x) \<circ> (\<lambda>x. x XOR drop_bit 7 x) \<circ> (\<lambda>x. x XOR push_bit 13 x :: uint64))"
    by (intro inj_compose) simp_all
  moreover have "rng_next = (\<lambda>x. x XOR push_bit 17 x) \<circ> (\<lambda>x. x XOR drop_bit 7 x) \<circ> (\<lambda>x. x XOR push_bit 13 x)"
    by (simp add: fun_eq_iff rng_next_def Let_def)
  ultimately show ?thesis by simp
qed

lemma rng_next_zero: "rng_next x = 0 \<longleftrightarrow> x = 0"
proof -
  have "rng_next 0 = 0" by (simp add: rng_next_def)
  with rng_next_inj show ?thesis by (metis injD)
qed

lemma rng_iterate_nonzero: "x \<noteq> 0 \<Longrightarrow> (rng_next ^^ n) x \<noteq> 0"
  by (induction n) (simp_all add: rng_next_zero)

lemma intn_range:
  assumes "0 < n" "n < 2 ^ 64"
  obtains i where "intn r n = Some (i, rng_next r)" "i < n"
proof -
  have u: "unat (word_of_nat n :: uint64) = n" using assms(2) by (simp add: unat_of_nat)
  then have "(word_of_nat n :: uint64) \<noteq> 0" using assms(1) by (metis less_irrefl unat_0)
  moreover have "unat (rng_next r mod word_of_nat n) < n" using u assms(1) by (simp add: unat_mod)
  ultimately show thesis using that by (simp add: intn_def Let_def)
qed

lemma intn_empty: "intn r 0 = None"
  by (simp add: intn_def)

subsection \<open>Key ranges\<close>

lemma concat_strides: "concat (map (\<lambda>i. take st (drop (i * st) xs)) [0..<m]) = take (m * st) xs"
proof (induction m)
  case (Suc m)
  have "take (Suc m * st) xs = take (m * st + st) xs" by (simp add: add.commute)
  with Suc show ?case by (simp only: take_add upt_Suc_append le0 map_append concat_append) simp
qed simp

lemma striped_range_inner:
  assumes "0 < c" "c \<le> n" "i < c - 1"
  shows "striped_range (int n) (int c) (int i) = (int (i * (n div c)), int (i * (n div c) + n div c))"
    "i * (n div c) + n div c \<le> n"
proof -
  have s: "n div c \<ge> 1" using assms(1,2) by (simp add: Suc_leI div_greater_zero_iff)
  have "Suc i * (n div c) \<le> c * (n div c)" using assms(3) by (intro mult_le_mono1) simp
  also have "\<dots> \<le> n" by (rule times_div_less_eq_dividend)
  finally show le: "i * (n div c) + n div c \<le> n" by simp
  have "int n div int c = int (n div c)" by (simp add: zdiv_int)
  moreover have "\<not> int (n div c) < 1" "\<not> int i * int (n div c) + int (n div c) > int n" "int i \<noteq> int c - 1"
    "\<not> int i * int (n div c) \<ge> int n"
    using s le assms(3) by (simp_all flip: of_nat_mult of_nat_add)
  ultimately show "striped_range (int n) (int c) (int i) = (int (i * (n div c)), int (i * (n div c) + n div c))"
    by (simp add: striped_range_def Let_def)
qed

lemma striped_range_last:
  assumes "0 < c" "c \<le> n"
  shows "striped_range (int n) (int c) (int (c - 1)) = (int ((c - 1) * (n div c)), int n)" "(c - 1) * (n div c) < n"
proof -
  have s: "n div c \<ge> 1" using assms(1,2) by (simp add: Suc_leI div_greater_zero_iff)
  have "(c - 1) * (n div c) < c * (n div c)" using s assms(1) by (intro mult_less_mono1) simp_all
  also have "\<dots> \<le> n" by (rule times_div_less_eq_dividend)
  finally show lt: "(c - 1) * (n div c) < n" .
  have "int n div int c = int (n div c)" by (simp add: zdiv_int)
  moreover have "\<not> int (n div c) < 1" "int (c - 1) = int c - 1" using s assms(1) by simp_all
  moreover have "int (c - 1) * int (n div c) < int n" using lt by (metis of_nat_mult of_nat_less_iff)
  ultimately show "striped_range (int n) (int c) (int (c - 1)) = (int ((c - 1) * (n div c)), int n)"
    by (simp add: striped_range_def Let_def)
qed

lemma go_slice_nat:
  "go_slice xs (int lo) (int hi) = (if lo \<le> hi \<and> hi \<le> length xs then Some (take (hi - lo) (drop lo xs)) else None)"
  by (simp add: go_slice_def)

lemma worker_keys_range:
  assumes "striped_range (int (length keys)) (int c) (int i) = (int lo, int hi)" "0 < c" "lo \<le> hi" "hi \<le> length keys"
  shows "worker_keys True keys c i = Some (take (hi - lo) (drop lo keys))"
  using assms by (simp add: worker_keys_def go_slice_nat)

lemma worker_keys_striped:
  assumes "0 < c" "c \<le> length keys" "i < c"
  shows "worker_keys True keys c i = Some (if i = c - 1 then drop (i * (length keys div c)) keys
    else take (length keys div c) (drop (i * (length keys div c)) keys))"
proof (cases "i = c - 1")
  case True
  have "worker_keys True keys c (c - 1) = Some (take (length keys - (c - 1) * (length keys div c))
      (drop ((c - 1) * (length keys div c)) keys))"
    using striped_range_last [OF assms(1,2)] assms(1) by (intro worker_keys_range) (blast, simp_all)
  with True show ?thesis by simp
next
  case False
  with assms(3) have i: "i < c - 1" by simp
  have "worker_keys True keys c i = Some (take (i * (length keys div c) + length keys div c - i * (length keys div c))
      (drop (i * (length keys div c)) keys))"
    using striped_range_inner [OF assms(1,2) i] assms(1) by (intro worker_keys_range) (blast, simp_all)
  with False show ?thesis by simp
qed

text \<open>With more workers than keys, the ones without a range of their own share the last key.\<close>

lemma worker_keys_crowded:
  assumes "length keys < c" "keys \<noteq> []" "i < c"
  shows "worker_keys True keys c i = Some [keys ! min i (length keys - 1)]"
proof -
  have d: "int (length keys) div int c = 0" using assms(1) by simp
  let ?j = "min i (length keys - 1)"
  have j: "?j < length keys" using assms(2) by (cases keys) auto
  have "striped_range (int (length keys)) (int c) (int i) = (int ?j, int (Suc ?j))"
    using assms by (auto simp: striped_range_def Let_def d min_def neq_Nil_conv)
  with j assms(1,3) have "worker_keys True keys c i = Some (take (Suc ?j - ?j) (drop ?j keys))"
    by (intro worker_keys_range) simp_all
  moreover have "take (Suc n - n) (drop n keys) = [keys ! n]" if "n < length keys" for n
    using that by (simp flip: Cons_nth_drop_Suc)
  note this [OF j]
  ultimately show ?thesis by simp
qed

subsection \<open>Accounting\<close>

definition succeeded :: "nat \<times> dpx_error option \<times> int \<Rightarrow> bool" where
  "succeeded ev \<longleftrightarrow> fst (snd ev) = None"

definition conflicted :: "nat \<times> dpx_error option \<times> int \<Rightarrow> bool" where
  "conflicted ev \<longleftrightarrow> fst (snd ev) = Some DpxConflictExhausted"

lemma mset_concat_update:
  "i < length xss \<Longrightarrow> mset (concat (xss[i := xss ! i @ [x]])) = add_mset x (mset (concat xss))"
  by (induction xss arbitrary: i) (auto split: nat.splits)

lemma count_calls:
  assumes "\<forall>ev \<in> set evs. fst ev < length (rcLocals c)" "c' = foldl count_call c evs"
  shows "rcOps c' = rcOps c + word_of_nat (length (filter succeeded evs))
    \<and> rcConflicts c' = rcConflicts c + word_of_nat (length (filter conflicted evs))
    \<and> rcErrs c' = rcErrs c + word_of_nat (length (filter (\<lambda>ev. \<not> succeeded ev \<and> \<not> conflicted ev) evs))
    \<and> mset (concat (rcLocals c')) = mset (concat (rcLocals c)) + mset (map (snd \<circ> snd) (filter succeeded evs))"
  using assms
proof (induction evs arbitrary: c)
  case (Cons ev evs)
  obtain i err lat where ev: "ev = (i, err, lat)" by (cases ev)
  have "\<forall>ev \<in> set evs. fst ev < length (rcLocals (count_call c ev'))" for ev'
    using Cons.prems(1) by (auto simp: count_call_def split: prod.splits)
  from Cons.IH [OF this [of ev]] Cons.prems ev show ?case
    by (auto simp: count_call_def succeeded_def conflicted_def isConflictExhausted_def mset_concat_update ac_simps)
qed simp

lemma sort_mset_eq: "mset xs = mset ys \<Longrightarrow> sort xs = sort (ys :: int list)"
  by (rule properties_for_sort) simp_all

lemma stats_add_simps [simp]:
  "rsRuns (stats_add tps s r w) = rsRuns s" "tpsSamples (stats_add tps s r w) = tpsSamples s @ [tps r]"
  "rsLatencies (stats_add tps s r w) = (if w then rsLatencies s else rsLatencies s @ rrLatencies r)"
  "totalOps (stats_add tps s r w) = (if w then totalOps s else totalOps s + rrOps r)"
  "totalErrors (stats_add tps s r w) = (if w then totalErrors s else totalErrors s + rrErrors r)"
  "totalConflicts (stats_add tps s r w) = (if w then totalConflicts s else totalConflicts s + rrConflicts r)"
  "totalDuration (stats_add tps s r w) = (if w then totalDuration s else totalDuration s + rrDuration r)"
  "totalGCPauses (stats_add tps s r w) = (if w then totalGCPauses s else totalGCPauses s + rrGCPauses r)"
  "totalGCCount (stats_add tps s r w) = (if w then totalGCCount s else totalGCCount s + rrGCCount r)"
  by (simp_all add: stats_add_def Let_def)

lemma run_loop_totals:
  assumes "n \<noteq> 1 \<or> \<not> numRuns > 1" "0 < n" "s' = run_loop tps numRuns n rs s" "n \<noteq> 1 \<or> length rs \<le> 1"
  shows "rsRuns s' = rsRuns s \<and> tpsSamples s' = tpsSamples s @ map tps rs
    \<and> rsLatencies s' = rsLatencies s @ concat (map rrLatencies rs)
    \<and> totalOps s' = totalOps s + sum_list (map rrOps rs) \<and> totalErrors s' = totalErrors s + sum_list (map rrErrors rs)
    \<and> totalConflicts s' = totalConflicts s + sum_list (map rrConflicts rs)
    \<and> totalDuration s' = totalDuration s + sum_list (map rrDuration rs)
    \<and> totalGCPauses s' = totalGCPauses s + sum_list (map rrGCPauses rs)
    \<and> totalGCCount s' = totalGCCount s + sum_list (map rrGCCount rs)"
  using assms
proof (induction rs arbitrary: n s)
  case (Cons r rs)
  have "s' = run_loop tps numRuns (n + 1) rs (stats_add tps s r False)" using Cons.prems(1,3) by auto
  from Cons.IH [OF _ _ this] Cons.prems(2) show ?case by (simp add: add.assoc)
qed simp

text \<open>The runs that count: all but the first, when there are several.\<close>

definition measured :: "runResult list \<Rightarrow> runResult list" where
  "measured rs = (if length rs > 1 then tl rs else rs)"

lemma benchmark_totals:
  assumes "s = benchmark_stats tps rs"
  shows "rsRuns s = int (length rs) \<and> tpsSamples s = map tps rs \<and> measuredSamples s = map tps (measured rs)
    \<and> rsLatencies s = concat (map rrLatencies (measured rs))
    \<and> totalOps s = sum_list (map rrOps (measured rs)) \<and> totalErrors s = sum_list (map rrErrors (measured rs))
    \<and> totalConflicts s = sum_list (map rrConflicts (measured rs))
    \<and> totalDuration s = sum_list (map rrDuration (measured rs))
    \<and> totalGCPauses s = sum_list (map rrGCPauses (measured rs))
    \<and> totalGCCount s = sum_list (map rrGCCount (measured rs))"
proof (cases "length rs > 1")
  case True
  then obtain r rs' where rs: "rs = r # rs'" by (cases rs) auto
  with True assms have "s = run_loop tps (length rs) 2 rs' (stats_add tps (newRunStats (int (length rs))) r True)"
    by (simp add: benchmark_stats_def numeral_2_eq_2)
  from run_loop_totals [OF _ _ this] True rs show ?thesis
    by (simp add: measured_def measuredSamples_def newRunStats_def)
next
  case False
  have "s = run_loop tps (length rs) 1 rs (newRunStats (int (length rs)))" using assms by (simp add: benchmark_stats_def)
  from run_loop_totals [OF _ _ this] False show ?thesis
    by (simp add: measured_def measuredSamples_def newRunStats_def)
qed

text \<open>The averages of the summary divide these totals by all runs, the excluded one included.\<close>

lemma average_understated:
  assumes "length rs > 1" "\<forall>r \<in> set rs. rrDuration r = d" "0 < d"
  shows "avgDuration (benchmark_stats tps rs) = (int (length rs) - 1) * d div int (length rs)"
    "avgDuration (benchmark_stats tps rs) < d"
proof -
  have "sum_list (map rrDuration xs) = int (length xs) * d" if "\<forall>r \<in> set xs. rrDuration r = d" for xs
    using that by (induction xs) (simp_all add: algebra_simps)
  from this [of "tl rs"] assms(1,2) have t: "sum_list (map rrDuration (measured rs)) = (int (length rs) - 1) * d"
    by (cases rs) (simp_all add: measured_def)
  show a: "avgDuration (benchmark_stats tps rs) = (int (length rs) - 1) * d div int (length rs)"
    using benchmark_totals [OF refl, of tps rs] t by (simp add: avgDuration_def)
  let ?x = "(int (length rs) - 1) * d" and ?n = "int (length rs)"
  have "0 \<le> ?x mod ?n" using assms(1) by (intro pos_mod_sign) auto
  then have "?x div ?n * ?n \<le> ?x" by (simp add: minus_mod_eq_div_mult [symmetric])
  also have "?x < d * ?n" using assms(1,3) by (simp add: algebra_simps)
  finally have "?x div ?n < d" by (rule mult_right_less_imp_less) simp
  then show "avgDuration (benchmark_stats tps rs) < d" by (simp only: a)
qed

subsection \<open>Percentiles\<close>

definition exact_rank :: "nat \<Rightarrow> nat \<Rightarrow> nat" where
  "exact_rank p n = (p * n + 99) div 100"

lemma exact_rank_bounds: "p * n \<le> 100 * exact_rank p n" "100 * exact_rank p n < p * n + 100"
  unfolding exact_rank_def by linarith+

lemma sorted_ranks:
  assumes "sorted s" "i < length s"
  shows "Suc i \<le> length (filter (\<lambda>y. y \<le> s ! i) s)" "length (filter (\<lambda>y. y < s ! i) s) \<le> i"
proof -
  have e: "filter Q s = filter Q (take n s) @ filter Q (drop n s)" for Q n by (metis filter_append append_take_drop_id)
  have "\<forall>y \<in> set (take (Suc i) s). y \<le> s ! i"
    using assms by (auto simp: set_conv_nth sorted_nth_mono)
  then have "filter (\<lambda>y. y \<le> s ! i) (take (Suc i) s) = take (Suc i) s" by (simp add: filter_id_conv)
  then have "length (take (Suc i) s) \<le> length (filter (\<lambda>y. y \<le> s ! i) s)"
    using e [of "\<lambda>y. y \<le> s ! i" "Suc i"] by simp
  then show "Suc i \<le> length (filter (\<lambda>y. y \<le> s ! i) s)" using assms(2) by simp
  have "\<forall>y \<in> set (drop i s). \<not> y < s ! i"
    using assms by (auto simp: set_conv_nth not_less sorted_nth_mono)
  then have "filter (\<lambda>y. y < s ! i) (drop i s) = []" by (simp add: filter_empty_conv)
  then have "length (filter (\<lambda>y. y < s ! i) s) \<le> length (take i s)"
    using e [of "\<lambda>y. y < s ! i" i] length_filter_le [of "\<lambda>y. y < s ! i" "take i s"] by simp
  then show "length (filter (\<lambda>y. y < s ! i) s) \<le> i" using assms(2) by simp
qed

lemma pct_rank:
  assumes "1 \<le> r" "r \<le> length s"
  shows "pct (int r) s = s ! (r - 1)"
  using assms by (cases s) (auto simp: pct_def Let_def nat_diff_distrib)

subsection \<open>Workloads and seeding\<close>

fun prog_key :: "txprog \<Rightarrow> bytes option" where
  "prog_key (DoGet k c) = Some k" | "prog_key (DoSet k v c) = Some k" | "prog_key (DoAdd k d c) = Some k"
| "prog_key p = None"

definition workload_ok :: "workload \<Rightarrow> bool" where
  "workload_ok w \<longleftrightarrow> (\<forall>keys vb rng. keys \<noteq> [] \<longrightarrow> length keys < 2 ^ 64 \<longrightarrow> 8 \<le> length vb \<longrightarrow>
     (\<exists>prog vb' rng' k. w keys vb rng = Some (prog, vb', rng') \<and> prog_key prog = Some k \<and> k \<in> set keys
        \<and> length vb' = length vb \<and> (rng \<noteq> 0 \<longrightarrow> rng' \<noteq> 0)))"

lemma draw_key:
  assumes "keys \<noteq> []" "length keys < 2 ^ 64"
  obtains i where "i < length keys" "intn rng (length keys) = Some (i, rng_next rng)"
  using intn_range [of "length keys" rng] assms by auto

lemma workload_okI:
  assumes "\<And>keys vb rng i. i < length keys \<Longrightarrow> intn rng (length keys) = Some (i, rng_next rng) \<Longrightarrow> 8 \<le> length vb \<Longrightarrow>
    \<exists>prog vb' rng'. w keys vb rng = Some (prog, vb', rng') \<and> prog_key prog = Some (keys ! i)
      \<and> length vb' = length vb \<and> (rng \<noteq> 0 \<longrightarrow> rng' \<noteq> 0)"
  shows "workload_ok w"
  unfolding workload_ok_def
proof (intro allI impI)
  fix keys :: "bytes list" and vb :: bytes and rng
  assume k: "keys \<noteq> []" "length keys < 2 ^ 64" and v: "8 \<le> length vb"
  obtain i where i: "i < length keys" "intn rng (length keys) = Some (i, rng_next rng)" by (rule draw_key [OF k])
  from assms [OF i v] i(1) show "\<exists>prog vb' rng' k. w keys vb rng = Some (prog, vb', rng') \<and> prog_key prog = Some k
      \<and> k \<in> set keys \<and> length vb' = length vb \<and> (rng \<noteq> 0 \<longrightarrow> rng' \<noteq> 0)" by (metis nth_mem)
qed

lemma workloads_ok: "workload_ok workloadWrite" "workload_ok workloadRead" "workload_ok workloadAtomic"
proof -
  show "workload_ok workloadWrite"
    by (rule workload_okI) (simp add: workloadWrite_def PutUint64_def Let_def rng_next_zero)
  show "workload_ok workloadRead"
    by (rule workload_okI) (simp add: workloadRead_def rng_next_zero)
  show "workload_ok workloadAtomic"
  proof (rule workload_okI)
    fix keys :: "bytes list" and vb :: bytes and rng i
    assume i: "i < length keys" "intn rng (length keys) = Some (i, rng_next rng)"
    obtain j where "intn (rng_next rng) 100 = Some (j, rng_next (rng_next rng))"
      using intn_range [of 100 "rng_next rng"] by auto
    with i show "\<exists>prog vb' rng'. workloadAtomic keys vb rng = Some (prog, vb', rng') \<and> prog_key prog = Some (keys ! i)
        \<and> length vb' = length vb \<and> (rng \<noteq> 0 \<longrightarrow> rng' \<noteq> 0)"
      by (simp add: workloadAtomic_def rng_next_zero)
  qed
qed

lemma workloadMixed_ok: "workload_ok workloadMixed"
  unfolding workload_ok_def
proof (intro allI impI)
  fix keys :: "bytes list" and vb :: bytes and rng
  assume k: "keys \<noteq> []" "length keys < 2 ^ 64" "8 \<le> length vb"
  obtain r where r: "intn rng 100 = Some (r, rng_next rng)" using intn_range [of 100 rng] by auto
  note W = workloads_ok [unfolded workload_ok_def, rule_format, OF k, of "rng_next rng"]
  show "\<exists>prog vb' rng' k. workloadMixed keys vb rng = Some (prog, vb', rng') \<and> prog_key prog = Some k \<and> k \<in> set keys
      \<and> length vb' = length vb \<and> (rng \<noteq> 0 \<longrightarrow> rng' \<noteq> 0)"
    using W r by (simp add: workloadMixed_def rng_next_zero)
qed

text \<open>The key of a number determines it.\<close>

definition dval :: "nat list \<Rightarrow> nat" where
  "dval ds = foldl (\<lambda>a d. 10 * a + d) 0 ds"

lemma dval_decimal: "dval (decimal n) = n"
proof (induction n rule: decimal.induct)
  case (1 n)
  then show ?case by (subst decimal.simps) (simp add: dval_def)
qed

lemma decimal_digits: "\<forall>d \<in> set (decimal n). d < 10"
proof (induction n rule: decimal.induct)
  case (1 n)
  then show ?case by (subst decimal.simps) auto
qed

lemma dval_pad: "dval (replicate m 0 @ ds) = dval ds"
proof -
  have "foldl (\<lambda>a d. 10 * a + d) 0 (replicate m (0 :: nat)) = 0" by (induction m) simp_all
  then show ?thesis by (simp add: dval_def)
qed

lemma bench_key_inj: "bench_key i = bench_key j \<longleftrightarrow> i = j"
proof
  let ?p = "\<lambda>i. replicate (8 - length (decimal i)) 0 @ decimal i" and ?c = "\<lambda>d. 48 + word_of_nat d :: 8 word"
  have d: "\<forall>d \<in> set (?p n). d < 10" for n using decimal_digits by auto
  have u: "unat (word_of_nat d :: 8 word) = d" if "d < 10" for d using that by (simp add: unat_of_nat)
  have inj: "inj_on ?c {d. d < 10}" by (intro inj_onI) (metis add_left_cancel mem_Collect_eq u)
  assume "bench_key i = bench_key j"
  then have "map ?c (?p i) = map ?c (?p j)" by (simp only: bench_key_def append_same_eq same_append_eq)
  moreover have "inj_on ?c (set (?p i) \<union> set (?p j))" by (rule inj_on_subset [OF inj]) (use d in blast)
  ultimately have "?p i = ?p j" by (rule map_inj_on)
  then show "i = j" using dval_pad dval_decimal by metis
qed simp

lemma distinct_allKeys: "distinct (allKeys n)"
  by (simp add: allKeys_def distinct_map inj_on_def bench_key_inj)

text \<open>The calls that seeding amounts to: every key with the next random number in front of the rest of the buffer.\<close>

primrec seed_calls :: "bytes list \<Rightarrow> bytes \<Rightarrow> uint64 \<Rightarrow> batch" where
  "seed_calls [] t r = []"
| "seed_calls (k # ks) t r = BSet k (le_put 8 (rng_next r) @ t) # seed_calls ks t (rng_next r)"

lemma seed_calls_append:
  "seed_calls (xs @ ys) t r = seed_calls xs t r @ seed_calls ys t ((rng_next ^^ length xs) r)"
  by (induction xs arbitrary: r) (simp_all add: funpow_swap1)

lemma seed_fill_calls:
  "8 \<le> length vb \<Longrightarrow> \<exists>vb'. seed_fill ks vb r b = Some (b @ seed_calls ks (drop 8 vb) r, vb', (rng_next ^^ length ks) r)
     \<and> length vb' = length vb \<and> drop 8 vb' = drop 8 vb"
proof (induction ks arbitrary: vb r b)
  case (Cons k ks)
  let ?vb = "le_put 8 (rng_next r) @ drop 8 vb"
  have "8 \<le> length ?vb" "length ?vb = length vb" "drop 8 ?vb = drop 8 vb" using Cons.prems by simp_all
  with Cons.IH [of ?vb "rng_next r" "b @ [BSet k ?vb]"] Cons.prems show ?case
    by (auto simp: Let_def PutUint64_def funpow_swap1)
qed simp

lemma seed_calls_lookup:
  "distinct ks \<Longrightarrow> j < length ks \<Longrightarrow> kv_apply m (seed_calls ks t r) (ks ! j) = Some (le_put 8 ((rng_next ^^ Suc j) r) @ t)"
proof (induction ks arbitrary: m r j)
  case (Cons k ks)
  have keys: "call_key ` set (seed_calls ks t r) = set ks" for r by (induction ks arbitrary: r) simp_all
  show ?case
  proof (cases j)
    case 0
    with Cons.prems show ?thesis by (simp add: kv_apply_untouched keys kv_call_at)
  next
    case (Suc i)
    with Cons.IH [of i _ "rng_next r"] Cons.prems show ?thesis by (simp add: funpow_swap1)
  qed
qed simp

lemma seed_calls_keys: "call_key ` set (seed_calls ks t r) = set ks"
  by (induction ks arbitrary: r) simp_all

context total_engine
begin

lemma seed_engine_contents:
  assumes "\<And>e b. invar e \<Longrightarrow> fst (eApplyBatch E e b False) = None"
  shows "invar e \<Longrightarrow> 8 \<le> length vb \<Longrightarrow> \<exists>e'. seed_engine E keys i vb r e = Some e' \<and> invar e'
    \<and> contents e' = kv_apply (contents e) (seed_calls (drop i keys) (drop 8 vb) r)"
proof (induction "length keys - i" arbitrary: i vb r e rule: less_induct)
  case less
  show ?case
  proof (cases "i < length keys")
    case True
    let ?ks = "take seedBatchSize (drop i keys)"
    obtain vb' where f: "seed_fill ?ks vb r [] = Some (seed_calls ?ks (drop 8 vb) r, vb', (rng_next ^^ length ?ks) r)"
      "length vb' = length vb" "drop 8 vb' = drop 8 vb"
      using seed_fill_calls [OF less.prems(2), of ?ks r "[]"] by auto
    let ?b = "seed_calls ?ks (drop 8 vb) r"
    obtain e1 where a: "eApplyBatch E e ?b False = (None, e1)"
      using assms [OF less.prems(1), of ?b] by (metis prod.collapse)
    note C = commit_contents [OF less.prems(1) a]
    have d: "drop i keys = ?ks @ drop (i + seedBatchSize) keys" by (simp add: add.commute flip: drop_drop)
    have "length keys - (i + seedBatchSize) < length keys - i" using True by (simp add: seedBatchSize_def)
    from less.hyps [OF this C(1), of vb' "(rng_next ^^ length ?ks) r"] less.prems(2) f(2,3) obtain e' where
      e': "seed_engine E keys (i + seedBatchSize) vb' ((rng_next ^^ length ?ks) r) e1 = Some e'" "invar e'"
        "contents e' = kv_apply (contents e1) (seed_calls (drop (i + seedBatchSize) keys) (drop 8 vb) ((rng_next ^^ length ?ks) r))"
      by auto
    have "seed_engine E keys i vb r e = Some e'"
      using True f(1) a e'(1) by (subst seed_engine.simps) simp
    moreover have "contents e' = kv_apply (contents e) (seed_calls (drop i keys) (drop 8 vb) r)"
      using C(2) e'(3) by (subst d) (simp add: seed_calls_append)
    ultimately show ?thesis using e'(2) by blast
  next
    case False
    with less.prems show ?thesis by (subst seed_engine.simps) simp
  qed
qed

end

end
