(* ===== verification/Runner_Claims.thy ===== *)
theory Runner_Claims
  imports Runner_Props
begin

text \<open>Properties of the load generator.\<close>

text \<open>
  The striped distribution gives every worker keys of its own: with at least as many keys as workers, no slice
  expression is out of range, no worker is left without keys, and the workers' slices in order are exactly the
  keys, so two workers never share one.
\<close>

theorem striped_keys_partition:
  assumes "0 < c" "c \<le> length keys"
  shows "concat (map (\<lambda>i. the (worker_keys True keys c i)) [0..<c]) = keys
    \<and> (\<forall>i < c. \<exists>ks. worker_keys True keys c i = Some ks \<and> ks \<noteq> [])"
proof
  let ?st = "length keys div c"
  obtain m where c: "c = Suc m" using assms(1) by (cases c) auto
  have st: "0 < ?st" using assms by (simp add: div_greater_zero_iff)
  have W: "the (worker_keys True keys c i) = take ?st (drop (i * ?st) keys)" if "i < m" for i
    using worker_keys_striped [OF assms, of i] that c by simp
  have "map (\<lambda>i. the (worker_keys True keys c i)) [0..<m] = map (\<lambda>i. take ?st (drop (i * ?st) keys)) [0..<m]"
    using W by (intro map_cong) simp_all
  then have "concat (map (\<lambda>i. the (worker_keys True keys c i)) [0..<m]) = take (m * ?st) keys"
    by (simp only: concat_strides)
  moreover have "the (worker_keys True keys c m) = drop (m * ?st) keys"
    using worker_keys_striped [OF assms, of m] c by simp
  moreover have "[0..<c] = [0..<m] @ [m]" by (simp add: c)
  ultimately have "concat (map (\<lambda>i. the (worker_keys True keys c i)) [0..<c]) = take (m * ?st) keys @ drop (m * ?st) keys"
    by (simp del: append_take_drop_id upt_Suc)
  then show "concat (map (\<lambda>i. the (worker_keys True keys c i)) [0..<c]) = keys" by simp
  show "\<forall>i < c. \<exists>ks. worker_keys True keys c i = Some ks \<and> ks \<noteq> []"
  proof (intro allI impI)
    fix i
    assume that: "i < c"
    have "i * ?st < c * ?st" using that st by simp
    also have "\<dots> \<le> length keys" by (rule times_div_less_eq_dividend)
    finally have "i * ?st < length keys" .
    with worker_keys_striped [OF assms that] st show "\<exists>ks. worker_keys True keys c i = Some ks \<and> ks \<noteq> []"
      by (cases "i = c - 1") (auto simp: not_le)
  qed
qed

theorem striped_keys_partition_witness:
  "concat (map (\<lambda>i. the (worker_keys True (allKeys 7) 3 i)) [0..<3]) = allKeys 7 \<and> length (the (worker_keys True (allKeys 7) 3 2)) = 3"
proof -
  have l: "length (allKeys 7) = 7" by (simp add: allKeys_def)
  have "length (the (worker_keys True (allKeys 7) 3 2)) = 3" by code_simp
  with striped_keys_partition [of 3 "allKeys 7"] l show ?thesis by simp
qed

text \<open>
  A timed run accounts for every call: in whatever order the workers' atomic updates come, successes, exhausted
  conflicts and other errors are counted exactly, and the latencies of the result are those of the successful calls,
  in order.
\<close>

theorem timed_run_accounts:
  assumes "\<forall>ev \<in> set evs. fst ev < concurrency"
    and "r = timedRunWithWorkerKeys concurrency evs elapsed pauses gcs"
  shows "rrOps r = word_of_nat (length (filter succeeded evs))
    \<and> rrConflicts r = word_of_nat (length (filter conflicted evs))
    \<and> rrOps r + rrConflicts r + rrErrors r = word_of_nat (length evs)
    \<and> rrLatencies r = sort (map (snd \<circ> snd) (filter succeeded evs))"
proof -
  let ?c = "\<lparr>rcOps = 0, rcErrs = 0, rcConflicts = 0, rcLocals = replicate concurrency []\<rparr>"
  have z: "concat (replicate n []) = ([] :: int list)" for n by (induction n) simp_all
  have i: "\<forall>ev \<in> set evs. fst ev < length (rcLocals ?c)" using assms(1) by simp
  note C = count_calls [OF i refl]
  have n: "length (filter succeeded evs) + length (filter conflicted evs)
      + length (filter (\<lambda>ev. \<not> succeeded ev \<and> \<not> conflicted ev) evs) = length evs"
    by (induction evs) (auto simp: succeeded_def conflicted_def)
  have l: "mergeAndSort (rcLocals (foldl count_call ?c evs)) = sort (map (snd \<circ> snd) (filter succeeded evs))"
    unfolding mergeAndSort_def using C by (intro sort_mset_eq) (simp add: z)
  have "rrOps r + rrConflicts r + rrErrors r = word_of_nat (length (filter succeeded evs) + length (filter conflicted evs)
      + length (filter (\<lambda>ev. \<not> succeeded ev \<and> \<not> conflicted ev) evs))"
    using C assms(2) by (simp add: timedRunWithWorkerKeys_def Let_def)
  then show ?thesis using C assms(2) l by (simp only: n) (simp add: timedRunWithWorkerKeys_def Let_def)
qed

theorem timed_run_accounts_witness:
  "rrLatencies (timedRunWithWorkerKeys 2 [(1, None, 7), (0, Some DpxConflictExhausted, 9), (0, None, 3), (1, Some DpxConflict, 1)] 10 0 0)
   = [3, 7]"
proof -
  let ?evs = "[(1, None, 7), (0, Some DpxConflictExhausted, 9), (0, None, 3), (1, Some DpxConflict, 1)]
    :: (nat \<times> dpx_error option \<times> int) list"
  have "\<forall>ev \<in> set ?evs. fst ev < 2" by simp
  from timed_run_accounts [OF this refl, of 10 0 0] show ?thesis by (simp add: succeeded_def)
qed

text \<open>
  \<open>pct\<close> is the nearest-rank percentile when its rank is computed exactly: at least \<open>p\<close> per cent of the sorted
  samples are at most the value returned, and fewer than \<open>p\<close> per cent are below it. For whatever rank it is given it
  returns one of the samples.
\<close>

theorem pct_is_percentile:
  assumes "sorted s" "s \<noteq> []" "0 < p" "p \<le> 100"
  shows "(let x = pct (int (exact_rank p (length s))) s in
      p * length s \<le> 100 * length (filter (\<lambda>y. y \<le> x) s) \<and> 100 * length (filter (\<lambda>y. y < x) s) < p * length s)
    \<and> pct rank s \<in> set s"
proof
  let ?r = "exact_rank p (length s)"
  note B = exact_rank_bounds [of p "length s"]
  have "0 < p * length s" "p * length s \<le> 100 * length s" using assms(2-4) by simp_all
  then have r: "1 \<le> ?r" "?r \<le> length s" using B by linarith+
  have i: "?r - 1 < length s" using r by simp
  note R = sorted_ranks [OF assms(1) i]
  from R(1) r(1) B(1) have "p * length s \<le> 100 * length (filter (\<lambda>y. y \<le> s ! (?r - 1)) s)" by simp
  moreover from R(2) r(1) B(2) have "100 * length (filter (\<lambda>y. y < s ! (?r - 1)) s) < p * length s" by linarith
  ultimately show "let x = pct (int ?r) s in
      p * length s \<le> 100 * length (filter (\<lambda>y. y \<le> x) s) \<and> 100 * length (filter (\<lambda>y. y < x) s) < p * length s"
    by (simp add: pct_rank [OF r] Let_def)
  have "nat (int (length s) - 1) < length s" using assms(2) by (cases s) simp_all
  then show "pct rank s \<in> set s" using assms(2) by (auto simp: pct_def Let_def intro!: nth_mem)
qed

theorem pct_is_percentile_witness: "pct (int (exact_rank 95 5)) [1, 2, 3, 4, 50] = 50 \<and> pct 99 [1, 2, 3, 4, 50] \<in> {1, 2, 3, 4, 50}"
proof -
  have "sorted [1, 2, 3, 4, 50 :: int]" "exact_rank 95 5 = 5" by (simp_all add: exact_rank_def)
  with pct_is_percentile [of "[1, 2, 3, 4, 50]" 95 99] show ?thesis by (simp add: pct_def Let_def)
qed

text \<open>
  Seeding the in-memory engine writes every key: the loop ends, each of the \<open>n\<close> keys holds the next random number in
  the first eight bytes of a value of the configured size, and no other key is touched.
\<close>

theorem seeding_complete:
  assumes "mem_invar e" "8 \<le> length vb"
  shows "\<exists>e'. seed_engine memory_engine (allKeys n) 0 vb rng e = Some e'
    \<and> (\<forall>j < n. engine_Get e' (bench_key j) = Inr (le_put 8 ((rng_next ^^ Suc j) rng) @ drop 8 vb))
    \<and> (\<forall>k. k \<notin> set (allKeys n) \<longrightarrow> engine_Get e' k = engine_Get e k)"
proof -
  have "fst (eApplyBatch memory_engine e b False) = None" for e :: "'a Engine" and b
    by (simp add: memory_engine_def ApplyBatch_def)
  from memt.seed_engine_contents [OF this assms, of "allKeys n" 0 rng] obtain e' where
    e': "seed_engine memory_engine (allKeys n) 0 vb rng e = Some e'" "mem_invar e'"
      "mem_contents e' = kv_apply (mem_contents e) (seed_calls (allKeys n) (drop 8 vb) rng)" by auto
  have g: "engine_Get e' k = kv_result (mem_contents e' k)" "engine_Get e k = kv_result (mem_contents e k)" for k
    using mem.get [OF e'(2), of k] mem.get [OF assms(1), of k] by (simp_all add: memory_engine_def)
  have "mem_contents e' (bench_key j) = Some (le_put 8 ((rng_next ^^ Suc j) rng) @ drop 8 vb)" if "j < n" for j
    using seed_calls_lookup [OF distinct_allKeys, of j n "mem_contents e" "drop 8 vb" rng] that e'(3)
    by (simp add: allKeys_def del: funpow.simps)
  moreover have "mem_contents e' k = mem_contents e k" if "k \<notin> set (allKeys n)" for k
    using that e'(3) by (simp add: kv_apply_untouched seed_calls_keys)
  ultimately show ?thesis using e'(1) g by simp
qed

theorem seeding_complete_witness:
  "\<exists>e'. seed_engine memory_engine (allKeys 3) 0 (replicate 10 0) 42 (New alist_pkg) = Some e'
     \<and> engine_Get e' (bench_key 2) = Inr (le_put 8 (rng_next (rng_next (rng_next 42))) @ [0, 0])"
proof -
  have "8 \<le> length (replicate 10 (0 :: 8 word))" by simp
  from seeding_complete [OF mem_New(1) [OF btree_ok_alist_pkg] this, of 3 42] show ?thesis
    by (auto simp: numeral_eq_Suc)
qed

end
