(* ===== verification/Raft_Node.thy ===== *)
theory Raft_Node
  imports Raft Sharded
begin

text \<open>
  The distributed proposer of \<open>src/conductor/node.go\<close>: the choice of a proposer, the opening and closing of the
  resources of a Raft node, and the admission of proposals. The Raft library, its stores and its transport are not part
  of the repository: the outcomes of the calls to them are an argument of \<open>raft_Open\<close>, and what the library does between
  a call of \<open>Apply\<close> and its answer are steps of the runs.
\<close>

subsection \<open>Opening\<close>

datatype raft_res = Transport | LogStore | StableStore | RaftInstance

datatype raft_open_error =
    RaftFsmOpen fsm_error
  | RaftSnapDir string
  | RaftSnapStore string
  | RaftResolve string
  | RaftTransport string
  | RaftMkdir string
  | RaftLogStore string
  | RaftStableStore string
  | RaftNew string

text \<open>The errors of the calls, in the order they are made, and whether the transport can be closed.\<close>

record raft_env =
  envSnapDir :: "string option"
  envSnapStore :: "string option"
  envResolve :: "string option"
  envTransport :: "string option"
  envMkdir :: "string option"
  envLogStore :: "string option"
  envStableStore :: "string option"
  envNewRaft :: "string option"
  transportCloser :: bool

definition raftInFlightLimit :: nat where
  "raftInFlightLimit = 256"

record 'e raftNode =
  rnFSM :: "'e dpxFSM"
  rnFree :: nat
  rnSemClosed :: bool

definition close_transport :: "raft_env \<Rightarrow> raft_res list \<Rightarrow> raft_res list" where
  "close_transport env held = (if transportCloser env then remove1 Transport held else held)"

text \<open>The result and the resources that are open when it is returned.\<close>

definition raft_Open ::
  "('e, 's) StorageEngine \<Rightarrow> 'e \<Rightarrow> SyncPolicy \<Rightarrow> bool \<Rightarrow> raft_env \<Rightarrow> (raft_open_error + 'e raftNode) \<times> raft_res list" where
  "raft_Open E eng policy w env =
     (case fsm_open E (newFSM eng policy w) of
        Inl err \<Rightarrow> (Inl (RaftFsmOpen err), [])
      | Inr (_, f) \<Rightarrow>
      (case envSnapDir env of Some err \<Rightarrow> (Inl (RaftSnapDir err), []) | None \<Rightarrow>
      (case envSnapStore env of Some err \<Rightarrow> (Inl (RaftSnapStore err), []) | None \<Rightarrow>
      (case envResolve env of Some err \<Rightarrow> (Inl (RaftResolve err), []) | None \<Rightarrow>
      (case envTransport env of Some err \<Rightarrow> (Inl (RaftTransport err), []) | None \<Rightarrow>
      (let h1 = [Transport] in
       case envMkdir env of Some err \<Rightarrow> (Inl (RaftMkdir err), close_transport env h1) | None \<Rightarrow>
      (case envLogStore env of Some err \<Rightarrow> (Inl (RaftLogStore err), close_transport env h1) | None \<Rightarrow>
      (let h2 = LogStore # h1 in
       case envStableStore env of
         Some err \<Rightarrow> (Inl (RaftStableStore err), close_transport env (remove1 LogStore h2))
       | None \<Rightarrow>
      (let h3 = StableStore # h2 in
       case envNewRaft env of
         Some err \<Rightarrow> (Inl (RaftNew err), remove1 StableStore (remove1 LogStore (close_transport env h3)))
       | None \<Rightarrow> (Inr \<lparr>rnFSM = f, rnFree = raftInFlightLimit, rnSemClosed = False\<rparr>, RaftInstance # h3))))))))))"

datatype 'e proposer_of =
    PDirect "'e directProposer"
  | PSharded "'e shardedDirectProposer"
  | PRaft "'e raftNode"

text \<open>The engine's \<open>IsSharded\<close>, if it has that method.\<close>

definition isShardedEngine :: "bool option \<Rightarrow> bool" where
  "isShardedEngine s = (case s of None \<Rightarrow> False | Some b \<Rightarrow> b)"

definition map_err :: "('a \<Rightarrow> 'b) \<Rightarrow> ('c \<Rightarrow> 'd) \<Rightarrow> 'a + 'c \<Rightarrow> 'b + 'd" where
  "map_err f g r = (case r of Inl e \<Rightarrow> Inl (f e) | Inr v \<Rightarrow> Inr (g v))"

definition conductor_Open ::
  "('e, 's) StorageEngine \<Rightarrow> bool option \<Rightarrow> nat \<Rightarrow> 'e \<Rightarrow> SyncPolicy \<Rightarrow> bool \<Rightarrow> raft_env \<Rightarrow>
     (raft_open_error + 'e proposer_of) \<times> raft_res list" where
  "conductor_Open E isSharded peers eng policy w env =
     (if peers = 0 then
        (if isShardedEngine isSharded
         then (map_err RaftFsmOpen PSharded (newShardedDirectProposer E eng policy w), [])
         else (map_err RaftFsmOpen PDirect (newDirectProposer E eng policy w), []))
      else case raft_Open E eng policy w env of (r, held) \<Rightarrow> (map_err (\<lambda>e. e) PRaft r, held))"

text \<open>The snapshot directory: the configured one, created, or a new temporary one.\<close>

definition snapshotDir :: "string \<Rightarrow> string option \<Rightarrow> string + string \<Rightarrow> string + string" where
  "snapshotDir raftDir mkdir mkTemp =
     (if raftDir \<noteq> [] then (case mkdir of Some err \<Rightarrow> Inl err | None \<Rightarrow> Inr raftDir) else mkTemp)"

subsection \<open>Shutting down\<close>

definition raft_Shutdown ::
  "raft_env \<Rightarrow> string option \<Rightarrow> 'e raftNode \<Rightarrow> raft_res list \<Rightarrow> string option \<times> 'e raftNode \<times> raft_res list" where
  "raft_Shutdown env raftErr n held =
     (let n1 = n\<lparr>rnSemClosed := True\<rparr> in
      case raftErr of
        Some err \<Rightarrow> (Some err, n1, held)
      | None \<Rightarrow> (None, n1, remove1 LogStore (remove1 StableStore (close_transport env (remove1 RaftInstance held)))))"

subsection \<open>Proposing\<close>

text \<open>Where a call of \<open>Propose\<close> stands; an answer comes with the place of its entry in the log.\<close>

datatype propose_pc =
    Waiting bytes
  | Admitted bytes
  | Answered bytes ApplyResult nat
  | Refused bytes string

record 'e raft_state =
  rtNode :: "'e raftNode"
  rtCalls :: "propose_pc list"
  rtLog :: "Log list list"
  rtResults :: "ApplyResult list"

fun is_admitted :: "propose_pc \<Rightarrow> bool" where
  "is_admitted (Admitted d) = True" | "is_admitted p = False"

fun answer_pos :: "propose_pc \<Rightarrow> nat option" where
  "answer_pos (Answered d r pos) = Some pos" | "answer_pos p = None"

text \<open>
  \<open>acquire\<close> and \<open>refuse\<close> are the two results of the semaphore. The library applies a further batch of entries, of this
  and of other nodes, whenever it is committed (\<open>commit\<close>); a call that waits on its future gets the
  response of the entry made for it (\<open>respond\<close>) or an error (\<open>fail\<close>), after which its entry may still be
  committed. Both return the slot.
\<close>

inductive propose_step :: "('e, 's) StorageEngine \<Rightarrow> 'e raft_state \<Rightarrow> 'e raft_state \<Rightarrow> bool" for E where
  call: "propose_step E s (s\<lparr>rtCalls := rtCalls s @ [Waiting d]\<rparr>)"
| acquire: "i < length (rtCalls s) \<Longrightarrow> rtCalls s ! i = Waiting d \<Longrightarrow> 0 < rnFree (rtNode s) \<Longrightarrow> \<not> rnSemClosed (rtNode s) \<Longrightarrow>
    propose_step E s (s\<lparr>rtNode := (rtNode s)\<lparr>rnFree := rnFree (rtNode s) - 1\<rparr>, rtCalls := (rtCalls s)[i := Admitted d]\<rparr>)"
| refuse: "i < length (rtCalls s) \<Longrightarrow> rtCalls s ! i = Waiting d \<Longrightarrow>
    propose_step E s (s\<lparr>rtCalls := (rtCalls s)[i := Refused d err]\<rparr>)"
| commit: "applyBatch E (rnFSM (rtNode s)) logs = (rs, f') \<Longrightarrow>
    propose_step E s (s\<lparr>rtNode := (rtNode s)\<lparr>rnFSM := f'\<rparr>, rtLog := rtLog s @ [logs], rtResults := rtResults s @ rs\<rparr>)"
| respond: "i < length (rtCalls s) \<Longrightarrow> rtCalls s ! i = Admitted d \<Longrightarrow> pos < length (concat (rtLog s)) \<Longrightarrow>
    logData (concat (rtLog s) ! pos) = d \<Longrightarrow> \<forall>p \<in> set (rtCalls s). answer_pos p \<noteq> Some pos \<Longrightarrow>
    propose_step E s (s\<lparr>rtNode := (rtNode s)\<lparr>rnFree := rnFree (rtNode s) + 1\<rparr>,
      rtCalls := (rtCalls s)[i := Answered d (rtResults s ! pos) pos]\<rparr>)"
| fail: "i < length (rtCalls s) \<Longrightarrow> rtCalls s ! i = Admitted d \<Longrightarrow>
    propose_step E s (s\<lparr>rtNode := (rtNode s)\<lparr>rnFree := rnFree (rtNode s) + 1\<rparr>,
      rtCalls := (rtCalls s)[i := Refused d err]\<rparr>)"
| shut: "propose_step E s (s\<lparr>rtNode := (rtNode s)\<lparr>rnSemClosed := True\<rparr>\<rparr>)"

definition raft_start :: "'e raftNode \<Rightarrow> 'e raft_state" where
  "raft_start n = \<lparr>rtNode = n, rtCalls = [], rtLog = [], rtResults = []\<rparr>"

end
