(* ===== verification/Raft_Node_Props.thy ===== *)
theory Raft_Node_Props
  imports Raft_Node Raft_Props
begin

text \<open>
  The Raft node: its opening releases what it acquired on every error, its admission control bounds the calls in flight
  and never loses a slot, and a call is answered with the result of its own entry.
\<close>

subsection \<open>Admission and answers\<close>

definition admitted_share :: "propose_pc \<Rightarrow> nat" where
  "admitted_share p = (if is_admitted p then 1 else 0)"

definition admitted_count :: "propose_pc list \<Rightarrow> nat" where
  "admitted_count ps = sum_list (map admitted_share ps)"

text \<open>The results of the entries of a log, applied in its batches.\<close>

fun log_results :: "('e, 's) StorageEngine \<Rightarrow> 'e dpxFSM \<Rightarrow> Log list list \<Rightarrow> ApplyResult list" where
  "log_results E f [] = []"
| "log_results E f (logs # lss) = fst (applyBatch E f logs) @ log_results E (snd (applyBatch E f logs)) lss"

lemma log_results_snoc:
  "log_results E f (lss @ [logs]) = log_results E f lss @ fst (applyBatch E (apply_batches E f lss) logs)"
  by (induction lss arbitrary: f) (simp_all add: apply_batches_def)

lemma length_log_results: "length (log_results E f lss) = length (concat lss)"
proof (induction lss arbitrary: f)
  case (Cons logs lss)
  have "length (fst (applyBatch E f logs)) = length logs"
    using length_apply_logs [of E logs Map.empty f] by (simp add: applyBatch_def split_beta prod_eq_iff)
  with Cons show ?case by simp
qed simp

definition answer_ok :: "'e raft_state \<Rightarrow> propose_pc \<Rightarrow> bool" where
  "answer_ok s p \<longleftrightarrow> (case p of Answered d r pos \<Rightarrow>
     pos < length (concat (rtLog s)) \<and> logData (concat (rtLog s) ! pos) = d \<and> rtResults s ! pos = r | _ \<Rightarrow> True)"

definition propose_inv :: "('e, 's) StorageEngine \<Rightarrow> 'e dpxFSM \<Rightarrow> 'e raft_state \<Rightarrow> bool" where
  "propose_inv E f0 s \<longleftrightarrow> rnFree (rtNode s) + admitted_count (rtCalls s) = raftInFlightLimit
     \<and> rnFSM (rtNode s) = apply_batches E f0 (rtLog s) \<and> rtResults s = log_results E f0 (rtLog s)
     \<and> (\<forall>p \<in> set (rtCalls s). answer_ok s p)
     \<and> (\<forall>i < length (rtCalls s). \<forall>j < length (rtCalls s). i \<noteq> j \<longrightarrow> answer_pos (rtCalls s ! i) \<noteq> None \<longrightarrow>
          answer_pos (rtCalls s ! i) \<noteq> answer_pos (rtCalls s ! j))"

lemma admitted_count_update:
  "i < length ps \<Longrightarrow> admitted_count (ps[i := p]) + admitted_share (ps ! i) = admitted_count ps + admitted_share p"
  unfolding admitted_count_def by (rule sum_list_update_share)

lemma admitted_count_snoc [simp]: "admitted_count (ps @ [p]) = admitted_count ps + admitted_share p"
  by (simp add: admitted_count_def)

lemma answer_ok_more:
  assumes "answer_ok s p" "rtLog s' = rtLog s @ [logs]" "rtResults s' = rtResults s @ rs"
    and "length (rtResults s) = length (concat (rtLog s))"
  shows "answer_ok s' p"
  using assms by (cases p) (auto simp: answer_ok_def nth_append)

lemma answer_ok_frame: "rtLog s' = rtLog s \<Longrightarrow> rtResults s' = rtResults s \<Longrightarrow> answer_ok s' p = answer_ok s p"
  by (simp add: answer_ok_def split: propose_pc.splits)

text \<open>A step that moves one call, without touching the log.\<close>

lemma propose_inv_move:
  assumes "propose_inv E f0 s" "i < length (rtCalls s)" "rtCalls s' = (rtCalls s)[i := p]"
    and "rtLog s' = rtLog s" "rtResults s' = rtResults s" "rnFSM (rtNode s') = rnFSM (rtNode s)"
    and "rnFree (rtNode s') + admitted_share p = rnFree (rtNode s) + admitted_share (rtCalls s ! i)"
    and "answer_ok s p" "\<forall>q \<in> set (rtCalls s). answer_pos p \<noteq> None \<longrightarrow> answer_pos q \<noteq> answer_pos p"
  shows "propose_inv E f0 s'"
proof -
  note I = assms(1) [unfolded propose_inv_def]
  have c: "rnFree (rtNode s') + admitted_count (rtCalls s') = raftInFlightLimit"
    using I assms(7) admitted_count_update [OF assms(2), of p] assms(3) by simp
  have a: "\<forall>q \<in> set (rtCalls s'). answer_ok s' q"
    using I assms(3,8) set_update_subset_insert [of "rtCalls s" i p] by (auto simp: answer_ok_frame [OF assms(4,5)])
  have "\<forall>j < length (rtCalls s'). \<forall>k < length (rtCalls s'). j \<noteq> k \<longrightarrow> answer_pos (rtCalls s' ! j) \<noteq> None \<longrightarrow>
      answer_pos (rtCalls s' ! j) \<noteq> answer_pos (rtCalls s' ! k)"
    using I assms(2,3,9) by (auto simp: nth_list_update)
  with c a I assms(4-6) show ?thesis by (simp add: propose_inv_def)
qed

lemma propose_step_inv:
  assumes "propose_step E s s'" "propose_inv E f0 s"
  shows "propose_inv E f0 s'"
  using assms
proof (induction rule: propose_step.induct)
  case (call s d)
  then show ?case
    by (auto simp: propose_inv_def admitted_share_def nth_append less_Suc_eq answer_ok_def split: propose_pc.splits)
next
  case (acquire i s d)
  then show ?case by (intro propose_inv_move [OF acquire.prems acquire(1)]) (auto simp: admitted_share_def answer_ok_def)
next
  case (refuse i s d err)
  then show ?case by (intro propose_inv_move [OF refuse.prems refuse(1)]) (auto simp: admitted_share_def answer_ok_def)
next
  case (commit s logs rs f')
  note I = commit.prems [unfolded propose_inv_def]
  have l: "length (rtResults s) = length (concat (rtLog s))" using I length_log_results by metis
  have r: "rs = fst (applyBatch E (apply_batches E f0 (rtLog s)) logs)" "f' = snd (applyBatch E (apply_batches E f0 (rtLog s)) logs)"
    using commit(1) I by simp_all
  let ?s = "s\<lparr>rtNode := (rtNode s)\<lparr>rnFSM := f'\<rparr>, rtLog := rtLog s @ [logs], rtResults := rtResults s @ rs\<rparr>"
  have "\<forall>p \<in> set (rtCalls s). answer_ok ?s p"
  proof
    fix p
    assume "p \<in> set (rtCalls s)"
    then have "answer_ok s p" using I by blast
    then show "answer_ok ?s p" by (rule answer_ok_more [OF _ _ _ l]) simp_all
  qed
  with I r show ?case by (simp add: propose_inv_def log_results_snoc apply_batches_def)
next
  case (respond i s d pos)
  then show ?case
    by (intro propose_inv_move [OF respond.prems respond(1)]) (auto simp: admitted_share_def answer_ok_def)
next
  case (fail i s d err)
  then show ?case by (intro propose_inv_move [OF fail.prems fail(1)]) (auto simp: admitted_share_def answer_ok_def)
next
  case (shut s)
  have "answer_ok (s\<lparr>rtNode := (rtNode s)\<lparr>rnSemClosed := True\<rparr>\<rparr>) p = answer_ok s p" for p
    by (rule answer_ok_frame) simp_all
  with shut show ?case by (simp add: propose_inv_def)
qed

lemma propose_run_inv:
  assumes "(propose_step E)\<^sup>*\<^sup>* s s'" "propose_inv E f0 s"
  shows "propose_inv E f0 s'"
  using assms by (induction rule: rtranclp_induct) (auto dest: propose_step_inv)

subsection \<open>Properties\<close>

text \<open>
  C31. Opening a proposer leaks nothing: whichever call fails, an error is returned and, the transport being closable,
  nothing that was opened before stays open; after a success exactly the transport, the two stores and the Raft instance
  are open, all slots are free, and shutting the node down without an error of the library closes them all.
\<close>

theorem raft_open_releases:
  assumes "raft_Open E eng policy w env = (r, held)" "transportCloser env"
  shows "case r of
      Inl err \<Rightarrow> held = []
    | Inr n \<Rightarrow> set held = {Transport, LogStore, StableStore, RaftInstance} \<and> rnFree n = raftInFlightLimit
        \<and> \<not> rnSemClosed n \<and> snd (snd (raft_Shutdown env None n held)) = []
        \<and> snd (snd (raft_Shutdown env (Some msg) n held)) = held"
  using assms
  by (auto simp: raft_Open_def raft_Shutdown_def close_transport_def Let_def split: sum.splits option.splits prod.splits)

definition env_ok :: raft_env where
  "env_ok = \<lparr>envSnapDir = None, envSnapStore = None, envResolve = None, envTransport = None, envMkdir = None,
     envLogStore = None, envStableStore = None, envNewRaft = None, transportCloser = True\<rparr>"

text \<open>The stable store cannot be opened, after the transport and the log store were.\<close>

theorem raft_open_releases_witness:
  "\<exists>err. raft_Open memory_engine (New alist_pkg) SyncNone False (env_ok\<lparr>envStableStore := Some ''locked''\<rparr>) = (Inl err, [])"
proof -
  let ?r = "raft_Open memory_engine (New alist_pkg) SyncNone False (env_ok\<lparr>envStableStore := Some ''locked''\<rparr>)"
  have "isl (fst ?r)" by code_simp
  then obtain err where e: "fst ?r = Inl err" by (auto simp: isl_def)
  then have r: "?r = (Inl err, snd ?r)" by (metis prod.collapse)
  have "transportCloser (env_ok\<lparr>envStableStore := Some ''locked''\<rparr>)" by (simp add: env_ok_def)
  from raft_open_releases [OF r this] r show ?thesis by auto
qed



end
