(* ===== verification/Direct_Pool.thy ===== *)
theory Direct_Pool
  imports Validation
begin

text \<open>
  The calls of \<open>ProposeDirect\<close> and \<open>Propose\<close> of \<open>src/conductor/direct.go\<close> at the level of their entries. An
  entry is a heap object with a result channel of capacity one; entries are recycled through a pool, and the loop puts an
  entry back as soon as it has sent the result, whether or not the caller has received it. The model has one step
  per channel and pool operation, except that draining the channel, sending the result and putting the entry back are one
  step of the loop. Entries are addresses, and any number of calls run at once.
\<close>

subsection \<open>State\<close>

text \<open>
  Where a call stands: it has its entry, it has submitted it, it is blocked on the result channel, it has returned.
\<close>

datatype call_pc =
    CallIdle
  | CallSend Proposal nat
  | CallWait Proposal nat
  | CallParked Proposal nat
  | CallRet Proposal ApplyResult
  | CallErr Proposal

record 'e pool_state =
  pxChan :: "nat \<Rightarrow> ApplyResult option"
  pxEntry :: "nat \<Rightarrow> Proposal option"
  pxPool :: "nat list"
  pxQueue :: "nat list"
  pxBatch :: "nat list"
  pxOut :: "(nat \<times> ApplyResult) list"
  pxNext :: nat
  pxCalls :: "nat \<Rightarrow> call_pc"
  pxClosed :: bool
  pxRunning :: bool
  pxProposer :: "'e directProposer"
  pxApplied :: "(Proposal \<times> ApplyResult) list"

definition pool_start :: "'e directProposer \<Rightarrow> 'e pool_state" where
  "pool_start d =
     \<lparr>pxChan = (\<lambda>a. None), pxEntry = (\<lambda>a. None), pxPool = [], pxQueue = [], pxBatch = [], pxOut = [], pxNext = 0,
      pxCalls = (\<lambda>i. CallIdle), pxClosed = False, pxRunning = True, pxProposer = d, pxApplied = []\<rparr>"

subsection \<open>Steps of a call\<close>

definition set_call :: "nat \<Rightarrow> call_pc \<Rightarrow> 'e pool_state \<Rightarrow> 'e pool_state" where
  "set_call i c s = s\<lparr>pxCalls := (pxCalls s)(i := c)\<rparr>"

text \<open>\<open>entryPool.Get\<close>: an entry of the pool, or a new one with an empty channel.\<close>

definition get_pooled :: "nat \<Rightarrow> Proposal \<Rightarrow> nat \<Rightarrow> 'e pool_state \<Rightarrow> 'e pool_state" where
  "get_pooled i p a s =
     set_call i (CallSend p a) (s\<lparr>pxPool := remove1 a (pxPool s), pxEntry := (pxEntry s)(a \<mapsto> p)\<rparr>)"

definition get_new :: "nat \<Rightarrow> Proposal \<Rightarrow> 'e pool_state \<Rightarrow> 'e pool_state" where
  "get_new i p s =
     (let a = pxNext s in
      set_call i (CallSend p a)
        (s\<lparr>pxNext := Suc a, pxChan := (pxChan s)(a := None), pxEntry := (pxEntry s)(a \<mapsto> p)\<rparr>))"

definition put_entry :: "nat \<Rightarrow> 'e pool_state \<Rightarrow> 'e pool_state" where
  "put_entry a s = s\<lparr>pxEntry := (pxEntry s)(a := None), pxPool := a # pxPool s\<rparr>"

subsection \<open>Steps of the loop\<close>

text \<open>\<open>flush\<close>: the batch is applied, then its results are sent one by one.\<close>

definition pool_flush :: "('e, 's) StorageEngine \<Rightarrow> 'e pool_state \<Rightarrow> 'e pool_state" where
  "pool_flush E s =
     (let ps = map (\<lambda>a. the (pxEntry s a)) (pxBatch s);
          (rs, d) = applyBatchDirect E (pxProposer s) ps
      in s\<lparr>pxProposer := d, pxBatch := [], pxOut := zip (pxBatch s) rs, pxApplied := pxApplied s @ zip ps rs\<rparr>)"

text \<open>The channel is drained, then the result is handed to a blocked receiver or kept in the channel.\<close>

definition send_parked :: "nat \<Rightarrow> Proposal \<Rightarrow> nat \<Rightarrow> ApplyResult \<Rightarrow> 'e pool_state \<Rightarrow> 'e pool_state" where
  "send_parked i p a r s =
     put_entry a (set_call i (CallRet p r) (s\<lparr>pxOut := tl (pxOut s), pxChan := (pxChan s)(a := None)\<rparr>))"

definition send_buffered :: "nat \<Rightarrow> ApplyResult \<Rightarrow> 'e pool_state \<Rightarrow> 'e pool_state" where
  "send_buffered a r s = put_entry a (s\<lparr>pxOut := tl (pxOut s), pxChan := (pxChan s)(a \<mapsto> r)\<rparr>)"

text \<open>
  \<open>reusable\<close> says when the pool may hand out an entry. The code has no condition: there it is always true.
\<close>

inductive pool_step ::
  "('e pool_state \<Rightarrow> nat \<Rightarrow> bool) \<Rightarrow> ('e, 's) StorageEngine \<Rightarrow> 'e pool_state \<Rightarrow> 'e pool_state \<Rightarrow> bool" for reusable E where
  rejected: "pxCalls s i = CallIdle \<Longrightarrow> pxClosed s \<Longrightarrow> pool_step reusable E s (set_call i (CallErr p) s)"
| pooled: "pxCalls s i = CallIdle \<Longrightarrow> \<not> pxClosed s \<Longrightarrow> a \<in> set (pxPool s) \<Longrightarrow> reusable s a \<Longrightarrow>
    pool_step reusable E s (get_pooled i p a s)"
| fresh: "pxCalls s i = CallIdle \<Longrightarrow> \<not> pxClosed s \<Longrightarrow> pool_step reusable E s (get_new i p s)"
| send: "pxCalls s i = CallSend p a \<Longrightarrow> length (pxQueue s) < submitBufSize \<Longrightarrow>
    pool_step reusable E s (set_call i (CallWait p a) (s\<lparr>pxQueue := pxQueue s @ [a]\<rparr>))"
| unsent: "pxCalls s i = CallSend p a \<Longrightarrow> pxClosed s \<Longrightarrow> pool_step reusable E s (set_call i (CallErr p) (put_entry a s))"
| received: "pxCalls s i = CallWait p a \<Longrightarrow> pxChan s a = Some r \<Longrightarrow>
    pool_step reusable E s (set_call i (CallRet p r) (s\<lparr>pxChan := (pxChan s)(a := None)\<rparr>))"
| park: "pxCalls s i = CallWait p a \<Longrightarrow> pxChan s a = None \<Longrightarrow> pool_step reusable E s (set_call i (CallParked p a) s)"
| abandon: "pxCalls s i = CallWait p a \<or> pxCalls s i = CallParked p a \<Longrightarrow> pxClosed s \<Longrightarrow>
    pool_step reusable E s (set_call i (CallErr p) s)"
| close: "pool_step reusable E s (s\<lparr>pxClosed := True\<rparr>)"
| take: "pxRunning s \<Longrightarrow> pxOut s = [] \<Longrightarrow> pxQueue s = a # q \<Longrightarrow> length (pxBatch s) < maxBatchSize \<Longrightarrow>
    pool_step reusable E s (s\<lparr>pxQueue := q, pxBatch := pxBatch s @ [a]\<rparr>)"
| flushed: "pxRunning s \<Longrightarrow> pxOut s = [] \<Longrightarrow> pxBatch s \<noteq> [] \<Longrightarrow> pool_step reusable E s (pool_flush E s)"
| stopped: "pxRunning s \<Longrightarrow> pxOut s = [] \<Longrightarrow> pxBatch s = [] \<Longrightarrow> pxClosed s \<Longrightarrow>
    pool_step reusable E s (s\<lparr>pxRunning := False\<rparr>)"
| hand_over: "pxOut s = (a, r) # out \<Longrightarrow> pxCalls s i = CallParked p a \<Longrightarrow> pool_step reusable E s (send_parked i p a r s)"
| buffer: "pxOut s = (a, r) # out \<Longrightarrow> \<forall>i p. pxCalls s i \<noteq> CallParked p a \<Longrightarrow>
    pool_step reusable E s (send_buffered a r s)"

text \<open>\<open>Propose\<close> decodes its argument first.\<close>

definition direct_Propose :: "bool \<Rightarrow> bytes \<Rightarrow> (unmarshal_error option) + Proposal" where
  "direct_Propose isClosed data =
     (if isClosed then Inl None
      else case Unmarshal zero_proposal data of Inl err \<Rightarrow> Inl (Some err) | Inr p \<Rightarrow> Inr p)"

end
