(* ===== verification/Direct_Pool_Props.thy ===== *)
theory Direct_Pool_Props
  imports Direct_Pool Direct_Props
begin

text \<open>
  Calls of the direct proposer and recycled entries: a run in which a call is answered with the result of another one, and
  the condition on the pool under which that cannot happen.
\<close>

lemmas pool_ops = set_call_def get_pooled_def get_new_def put_entry_def send_parked_def send_buffered_def

subsection \<open>Own results when only empty entries are reused\<close>

definition flight :: "'e pool_state \<Rightarrow> nat list" where
  "flight s = pxQueue s @ pxBatch s @ map fst (pxOut s)"

text \<open>
  A call that waits on an entry: the entry is queued with its proposal, or its result is on the way, or, if the call is
  not blocked, in the channel.
\<close>

definition waiting_ok :: "'e pool_state \<Rightarrow> bool \<Rightarrow> Proposal \<Rightarrow> nat \<Rightarrow> bool" where
  "waiting_ok s parked p a \<longleftrightarrow>
     a \<in> set (pxQueue s @ pxBatch s) \<and> pxEntry s a = Some p
     \<or> (\<exists>r. (a, r) \<in> set (pxOut s) \<and> (p, r) \<in> set (pxApplied s))
     \<or> \<not> parked \<and> a \<notin> set (flight s) \<and> (\<exists>r. pxChan s a = Some r \<and> (p, r) \<in> set (pxApplied s))"

fun call_addr :: "call_pc \<Rightarrow> nat option" where
  "call_addr (CallSend p a) = Some a" | "call_addr (CallWait p a) = Some a" | "call_addr (CallParked p a) = Some a"
| "call_addr c = None"

definition call_ok :: "'e pool_state \<Rightarrow> call_pc \<Rightarrow> bool" where
  "call_ok s c \<longleftrightarrow> (case c of
     CallSend p a \<Rightarrow> a \<notin> set (pxPool s @ flight s) \<and> pxEntry s a = Some p \<and> pxChan s a = None
   | CallWait p a \<Rightarrow> waiting_ok s False p a
   | CallParked p a \<Rightarrow> waiting_ok s True p a
   | CallRet p r \<Rightarrow> (p, r) \<in> set (pxApplied s)
   | _ \<Rightarrow> True)"

definition pool_inv :: "'e pool_state \<Rightarrow> bool" where
  "pool_inv s \<longleftrightarrow> distinct (pxPool s @ flight s) \<and> (\<forall>a \<in> set (pxPool s @ flight s). a < pxNext s)
     \<and> (\<forall>a \<in> set (flight s). pxChan s a = None)
     \<and> (\<forall>i. call_ok s (pxCalls s i)) \<and> (\<forall>i a. call_addr (pxCalls s i) = Some a \<longrightarrow> a < pxNext s)
     \<and> (\<forall>i j a. call_addr (pxCalls s i) = Some a \<longrightarrow> call_addr (pxCalls s j) = Some a \<longrightarrow> i = j)"

text \<open>Entries are reused once their result was received.\<close>

definition emptied :: "'e pool_state \<Rightarrow> nat \<Rightarrow> bool" where
  "emptied s a \<longleftrightarrow> pxChan s a = None"

lemma set_call_simps [simp]:
  "pxChan (set_call i c s) = pxChan s" "pxEntry (set_call i c s) = pxEntry s" "pxPool (set_call i c s) = pxPool s"
  "pxQueue (set_call i c s) = pxQueue s" "pxBatch (set_call i c s) = pxBatch s" "pxOut (set_call i c s) = pxOut s"
  "pxNext (set_call i c s) = pxNext s" "pxApplied (set_call i c s) = pxApplied s"
  "pxCalls (set_call i c s) = (pxCalls s)(i := c)" "flight (set_call i c s) = flight s"
  "waiting_ok (set_call i c s) b p a = waiting_ok s b p a" "call_ok (set_call i c s) c' = call_ok s c'"
  by (simp_all add: set_call_def flight_def waiting_ok_def call_ok_def cong: call_pc.case_cong)

lemma pool_invI:
  assumes "distinct (pxPool s @ flight s)" "\<And>a. a \<in> set (pxPool s @ flight s) \<Longrightarrow> a < pxNext s"
    and "\<And>a. a \<in> set (flight s) \<Longrightarrow> pxChan s a = None" "\<And>i. call_ok s (pxCalls s i)"
    and "\<And>i a. call_addr (pxCalls s i) = Some a \<Longrightarrow> a < pxNext s"
    and "\<And>i j a. call_addr (pxCalls s i) = Some a \<Longrightarrow> call_addr (pxCalls s j) = Some a \<Longrightarrow> i = j"
  shows "pool_inv s"
  unfolding pool_inv_def by (intro conjI ballI allI impI) (fact assms)+

lemma pool_invD:
  assumes "pool_inv s"
  shows "distinct (pxPool s @ flight s)" "a \<in> set (pxPool s @ flight s) \<Longrightarrow> a < pxNext s"
    "a \<in> set (flight s) \<Longrightarrow> pxChan s a = None" "call_ok s (pxCalls s i)"
    "call_addr (pxCalls s i) = Some a \<Longrightarrow> a < pxNext s"
    "call_addr (pxCalls s i) = Some a \<Longrightarrow> call_addr (pxCalls s j) = Some a \<Longrightarrow> i = j"
  using assms unfolding pool_inv_def by (elim conjE; blast)+

text \<open>A step that changes the state to \<open>s1\<close>, in which every call is still in order, and then one call.\<close>

lemma pool_inv_set_call:
  assumes "pool_inv s" "pxCalls s1 = pxCalls s" "pxNext s \<le> pxNext s1" "distinct (pxPool s1 @ flight s1)"
    and "\<And>a. a \<in> set (pxPool s1 @ flight s1) \<Longrightarrow> a < pxNext s1" "\<And>a. a \<in> set (flight s1) \<Longrightarrow> pxChan s1 a = None"
    and "\<And>j. j \<noteq> i \<Longrightarrow> call_ok s1 (pxCalls s j)" "call_ok s1 c"
    and "\<And>a. call_addr c = Some a \<Longrightarrow> a < pxNext s1" "\<And>a j. call_addr c = Some a \<Longrightarrow> j \<noteq> i \<Longrightarrow> call_addr (pxCalls s j) \<noteq> Some a"
  shows "pool_inv (set_call i c s1)"
proof (rule pool_invI)
  show "a < pxNext (set_call i c s1)" if "call_addr (pxCalls (set_call i c s1) j) = Some a" for j a
    using that assms(2,3,9) pool_invD(5) [OF assms(1), of j a] by (auto split: if_splits)
  show "j = k" if "call_addr (pxCalls (set_call i c s1) j) = Some a" "call_addr (pxCalls (set_call i c s1) k) = Some a" for j k a
    using that assms(2) assms(10) [of a] pool_invD(6) [OF assms(1), of j a k] by (auto split: if_splits)
qed (use assms(2,4-8) in simp_all)

lemma pool_inv_calls:
  assumes "pool_inv s" "call_ok s c" "call_addr c = None \<or> call_addr c = call_addr (pxCalls s i)"
  shows "pool_inv (set_call i c s)"
proof (rule pool_inv_set_call [OF assms(1) refl le_refl])
  fix a
  assume "call_addr c = Some a"
  then have c: "call_addr (pxCalls s i) = Some a" using assms(3) by auto
  show "a < pxNext s" using pool_invD(5) [OF assms(1) c] .
  show "call_addr (pxCalls s j) \<noteq> Some a" if "j \<noteq> i" for j using pool_invD(6) [OF assms(1) c] that by blast
qed (rule pool_invD [OF assms(1)] assms(2); assumption)+

text \<open>A call is not affected by a step that leaves its entry alone.\<close>

lemma call_ok_frame:
  assumes "call_ok s c" "set (pxApplied s) \<subseteq> set (pxApplied s')"
    and "\<And>a. call_addr c = Some a \<Longrightarrow>
      (a \<in> set (pxQueue s' @ pxBatch s') \<longleftrightarrow> a \<in> set (pxQueue s @ pxBatch s)) \<and> (\<forall>r. (a, r) \<in> set (pxOut s') \<longleftrightarrow> (a, r) \<in> set (pxOut s))
      \<and> pxEntry s' a = pxEntry s a \<and> pxChan s' a = pxChan s a \<and> (a \<in> set (pxPool s') \<longrightarrow> a \<in> set (pxPool s))"
  shows "call_ok s' c"
proof -
  have f: "a \<in> set (flight s') \<longleftrightarrow> a \<in> set (flight s)" if "call_addr c = Some a" for a
    using assms(3) [OF that] by (fastforce simp: flight_def)
  show ?thesis
  proof (cases c)
    case (CallSend p a)
    then show ?thesis using assms(1) assms(3) [of a] f [of a] by (auto simp: call_ok_def)
  next
    case (CallWait p a)
    then show ?thesis using assms(1,2) assms(3) [of a] f [of a] by (auto simp: call_ok_def waiting_ok_def)
  next
    case (CallParked p a)
    then show ?thesis using assms(1,2) assms(3) [of a] f [of a] by (auto simp: call_ok_def waiting_ok_def)
  qed (use assms(1,2) in \<open>auto simp: call_ok_def\<close>)
qed

text \<open>No call waits on an entry of the pool whose channel is empty.\<close>

lemma pooled_empty_unused:
  assumes "pool_inv s" "a \<in> set (pxPool s)" "pxChan s a = None"
  shows "call_addr (pxCalls s i) \<noteq> Some a"
proof
  assume c: "call_addr (pxCalls s i) = Some a"
  have "a \<notin> set (flight s)" using pool_invD(1) [OF assms(1)] assms(2) by auto
  then have "a \<notin> set (pxQueue s @ pxBatch s)" "\<And>r. (a, r) \<notin> set (pxOut s)" by (force simp: flight_def)+
  with pool_invD(4) [OF assms(1), of i] assms(2,3) c show False
    by (cases "pxCalls s i") (auto simp: call_ok_def waiting_ok_def)
qed

subsection \<open>Each step keeps the invariant\<close>

lemma pooled_keeps:
  assumes "pool_inv s" "pxCalls s i = CallIdle" "a \<in> set (pxPool s)" "emptied s a"
  shows "pool_inv (get_pooled i p a s)"
proof -
  let ?s1 = "s\<lparr>pxPool := remove1 a (pxPool s), pxEntry := (pxEntry s)(a \<mapsto> p)\<rparr>"
  note D = pool_invD [OF assms(1)]
  have e: "pxChan s a = None" using assms(4) by (simp add: emptied_def)
  note U = pooled_empty_unused [OF assms(1,3) e]
  have fl: "flight ?s1 = flight s" by (simp add: flight_def)
  show ?thesis unfolding get_pooled_def
  proof (rule pool_inv_set_call [OF assms(1)])
    show "call_ok ?s1 (pxCalls s j)" for j
      by (rule call_ok_frame [OF D(4)]) (use U in \<open>auto dest: notin_set_remove1 set_remove1_subset [THEN subsetD]\<close>)
    show "call_ok ?s1 (CallSend p a)" using D(1) assms(3) e by (auto simp: call_ok_def fl)
  qed (use D(1-3) assms(3) U fl in \<open>auto dest: set_remove1_subset [THEN subsetD]\<close>)
qed

lemma fresh_keeps:
  assumes "pool_inv s" "pxCalls s i = CallIdle"
  shows "pool_inv (get_new i p s)"
proof -
  let ?a = "pxNext s"
  let ?s1 = "s\<lparr>pxNext := Suc ?a, pxChan := (pxChan s)(?a := None), pxEntry := (pxEntry s)(?a \<mapsto> p)\<rparr>"
  note D = pool_invD [OF assms(1)]
  have fl: "flight ?s1 = flight s" by (simp add: flight_def)
  have n: "?a \<notin> set (pxPool s @ flight s)" using D(2) by blast
  show ?thesis unfolding get_new_def Let_def
  proof (rule pool_inv_set_call [OF assms(1)])
    show "call_ok ?s1 (pxCalls s j)" for j
      by (rule call_ok_frame [OF D(4)]) (use D(5) in fastforce)+
    show "call_ok ?s1 (CallSend p ?a)" using n by (auto simp: call_ok_def fl)
  qed (use D(1-3) n fl in \<open>auto dest: D(2) D(5) intro: less_SucI\<close>)
qed

text \<open>No other call is at the entry of a call.\<close>

lemma other_entry: "pool_inv s \<Longrightarrow> call_addr (pxCalls s i) = Some a \<Longrightarrow> j \<noteq> i \<Longrightarrow> call_addr (pxCalls s j) \<noteq> Some a"
  using pool_invD(6) by metis

lemma send_keeps:
  assumes "pool_inv s" "pxCalls s i = CallSend p a"
  shows "pool_inv (set_call i (CallWait p a) (s\<lparr>pxQueue := pxQueue s @ [a]\<rparr>))"
proof -
  let ?s1 = "s\<lparr>pxQueue := pxQueue s @ [a]\<rparr>"
  note D = pool_invD [OF assms(1)]
  have c: "call_addr (pxCalls s i) = Some a" using assms(2) by simp
  note O = other_entry [OF assms(1) c]
  have own: "a \<notin> set (pxPool s @ flight s)" "pxEntry s a = Some p" "pxChan s a = None"
    using D(4) [of i] assms(2) by (auto simp: call_ok_def)
  have fl: "set (flight ?s1) = insert a (set (flight s))" "distinct (flight ?s1) \<longleftrightarrow> distinct (flight s)"
    using own(1) by (auto simp: flight_def)
  show ?thesis
  proof (rule pool_inv_set_call [OF assms(1)])
    show "call_ok ?s1 (pxCalls s j)" if "j \<noteq> i" for j
      by (rule call_ok_frame [OF D(4)]) (use O [OF that] in auto)
    show "call_ok ?s1 (CallWait p a)" using own by (simp add: call_ok_def waiting_ok_def)
    show "a' < pxNext ?s1" if "a' \<in> set (pxPool ?s1 @ flight ?s1)" for a' using that D(2) [of a'] D(5) [OF c] fl by auto
  qed (use D(1,3) D(5) [OF c] own fl O in auto)
qed

lemma unsent_keeps:
  assumes "pool_inv s" "pxCalls s i = CallSend p a"
  shows "pool_inv (set_call i (CallErr p) (put_entry a s))"
proof -
  let ?s1 = "put_entry a s"
  note D = pool_invD [OF assms(1)]
  have c: "call_addr (pxCalls s i) = Some a" using assms(2) by simp
  note O = other_entry [OF assms(1) c]
  have own: "a \<notin> set (pxPool s @ flight s)" using D(4) [of i] assms(2) by (auto simp: call_ok_def)
  have fl: "flight ?s1 = flight s" by (simp add: flight_def put_entry_def)
  show ?thesis
  proof (rule pool_inv_set_call [OF assms(1)])
    show "call_ok ?s1 (pxCalls s j)" if "j \<noteq> i" for j
      by (rule call_ok_frame [OF D(4)]) (use O [OF that] in \<open>auto simp: put_entry_def\<close>)
    show "a' < pxNext ?s1" if "a' \<in> set (pxPool ?s1 @ flight ?s1)" for a'
      using that D(2) [of a'] D(5) [OF c] fl by (auto simp: put_entry_def)
    show "call_ok ?s1 (CallErr p)" by (simp add: call_ok_def)
  qed (use D(1,3) own fl in \<open>auto simp: put_entry_def\<close>)
qed

lemma received_keeps:
  assumes "pool_inv s" "pxCalls s i = CallWait p a" "pxChan s a = Some r"
  shows "pool_inv (set_call i (CallRet p r) (s\<lparr>pxChan := (pxChan s)(a := None)\<rparr>))"
proof -
  let ?s1 = "s\<lparr>pxChan := (pxChan s)(a := None)\<rparr>"
  note D = pool_invD [OF assms(1)]
  have c: "call_addr (pxCalls s i) = Some a" using assms(2) by simp
  note O = other_entry [OF assms(1) c]
  have "a \<notin> set (flight s)" using D(3) [of a] assms(3) by auto
  then have "a \<notin> set (pxQueue s @ pxBatch s)" "\<And>r. (a, r) \<notin> set (pxOut s)" by (force simp: flight_def)+
  then have own: "(p, r) \<in> set (pxApplied s)"
    using D(4) [of i] assms(2,3) by (auto simp: call_ok_def waiting_ok_def)
  have fl: "flight ?s1 = flight s" by (simp add: flight_def)
  show ?thesis
  proof (rule pool_inv_set_call [OF assms(1)])
    show "call_ok ?s1 (pxCalls s j)" if "j \<noteq> i" for j
      by (rule call_ok_frame [OF D(4)]) (use O [OF that] in auto)
    show "call_ok ?s1 (CallRet p r)" using own by (simp add: call_ok_def)
  qed (use D(1,3) fl D(2) in auto)
qed

text \<open>Steps of the loop that change no call.\<close>

lemma loop_keeps:
  assumes "pool_inv s" "pxCalls s1 = pxCalls s" "pxNext s1 = pxNext s" "distinct (pxPool s1 @ flight s1)"
    and "set (pxPool s1 @ flight s1) \<subseteq> set (pxPool s @ flight s)" "\<And>a. a \<in> set (flight s1) \<Longrightarrow> pxChan s1 a = None"
    and "\<And>j. call_ok s1 (pxCalls s j)"
  shows "pool_inv s1"
proof (rule pool_invI)
  show "a < pxNext s1" if "a \<in> set (pxPool s1 @ flight s1)" for a
    using pool_invD(2) [OF assms(1), of a] that assms(3,5) by auto
  show "i = j" if "call_addr (pxCalls s1 i) = Some a" "call_addr (pxCalls s1 j) = Some a" for i j a
    using pool_invD(6) [OF assms(1), of i a j] that assms(2) by simp
qed (use assms(2-4,6,7) pool_invD(5) [OF assms(1)] in simp_all)

lemma take_keeps:
  assumes "pool_inv s" "pxQueue s = a # q"
  shows "pool_inv (s\<lparr>pxQueue := q, pxBatch := pxBatch s @ [a]\<rparr>)"
proof -
  let ?s1 = "s\<lparr>pxQueue := q, pxBatch := pxBatch s @ [a]\<rparr>"
  note D = pool_invD [OF assms(1)]
  have fl: "set (flight ?s1) = set (flight s)" "distinct (flight ?s1) \<longleftrightarrow> distinct (flight s)"
    using assms(2) by (auto simp: flight_def)
  show ?thesis
  proof (rule loop_keeps [OF assms(1)])
    show "call_ok ?s1 (pxCalls s j)" for j
      by (rule call_ok_frame [OF D(4)]) (use assms(2) in auto)
  qed (use D(1,3) fl in auto)
qed

lemma flush_shape:
  assumes "pxOut s = []"
  obtains ps rs d where "ps = map (\<lambda>a. the (pxEntry s a)) (pxBatch s)" "length rs = length (pxBatch s)"
    and "pool_flush E s = s\<lparr>pxProposer := d, pxBatch := [], pxOut := zip (pxBatch s) rs, pxApplied := pxApplied s @ zip ps rs\<rparr>"
    and "flight (pool_flush E s) = flight s"
proof -
  let ?ps = "map (\<lambda>a. the (pxEntry s a)) (pxBatch s)"
  obtain rs d where R: "applyBatchDirect E (pxProposer s) ?ps = (rs, d)" by (cases "applyBatchDirect E (pxProposer s) ?ps")
  show thesis using that [OF refl, of rs d] length_results [OF R] assms by (simp add: pool_flush_def R flight_def)
qed

lemma flush_waiting:
  assumes "waiting_ok s b p a" "pxOut s = []"
  shows "waiting_ok (pool_flush E s) b p a"
proof -
  obtain ps rs d where F: "ps = map (\<lambda>a. the (pxEntry s a)) (pxBatch s)" "length rs = length (pxBatch s)"
    "pool_flush E s = s\<lparr>pxProposer := d, pxBatch := [], pxOut := zip (pxBatch s) rs, pxApplied := pxApplied s @ zip ps rs\<rparr>"
    "flight (pool_flush E s) = flight s" by (rule flush_shape [OF assms(2)])
  show ?thesis
  proof (cases "a \<in> set (pxBatch s) \<and> pxEntry s a = Some p")
    case True
    then obtain k where k: "k < length (pxBatch s)" "pxBatch s ! k = a" by (auto simp: in_set_conv_nth)
    have "(a, rs ! k) \<in> set (zip (pxBatch s) rs)" "(p, rs ! k) \<in> set (zip ps rs)"
      using k F(1,2) True by (auto simp: in_set_conv_nth intro!: exI [of _ k])
    then show ?thesis by (auto simp: waiting_ok_def F(3))
  next
    case False
    then show ?thesis using assms F(4) by (auto simp: waiting_ok_def F(3))
  qed
qed

lemma flushed_keeps:
  assumes "pool_inv s" "pxOut s = []"
  shows "pool_inv (pool_flush E s)"
proof -
  obtain ps rs d where F: "ps = map (\<lambda>a. the (pxEntry s a)) (pxBatch s)" "length rs = length (pxBatch s)"
    "pool_flush E s = s\<lparr>pxProposer := d, pxBatch := [], pxOut := zip (pxBatch s) rs, pxApplied := pxApplied s @ zip ps rs\<rparr>"
    "flight (pool_flush E s) = flight s" by (rule flush_shape [OF assms(2)])
  have P: "pxPool (pool_flush E s) = pxPool s" "pxEntry (pool_flush E s) = pxEntry s" "pxChan (pool_flush E s) = pxChan s"
    "pxCalls (pool_flush E s) = pxCalls s" "pxNext (pool_flush E s) = pxNext s" "set (pxApplied s) \<subseteq> set (pxApplied (pool_flush E s))"
    by (simp_all add: F(3))
  note D = pool_invD [OF assms(1)]
  show ?thesis
  proof (rule loop_keeps [OF assms(1) P(4,5)])
    show "call_ok (pool_flush E s) (pxCalls s j)" for j
      using D(4) [of j] flush_waiting [OF _ assms(2), of _ _ _ E] F(4) P by (cases "pxCalls s j") (auto simp: call_ok_def)
  qed (use D(1,3) F(4) P in simp_all)
qed

text \<open>The result a waiting call gets is its own.\<close>

lemma delivered_own:
  assumes "pool_inv s" "pxOut s = (a, r) # out" "waiting_ok s b p a"
  shows "(p, r) \<in> set (pxApplied s)"
proof -
  have d: "distinct (pxQueue s @ pxBatch s @ a # map fst out)" using pool_invD(1) [OF assms(1)] assms(2) by (simp add: flight_def)
  have "r' = r" if "(a, r') \<in> set (pxOut s)" for r'
  proof -
    have "(a, r') \<notin> set out" using d by (force simp: image_iff)
    then show ?thesis using that assms(2) by auto
  qed
  then show ?thesis using assms(2,3) d by (auto simp: waiting_ok_def flight_def)
qed

lemma tl_flight:
  assumes "pool_inv s" "pxOut s = (a, r) # out"
  shows "distinct (a # pxPool s @ pxQueue s @ pxBatch s @ map fst out)" "set (flight s) = insert a (set (pxQueue s @ pxBatch s @ map fst out))"
    "(a, r') \<notin> set out" "a < pxNext s"
  using pool_invD(1) [OF assms(1)] pool_invD(2) [OF assms(1), of a] assms(2) by (auto simp: flight_def image_iff dest: bspec [of _ _ "(a, r')"])

lemma hand_over_keeps:
  assumes "pool_inv s" "pxOut s = (a, r) # out" "pxCalls s i = CallParked p a"
  shows "pool_inv (send_parked i p a r s)"
proof -
  let ?s1 = "put_entry a (s\<lparr>pxOut := tl (pxOut s), pxChan := (pxChan s)(a := None)\<rparr>)"
  note D = pool_invD [OF assms(1)] and T = tl_flight [OF assms(1,2)]
  have c: "call_addr (pxCalls s i) = Some a" using assms(3) by simp
  note O = other_entry [OF assms(1) c]
  have own: "(p, r) \<in> set (pxApplied s)"
    using delivered_own [OF assms(1,2)] D(4) [of i] assms(3) by (simp add: call_ok_def)
  have fl: "flight ?s1 = pxQueue s @ pxBatch s @ map fst out" using assms(2) by (simp add: flight_def put_entry_def)
  have "pool_inv (set_call i (CallRet p r) ?s1)"
  proof (rule pool_inv_set_call [OF assms(1)])
    show "call_ok ?s1 (pxCalls s j)" if "j \<noteq> i" for j
      by (rule call_ok_frame [OF D(4)]) (use O [OF that] assms(2) in \<open>auto simp: put_entry_def\<close>)
    show "call_ok ?s1 (CallRet p r)" using own by (simp add: call_ok_def put_entry_def)
    show "a' < pxNext ?s1" if "a' \<in> set (pxPool ?s1 @ flight ?s1)" for a'
      using that D(2) [of a'] T(2,4) unfolding fl by (auto simp: put_entry_def)
    show "pxChan ?s1 a' = None" if "a' \<in> set (flight ?s1)" for a'
      using that D(3) [of a'] T(2) unfolding fl by (auto simp: put_entry_def)
  qed (use T(1) fl in \<open>auto simp: put_entry_def\<close>)
  moreover have "send_parked i p a r s = set_call i (CallRet p r) ?s1"
    by (cases s) (simp add: send_parked_def put_entry_def set_call_def)
  ultimately show ?thesis by simp
qed

lemma buffer_keeps:
  assumes "pool_inv s" "pxOut s = (a, r) # out" "\<forall>i p. pxCalls s i \<noteq> CallParked p a"
  shows "pool_inv (send_buffered a r s)"
proof -
  let ?s1 = "send_buffered a r s"
  note D = pool_invD [OF assms(1)] and T = tl_flight [OF assms(1,2)]
  have fl: "flight ?s1 = pxQueue s @ pxBatch s @ map fst out" using assms(2) by (simp add: flight_def send_buffered_def put_entry_def)
  have P: "pxPool ?s1 = a # pxPool s" "pxChan ?s1 = (pxChan s)(a \<mapsto> r)" "pxCalls ?s1 = pxCalls s" "pxNext ?s1 = pxNext s"
    "pxApplied ?s1 = pxApplied s" by (simp_all add: send_buffered_def put_entry_def)
  show ?thesis
  proof (rule loop_keeps [OF assms(1) P(3,4)])
    show "call_ok ?s1 (pxCalls s j)" for j
    proof (cases "call_addr (pxCalls s j) = Some a")
      case True
      then obtain p where p: "pxCalls s j = CallWait p a"
        using assms(3) D(4) [of j] T(2) by (cases "pxCalls s j") (auto simp: call_ok_def)
      then have "(p, r) \<in> set (pxApplied s)" using delivered_own [OF assms(1,2)] D(4) [of j] by (simp add: call_ok_def)
      then show ?thesis using T(1) by (simp add: p call_ok_def waiting_ok_def P fl)
    next
      case False
      show ?thesis
        by (rule call_ok_frame [OF D(4)]) (use False assms(2) in \<open>auto simp: send_buffered_def put_entry_def\<close>)
    qed
    show "pxChan ?s1 a' = None" if "a' \<in> set (flight ?s1)" for a'
      using that D(3) [of a'] T(1,2) unfolding fl by (auto simp: P)
  qed (use T(1,2) in \<open>auto simp: P fl\<close>)
qed

lemma flags_keep:
  assumes "pool_inv s"
  shows "pool_inv (s\<lparr>pxClosed := b\<rparr>)" "pool_inv (s\<lparr>pxRunning := b\<rparr>)"
proof -
  have c: "call_ok (s\<lparr>pxClosed := b\<rparr>) c = call_ok s c" "call_ok (s\<lparr>pxRunning := b\<rparr>) c = call_ok s c" for c
    by (simp_all add: call_ok_def waiting_ok_def flight_def cong: call_pc.case_cong)
  show "pool_inv (s\<lparr>pxClosed := b\<rparr>)"
    by (rule loop_keeps [OF assms]) (use pool_invD(1,3,4) [OF assms] in \<open>auto simp: flight_def c\<close>)
  show "pool_inv (s\<lparr>pxRunning := b\<rparr>)"
    by (rule loop_keeps [OF assms]) (use pool_invD(1,3,4) [OF assms] in \<open>auto simp: flight_def c\<close>)
qed

lemma emptied_step_keeps:
  assumes "pool_step emptied E s s'" "pool_inv s"
  shows "pool_inv s'"
  using assms(1)
proof cases
  case (rejected i p)
  then show ?thesis using pool_inv_calls [OF assms(2)] by (simp add: call_ok_def)
next
  case (park i p a)
  have "waiting_ok s False p a" using pool_invD(4) [OF assms(2), of i] park(2) by (simp add: call_ok_def)
  then have "call_ok s (CallParked p a)" using park(3) by (simp add: call_ok_def waiting_ok_def)
  then show ?thesis using pool_inv_calls [OF assms(2), of "CallParked p a" i] park(1,2) by simp
next
  case (abandon i p a)
  then show ?thesis using pool_inv_calls [OF assms(2)] by (simp add: call_ok_def)
next
  case (pooled i a p)
  show ?thesis unfolding pooled(1) by (rule pooled_keeps [OF assms(2) pooled(2,4,5)])
next
  case (fresh i p)
  show ?thesis unfolding fresh(1) by (rule fresh_keeps [OF assms(2) fresh(2)])
next
  case (send i p a)
  show ?thesis unfolding send(1) by (rule send_keeps [OF assms(2) send(2)])
next
  case (unsent i p a)
  show ?thesis unfolding unsent(1) by (rule unsent_keeps [OF assms(2) unsent(2)])
next
  case (received i p a r)
  show ?thesis unfolding received(1) by (rule received_keeps [OF assms(2) received(2,3)])
next
  case (take a q)
  show ?thesis unfolding take(1) by (rule take_keeps [OF assms(2) take(4)])
next
  case flushed
  show ?thesis unfolding flushed(1) by (rule flushed_keeps [OF assms(2) flushed(3)])
next
  case (hand_over a r out i p)
  show ?thesis unfolding hand_over(1) by (rule hand_over_keeps [OF assms(2) hand_over(2,3)])
next
  case (buffer a r out)
  show ?thesis unfolding buffer(1) by (rule buffer_keeps [OF assms(2) buffer(2,3)])
qed (simp_all add: flags_keep [OF assms(2)])

lemma pool_start_inv: "pool_inv (pool_start d)"
  by (rule pool_invI) (simp_all add: pool_start_def flight_def call_ok_def)

lemma emptied_run_inv: "(pool_step emptied E)\<^sup>*\<^sup>* (pool_start d) s \<Longrightarrow> pool_inv s"
  by (induction rule: rtranclp_induct) (auto intro: pool_start_inv emptied_step_keeps)

subsection \<open>A run of the code\<close>

text \<open>Two calls: the second one read key 1 before the first one wrote it.\<close>

definition pool_a :: Proposal where
  "pool_a = op_p [] OpSet [1] [7]"

definition pool_b :: Proposal where
  "pool_b = op_p [read_e [1] 0 False] OpSet [2] [8]"

definition proposer_a :: "data_map Engine directProposer" where
  "proposer_a = snd (applyBatchDirect memory_engine direct0 [pool_a])"

definition proposer_b :: "data_map Engine directProposer" where
  "proposer_b = snd (applyBatchDirect memory_engine proposer_a [pool_b])"

lemma pool_results:
  "applyBatchDirect memory_engine direct0 [pool_a] = ([result_ok], proposer_a)"
  "applyBatchDirect memory_engine proposer_a [pool_b] = ([result_conflict], proposer_b)"
proof -
  have "fst (applyBatchDirect memory_engine direct0 [pool_a]) = [result_ok]" by code_simp
  then show "applyBatchDirect memory_engine direct0 [pool_a] = ([result_ok], proposer_a)" by (simp add: prod_eq_iff proposer_a_def)
  have "fst (applyBatchDirect memory_engine proposer_a [pool_b]) = [result_conflict]" by code_simp
  then show "applyBatchDirect memory_engine proposer_a [pool_b] = ([result_conflict], proposer_b)" by (simp add: prod_eq_iff proposer_b_def)
qed

text \<open>The loop takes and applies one submitted entry and keeps its result in the channel.\<close>

lemma pool_round:
  assumes "pxRunning s" "pxOut s = []" "pxQueue s = [a]" "pxBatch s = []" "pxEntry s a = Some p"
    and "\<forall>i p. pxCalls s i \<noteq> CallParked p a" "applyBatchDirect E (pxProposer s) [p] = ([r], d)"
  shows "(pool_step R E)\<^sup>*\<^sup>* s
    (s\<lparr>pxQueue := [], pxProposer := d, pxApplied := pxApplied s @ [(p, r)], pxChan := (pxChan s)(a \<mapsto> r), pxEntry := (pxEntry s)(a := None),
       pxPool := a # pxPool s\<rparr>)"
proof -
  let ?s1 = "s\<lparr>pxQueue := [], pxBatch := [a]\<rparr>"
  let ?s2 = "s\<lparr>pxQueue := [], pxBatch := [], pxProposer := d, pxOut := [(a, r)], pxApplied := pxApplied s @ [(p, r)]\<rparr>"
  have "pool_step R E s ?s1" using pool_step.take [of s a "[]" R E] assms(1-4) by (simp add: maxBatchSize_def)
  moreover have "pool_step R E ?s1 (pool_flush E ?s1)" by (rule pool_step.flushed) (use assms(1,2) in simp_all)
  moreover have "pool_flush E ?s1 = ?s2" using assms(5,7) by (cases s) (simp add: pool_flush_def)
  moreover have "pool_step R E ?s2 (send_buffered a r ?s2)" by (rule pool_step.buffer) (use assms(6) in simp_all)
  moreover have "send_buffered a r ?s2 = s\<lparr>pxQueue := [], pxProposer := d, pxApplied := pxApplied s @ [(p, r)],
      pxChan := (pxChan s)(a \<mapsto> r), pxEntry := (pxEntry s)(a := None), pxPool := a # pxPool s\<rparr>"
    using assms(2,4) by (cases s) (simp add: send_buffered_def put_entry_def)
  ultimately show ?thesis by (metis (no_types, lifting) rtranclp.simps)
qed

text \<open>The first call has submitted its proposal, and its result is in the channel of the entry, which is back in the pool.\<close>

definition pool_pending :: "data_map Engine pool_state" where
  "pool_pending = (pool_start direct0)\<lparr>pxNext := 1, pxCalls := (\<lambda>i. CallIdle)(0 := CallWait pool_a 0), pxProposer := proposer_a,
     pxApplied := [(pool_a, result_ok)], pxChan := (\<lambda>a. None)(0 \<mapsto> result_ok), pxPool := [0]\<rparr>"

lemma pool_pending_run: "(pool_step R memory_engine)\<^sup>*\<^sup>* (pool_start direct0) pool_pending"
proof -
  let ?s0 = "pool_start direct0 :: data_map Engine pool_state"
  let ?s1 = "get_new 0 pool_a ?s0"
  let ?s2 = "set_call 0 (CallWait pool_a 0) (?s1\<lparr>pxQueue := [0]\<rparr>)"
  have "pool_step R memory_engine ?s0 ?s1" by (rule pool_step.fresh) (simp_all add: pool_start_def)
  moreover have "pool_step R memory_engine ?s1 ?s2"
    using pool_step.send [of ?s1 0 pool_a 0 R memory_engine] by (simp add: pool_start_def get_new_def set_call_def submitBufSize_def)
  moreover have "(pool_step R memory_engine)\<^sup>*\<^sup>* ?s2 pool_pending"
    using pool_round [of ?s2 0 pool_a memory_engine result_ok proposer_a R] pool_results(1)
    by (simp add: pool_pending_def pool_start_def get_new_def set_call_def)
  ultimately show ?thesis by (meson converse_rtranclp_into_rtranclp)
qed

text \<open>
  C40. Two calls of \<open>ProposeDirect\<close> can swap their answers: the loop puts an entry back into the pool when the result is in
  its channel, so a second call can get the entry, and receive that result, before the first one has read it. The
  first call's proposal is committed and it is told there was a conflict; the second one's is refused and it is told
  that it is committed.
\<close>

theorem pooled_entry_swaps_results:
  "\<exists>s. (pool_step (\<lambda>_ _. True) memory_engine)\<^sup>*\<^sup>* (pool_start direct0) s
     \<and> pxApplied s = [(pool_a, result_ok), (pool_b, result_conflict)]
     \<and> pxCalls s 0 = CallRet pool_a result_conflict \<and> pxCalls s 1 = CallRet pool_b result_ok"
proof -
  let ?E = memory_engine and ?R = "\<lambda>_ _. True"
  define s1 where "s1 = get_pooled 1 pool_b 0 pool_pending"
  define s2 where "s2 = set_call 1 (CallWait pool_b 0) (s1\<lparr>pxQueue := pxQueue s1 @ [0]\<rparr>)"
  define s3 where "s3 = set_call 1 (CallRet pool_b result_ok) (s2\<lparr>pxChan := (pxChan s2)(0 := None)\<rparr>)"
  define s4 where "s4 = s3\<lparr>pxQueue := [], pxProposer := proposer_b, pxApplied := pxApplied s3 @ [(pool_b, result_conflict)],
    pxChan := (pxChan s3)(0 \<mapsto> result_conflict), pxEntry := (pxEntry s3)(0 := None), pxPool := 0 # pxPool s3\<rparr>"
  define s5 where "s5 = set_call 0 (CallRet pool_a result_conflict) (s4\<lparr>pxChan := (pxChan s4)(0 := None)\<rparr>)"
  note defs = s1_def s2_def s3_def s4_def s5_def pool_pending_def pool_start_def get_pooled_def set_call_def
  have 1: "pool_step ?R ?E pool_pending s1" unfolding s1_def by (rule pool_step.pooled) (simp_all add: defs)
  have 2: "pool_step ?R ?E s1 s2" unfolding s2_def by (rule pool_step.send) (simp_all add: defs submitBufSize_def)
  have 3: "pool_step ?R ?E s2 s3" unfolding s3_def by (rule pool_step.received) (simp_all add: defs)
  have 4: "(pool_step ?R ?E)\<^sup>*\<^sup>* s3 s4" unfolding s4_def by (rule pool_round) (simp_all add: defs pool_results(2))
  have 5: "pool_step ?R ?E s4 s5" unfolding s5_def by (rule pool_step.received) (simp_all add: defs)
  have "(pool_step ?R ?E)\<^sup>*\<^sup>* (pool_start direct0) s5"
    by (rule rtranclp.rtrancl_into_rtrancl [OF rtranclp_trans [OF rtranclp.rtrancl_into_rtrancl [OF rtranclp.rtrancl_into_rtrancl [OF
          rtranclp.rtrancl_into_rtrancl [OF pool_pending_run 1] 2] 3] 4] 5])
  moreover have "pxApplied s5 = [(pool_a, result_ok), (pool_b, result_conflict)]"
    "pxCalls s5 0 = CallRet pool_a result_conflict" "pxCalls s5 1 = CallRet pool_b result_ok" by (simp_all add: defs)
  ultimately show ?thesis by blast
qed

text \<open>
  C15. In the runs of \<open>ProposeDirect\<close> in which the pool hands out only entries whose channel is empty, a call that returns a
  result returns what the loop recorded for its own proposal, for any number of calls, in any order with the loop,
  and with a shutdown at any moment.
\<close>

theorem emptied_entries_own_results:
  assumes "(pool_step emptied E)\<^sup>*\<^sup>* (pool_start d) s" "pxCalls s i = CallRet p r"
  shows "(p, r) \<in> set (pxApplied s)"
  using pool_invD(4) [OF emptied_run_inv [OF assms(1)], of i] assms(2) by (simp add: call_ok_def)

theorem emptied_entries_own_results_witness:
  "\<exists>s. (pool_step emptied memory_engine)\<^sup>*\<^sup>* (pool_start direct0) s \<and> pxCalls s 0 = CallRet pool_a result_ok
     \<and> (pool_a, result_ok) \<in> set (pxApplied s)"
proof -
  let ?s = "set_call 0 (CallRet pool_a result_ok) (pool_pending\<lparr>pxChan := (pxChan pool_pending)(0 := None)\<rparr>)"
  have "pool_step emptied memory_engine pool_pending ?s"
    by (rule pool_step.received) (simp_all add: pool_pending_def pool_start_def)
  with pool_pending_run have r: "(pool_step emptied memory_engine)\<^sup>*\<^sup>* (pool_start direct0) ?s" by (rule rtranclp.rtrancl_into_rtrancl)
  have c: "pxCalls ?s 0 = CallRet pool_a result_ok" by simp
  show ?thesis using emptied_entries_own_results [OF r c] r c by blast
qed

end
