(* ===== verification/Daemon.thy ===== *)
theory Daemon
  imports Node Pebble_Claims
begin

text \<open>
  The command \<open>dpxd\<close> of \<open>src/cmd/dpxd/main.go\<close>: its arguments, with the parser of Go's package \<open>flag\<close> for its two
  flags, and the backup of a store on the Pebble engine through a node. A directory is what the library stores
  in it; the result is the destination and what was written there. Printing is left out.
\<close>

subsection \<open>Arguments\<close>

datatype dpxd_error =
    NoCommand
  | UnknownCommand string
  | FlagHelp
  | FlagSyntax string
  | FlagUndefined string
  | FlagNoValue string
  | BackupUsage
  | BackupOpenEngine lib_error
  | BackupOpenProposer fsm_error
  | BackupFailed dpx_error

record backup_flags =
  flagData :: string
  flagDest :: string

definition flag_known :: "string \<Rightarrow> bool" where
  "flag_known name \<longleftrightarrow> name = ''data'' \<or> name = ''dest''"

definition set_flag :: "string \<Rightarrow> string \<Rightarrow> backup_flags \<Rightarrow> dpxd_error + backup_flags" where
  "set_flag name val fs =
     (if name = ''data'' then Inr (fs\<lparr>flagData := val\<rparr>)
      else if name = ''dest'' then Inr (fs\<lparr>flagDest := val\<rparr>)
      else if name = ''help'' \<or> name = ''h'' then Inl FlagHelp
      else Inl (FlagUndefined name))"

text \<open>\<open>FlagSet.Parse\<close>: it stops at the first argument that is not a flag and behind \<open>--\<close>.\<close>

fun parse_flags :: "string list \<Rightarrow> backup_flags \<Rightarrow> dpxd_error + backup_flags" where
  "parse_flags [] fs = Inr fs"
| "parse_flags (s # args) fs =
     (if length s < 2 \<or> s ! 0 \<noteq> CHR ''-'' \<or> s = ''--'' then Inr fs
      else
        let name0 = (if s ! 1 = CHR ''-'' then drop 2 s else drop 1 s)
        in if name0 = [] \<or> hd name0 = CHR ''-'' \<or> hd name0 = CHR ''='' then Inl (FlagSyntax s)
           else
             let name = takeWhile (\<lambda>c. c \<noteq> CHR ''='') name0; rest = dropWhile (\<lambda>c. c \<noteq> CHR ''='') name0
             in if rest \<noteq> [] \<or> \<not> flag_known name
                then (case set_flag name (tl rest) fs of Inl err \<Rightarrow> Inl err | Inr fs1 \<Rightarrow> parse_flags args fs1)
                else case args of
                       [] \<Rightarrow> Inl (FlagNoValue name)
                     | v # args1 \<Rightarrow> (case set_flag name v fs of Inl err \<Rightarrow> Inl err | Inr fs1 \<Rightarrow> parse_flags args1 fs1))"

subsection \<open>The backup\<close>

text \<open>\<open>Open\<close> of \<open>src/dpx.go\<close> with a Pebble engine and the configuration of the command.\<close>

definition backup_config :: Config where
  "backup_config = \<lparr>NodeID = [], cfgSyncPolicy = SyncBatch, cfgPeers = [],
     cfgBatch = \<lparr>MaxEntries = 0, MaxBytes = 0, MinAge = 0, MaxAge = 0, EMAAlpha = 0, bcK = 0\<rparr>,
     cfgRetry = \<lparr>MaxAttempts = 0, BaseDelay = 0, MaxDelay = 0, Multiplier = 0\<rparr>, ShutdownTimeout = 0\<rparr>"

definition open_pebble_node ::
  "('db, 'sn, 'it, 'dir) pebble_pkg \<Rightarrow> Config \<Rightarrow> 'dir \<Rightarrow> dpxd_error + ('db, 'sn, 'it, 'dir) pebbleEngine Node" where
  "open_pebble_node P cfg dir =
     (let cfg' = applyDefaults cfg
      in case pebble_Open P dir of
           Inl err \<Rightarrow> Inl (BackupOpenEngine err)
         | Inr e \<Rightarrow>
             (case newDirectProposer pebble_engine e (cfgSyncPolicy cfg') True of
                Inl err \<Rightarrow> Inl (BackupOpenProposer err)
              | Inr d \<Rightarrow> Inr \<lparr>nodeProposer = d, nodeBatcher = newBatcher (cfgBatch cfg'), nodeWatchers = newWatcherMap,
                  nodeClosed = False, seqCounter = 0, TransactionsTotal = 0, ConflictExhausted = 0, BackupTotal = 0\<rparr>))"

definition pebble_checkpoint ::
  "('db, 'sn, 'it, 'dir) pebbleEngine \<Rightarrow> (engine_error + 'dir) \<times> ('db, 'sn, 'it, 'dir) pebbleEngine" where
  "pebble_checkpoint e =
     (case pebble_CreateCheckpoint e of (Inl err, e1) \<Rightarrow> (Inl (lib_raw err), e1) | (Inr dir, e1) \<Rightarrow> (Inr dir, e1))"

definition runBackup ::
  "('db, 'sn, 'it, 'dir) pebble_pkg \<Rightarrow> (string \<Rightarrow> 'dir) \<Rightarrow> string list \<Rightarrow> dpxd_error + (string \<times> 'dir)" where
  "runBackup P disk args =
     (case parse_flags args \<lparr>flagData = [], flagDest = []\<rparr> of
        Inl err \<Rightarrow> Inl err
      | Inr fs \<Rightarrow>
          if flagData fs = [] \<or> flagDest fs = [] then Inl BackupUsage
          else case open_pebble_node P backup_config (disk (flagData fs)) of
                 Inl err \<Rightarrow> Inl err
               | Inr n \<Rightarrow>
                   (case fst (Backup pebble_engine pebble_checkpoint n) of
                      Inl err \<Rightarrow> Inl (BackupFailed err) | Inr dir \<Rightarrow> Inr (flagDest fs, dir)))"

definition dpxd_main ::
  "('db, 'sn, 'it, 'dir) pebble_pkg \<Rightarrow> (string \<Rightarrow> 'dir) \<Rightarrow> string list \<Rightarrow> dpxd_error + (string \<times> 'dir)" where
  "dpxd_main P disk args =
     (case args of
        [] \<Rightarrow> Inl NoCommand
      | cmd # rest \<Rightarrow> if cmd = ''backup'' then runBackup P disk rest else Inl (UnknownCommand cmd))"

subsection \<open>Properties\<close>

text \<open>Both spellings of a flag, in both orders.\<close>

lemma parse_flags_forms:
  "parse_flags [''-data'', a, ''--dest'', b] fs = Inr (fs\<lparr>flagData := a, flagDest := b\<rparr>)"
  "parse_flags [''--dest='' @ b, ''-data='' @ a] fs = Inr (fs\<lparr>flagData := a, flagDest := b\<rparr>)"
  by (simp_all add: Let_def flag_known_def set_flag_def)

lemma dpxd_main_steps:
  assumes "dpxd_main P disk args = Inr (dest, cp)"
  obtains rest fs e d e1 e2 where "args = ''backup'' # rest" "parse_flags rest \<lparr>flagData = [], flagDest = []\<rparr> = Inr fs"
    "flagData fs \<noteq> []" "dest = flagDest fs" "dest \<noteq> []" "pebble_Open P (disk (flagData fs)) = Inr e"
    "newDirectProposer pebble_engine e SyncBatch True = Inr d" "pebble_Sync e = (None, e1)"
    "pebble_CreateCheckpoint e1 = (Inr cp, e2)"
proof -
  from assms obtain rest fs n where a: "args = ''backup'' # rest" "parse_flags rest \<lparr>flagData = [], flagDest = []\<rparr> = Inr fs"
    "flagData fs \<noteq> []" "dest = flagDest fs" "dest \<noteq> []" "open_pebble_node P backup_config (disk (flagData fs)) = Inr n"
    "fst (Backup pebble_engine pebble_checkpoint n) = Inr cp"
    by (auto simp: dpxd_main_def runBackup_def split: list.splits if_splits sum.splits)
  from a(6) obtain e d where o: "pebble_Open P (disk (flagData fs)) = Inr e"
    "newDirectProposer pebble_engine e SyncBatch True = Inr d" "nodeProposer n = d" "\<not> nodeClosed n"
    by (auto simp: open_pebble_node_def applyDefaults_def backup_config_def Let_def split: sum.splits)
  have "engine (fsm d) = e" by (rule newDirectProposer_fields(1) [OF o(2)])
  with a(7) o(3,4) obtain e1 e2 where "pebble_Sync e = (None, e1)" "pebble_CreateCheckpoint e1 = (Inr cp, e2)"
    by (auto simp: Backup_def pebble_checkpoint_def pebble_engine_def split: prod.splits option.splits sum.splits)
  with that a(1-5) o(1,2) show thesis by blast
qed



end
