(* ===== verification/MVCC_Life.thy ===== *)
theory MVCC_Life
  imports MVCC_Claims
begin

text \<open>
  The life of a multi-version engine: the background compaction of \<open>src/engine/memory/mvcc.go\<close> (\<open>compactLoop\<close>) and the
  methods \<open>Open\<close> and \<open>Close\<close> of the engine, which share the channels \<open>compactStop\<close> and \<open>compactDone\<close>. The goroutine, the
  calls of \<open>Close\<close> and the other operations run interleaved; closing a closed channel is a panic, the value \<open>None\<close>.
\<close>

subsection \<open>The goroutine and the channels\<close>

text \<open>Where a call of \<open>Close\<close> stands: before closing the channel, waiting for the goroutine, returned.\<close>

datatype close_pc = CloseCalled | CloseWaits | CloseReturned

record mvccLife =
  lifeEngine :: MVCCEngine
  compactStop :: bool
  compactDone :: bool
  looping :: bool
  closers :: "close_pc list"

definition newMVCCEngine :: mvccLife where
  "newMVCCEngine = \<lparr>lifeEngine = NewMVCC, compactStop = False, compactDone = False, looping = True, closers = []\<rparr>"

text \<open>The two cases of the loop's \<open>select\<close>; its deferred call closes \<open>compactDone\<close>.\<close>

definition loop_tick :: "mvccLife \<Rightarrow> mvccLife" where
  "loop_tick s = s\<lparr>lifeEngine := snd (Compact (lifeEngine s))\<rparr>"

definition loop_stop :: "mvccLife \<Rightarrow> mvccLife option" where
  "loop_stop s = (if compactDone s then None else Some (s\<lparr>looping := False, compactDone := True\<rparr>))"

definition close_stop :: "nat \<Rightarrow> mvccLife \<Rightarrow> mvccLife option" where
  "close_stop i s =
     (if compactStop s then None else Some (s\<lparr>compactStop := True, closers := (closers s)[i := CloseWaits]\<rparr>))"

definition life_Open :: "bytes option \<Rightarrow> mvccLife \<Rightarrow> dump_error + mvccLife" where
  "life_Open file s = (case mvcc_Open (lifeEngine s) file of Inl err \<Rightarrow> Inl err | Inr e \<Rightarrow> Inr (s\<lparr>lifeEngine := e\<rparr>))"

inductive life_step :: "mvccLife \<Rightarrow> mvccLife option \<Rightarrow> bool" where
  l_oper: "mvcc_step (lifeEngine s) e \<Longrightarrow> life_step s (Some (s\<lparr>lifeEngine := e\<rparr>))"
| l_open: "life_Open file s = Inr s' \<Longrightarrow> life_step s (Some s')"
| l_tick: "looping s \<Longrightarrow> life_step s (Some (loop_tick s))"
| l_stop: "looping s \<Longrightarrow> compactStop s \<Longrightarrow> life_step s (loop_stop s)"
| l_close: "life_step s (Some (s\<lparr>closers := closers s @ [CloseCalled]\<rparr>))"
| l_signal: "i < length (closers s) \<Longrightarrow> closers s ! i = CloseCalled \<Longrightarrow> life_step s (close_stop i s)"
| l_return: "i < length (closers s) \<Longrightarrow> closers s ! i = CloseWaits \<Longrightarrow> compactDone s \<Longrightarrow>
    life_step s (Some (s\<lparr>closers := (closers s)[i := CloseReturned]\<rparr>))"

inductive life_reach :: "mvccLife \<Rightarrow> bool" where
  l_init: "life_reach newMVCCEngine"
| l_next: "life_reach s \<Longrightarrow> life_step s (Some s') \<Longrightarrow> life_reach s'"

text \<open>What can follow a state without a panic.\<close>

definition life_follows :: "mvccLife \<Rightarrow> mvccLife \<Rightarrow> bool" where
  "life_follows = (\<lambda>s s'. life_step s (Some s'))\<^sup>*\<^sup>*"

lemma life_follows_refl: "life_follows s s"
  by (simp add: life_follows_def)

lemma life_follows_step: "life_follows s s1 \<Longrightarrow> life_step s1 (Some s2) \<Longrightarrow> life_follows s s2"
  unfolding life_follows_def by (rule rtranclp.rtrancl_into_rtrancl)

subsection \<open>Invariant\<close>

text \<open>The calls of \<open>Close\<close> that got past the channel.\<close>

definition passed :: "mvccLife \<Rightarrow> close_pc list" where
  "passed s = filter (\<lambda>c. c \<noteq> CloseCalled) (closers s)"

definition life_inv :: "mvccLife \<Rightarrow> bool" where
  "life_inv s \<longleftrightarrow> length (passed s) = (if compactStop s then 1 else 0) \<and> (compactDone s \<longleftrightarrow> \<not> looping s)
     \<and> (compactDone s \<longrightarrow> compactStop s) \<and> (CloseReturned \<in> set (closers s) \<longrightarrow> compactDone s)"

lemma filter_update_length:
  "i < length xs \<Longrightarrow> length (filter P (xs[i := x])) + (if P (xs ! i) then 1 else 0) = length (filter P xs) + (if P x then 1 else 0)"
proof (induction xs arbitrary: i)
  case (Cons y ys)
  then show ?case by (cases i) auto
qed simp

lemma life_step_inv:
  assumes "life_step s (Some s')" "life_inv s"
  shows "life_inv s'"
  using assms(1)
proof cases
  case (l_signal i)
  then have s': "s' = s\<lparr>compactStop := True, closers := (closers s)[i := CloseWaits]\<rparr>" "\<not> compactStop s"
    by (auto simp: close_stop_def split: if_splits)
  have "length (passed s') = Suc (length (passed s))"
    using filter_update_length [OF l_signal(2), of "\<lambda>c. c \<noteq> CloseCalled" CloseWaits] l_signal(3) by (simp add: passed_def s'(1))
  moreover have "CloseReturned \<in> set (closers s') \<longrightarrow> CloseReturned \<in> set (closers s)"
    using set_update_subset_insert [of "closers s" i CloseWaits] by (auto simp: s'(1))
  ultimately show ?thesis using assms(2) s' by (auto simp: life_inv_def)
next
  case (l_return i)
  have "length (passed s') = length (passed s)"
    using filter_update_length [OF l_return(2), of "\<lambda>c. c \<noteq> CloseCalled" CloseReturned] l_return(1,3) by (simp add: passed_def)
  then show ?thesis using assms(2) l_return(1,4) by (simp add: life_inv_def)
qed (use assms(2) in \<open>auto simp: life_inv_def passed_def life_Open_def loop_tick_def loop_stop_def split: sum.splits if_splits\<close>)

lemma life_reach_inv: "life_reach s \<Longrightarrow> life_inv s"
  by (induction rule: life_reach.induct) (simp add: life_inv_def passed_def newMVCCEngine_def, rule life_step_inv)

subsection \<open>Closing\<close>

lemma passed_iff: "passed s \<noteq> [] \<longleftrightarrow> CloseWaits \<in> set (closers s) \<or> CloseReturned \<in> set (closers s)"
proof -
  have "c \<noteq> CloseCalled \<longleftrightarrow> c = CloseWaits \<or> c = CloseReturned" for c by (cases c) auto
  then show ?thesis by (auto simp: passed_def filter_empty_conv)
qed

text \<open>A call that waits returns: the goroutine stops, unless it has, and the call sees it.\<close>

lemma waiting_close_returns:
  assumes "life_reach s" "i < length (closers s)" "closers s ! i = CloseWaits"
  shows "\<exists>s'. life_follows s s' \<and> closers s' ! i = CloseReturned \<and> lifeEngine s' = lifeEngine s"
proof -
  have stop: "compactStop s" "compactDone s \<longleftrightarrow> \<not> looping s"
    using life_reach_inv [OF assms(1)] passed_iff [of s] assms(2,3) nth_mem [OF assms(2)]
    by (auto simp: life_inv_def split: if_splits)
  obtain s1 where s1: "life_follows s s1" "compactDone s1" "closers s1 = closers s" "lifeEngine s1 = lifeEngine s"
  proof (cases "looping s")
    case True
    then have "life_step s (Some (s\<lparr>looping := False, compactDone := True\<rparr>))"
      using life_step.l_stop [OF True stop(1)] stop(2) by (simp add: loop_stop_def)
    from life_follows_step [OF life_follows_refl this] show ?thesis by (rule that) simp_all
  next
    case False
    then show ?thesis using that [OF life_follows_refl] stop(2) by simp
  qed
  then have "life_step s1 (Some (s1\<lparr>closers := (closers s1)[i := CloseReturned]\<rparr>))"
    using assms(2,3) by (intro life_step.l_return) simp_all
  from life_follows_step [OF s1(1) this] s1(3,4) assms(2) show ?thesis
    by (intro exI [of _ "s1\<lparr>closers := (closers s1)[i := CloseReturned]\<rparr>"]) simp
qed

text \<open>
  C25. An engine can be closed once. In every interleaving of its operations, its background compaction and any number of
  calls of \<open>Open\<close> and \<open>Close\<close>, at most one \<open>Close\<close> gets past the channel, and from there it can return; once it is past, every
  other call panics; once it has returned the compaction has ended; and \<open>Open\<close> brings back neither the channel nor the
  compaction, so an engine that was closed and opened again, as a restored snapshot does, cannot be closed.
\<close>

theorem mvcc_closes_once:
  assumes "life_reach s"
  shows "length (filter (\<lambda>c. c \<noteq> CloseCalled) (closers s)) \<le> 1
    \<and> (\<forall>i < length (closers s). closers s ! i = CloseWaits \<longrightarrow> (\<exists>s'. life_follows s s' \<and> closers s' ! i = CloseReturned))
    \<and> (close_stop i s = None \<longleftrightarrow> CloseWaits \<in> set (closers s) \<or> CloseReturned \<in> set (closers s))
    \<and> (CloseReturned \<in> set (closers s) \<longrightarrow> \<not> looping s)
    \<and> (\<forall>file s'. life_Open file s = Inr s' \<longrightarrow> looping s' = looping s \<and> (close_stop i s' = None \<longleftrightarrow> close_stop i s = None))"
proof (intro conjI allI impI)
  note I = life_reach_inv [OF assms]
  show "length (filter (\<lambda>c. c \<noteq> CloseCalled) (closers s)) \<le> 1" using I by (auto simp: life_inv_def passed_def split: if_splits)
  show "close_stop i s = None \<longleftrightarrow> CloseWaits \<in> set (closers s) \<or> CloseReturned \<in> set (closers s)"
    using I passed_iff [of s] by (auto simp: life_inv_def close_stop_def split: if_splits)
  show "\<exists>s'. life_follows s s' \<and> closers s' ! j = CloseReturned" if "j < length (closers s)" "closers s ! j = CloseWaits" for j
    using waiting_close_returns [OF assms that] by blast
qed (use life_reach_inv [OF assms] in \<open>auto simp: life_inv_def life_Open_def close_stop_def split: sum.splits\<close>)

text \<open>The engine is closed, opened again without a file, and a second \<open>Close\<close> is called.\<close>

definition restored :: mvccLife where
  "restored = newMVCCEngine\<lparr>compactStop := True, compactDone := True, looping := False, closers := [CloseReturned, CloseCalled]\<rparr>"

lemma restored_reach: "life_reach restored"
proof -
  let ?s0 = newMVCCEngine
  let ?s1 = "?s0\<lparr>closers := [CloseCalled]\<rparr>"
  let ?s2 = "?s1\<lparr>compactStop := True, closers := [CloseWaits]\<rparr>"
  let ?s3 = "?s2\<lparr>looping := False, compactDone := True\<rparr>"
  let ?s4 = "?s3\<lparr>closers := [CloseReturned]\<rparr>"
  have "life_step ?s0 (Some ?s1)" using life_step.l_close [of ?s0] by (simp add: newMVCCEngine_def)
  with life_reach.l_init have 1: "life_reach ?s1" by (rule life_reach.l_next)
  have "life_step ?s1 (Some ?s2)" using life_step.l_signal [of 0 ?s1] by (simp add: close_stop_def newMVCCEngine_def)
  with 1 have 2: "life_reach ?s2" by (rule life_reach.l_next)
  have "life_step ?s2 (Some ?s3)" using life_step.l_stop [of ?s2] by (simp add: loop_stop_def newMVCCEngine_def)
  with 2 have 3: "life_reach ?s3" by (rule life_reach.l_next)
  have "life_step ?s3 (Some ?s4)" using life_step.l_return [of 0 ?s3] by (simp add: newMVCCEngine_def)
  with 3 have 4: "life_reach ?s4" by (rule life_reach.l_next)
  have "life_step ?s4 (Some ?s4)" by (rule life_step.l_open [of None]) (simp add: life_Open_def mvcc_Open_def)
  with 4 have 5: "life_reach ?s4" by (rule life_reach.l_next)
  have "life_step ?s4 (Some restored)" using life_step.l_close [of ?s4] by (simp add: restored_def newMVCCEngine_def)
  with 5 show ?thesis by (rule life_reach.l_next)
qed

theorem mvcc_closes_once_witness: "life_reach restored \<and> close_stop 1 restored = None"
  using mvcc_closes_once [OF restored_reach, of 1] restored_reach by (simp add: restored_def)

end
