(* ===== verification/Iterators.thy ===== *)
theory Iterators
  imports Tx_Props
begin

text \<open>
  The interface \<open>Iterator\<close> of \<open>src/engine/engine.go\<close> and its implementations over a slice of pairs: \<open>memIter\<close> (in
  \<open>Engine_Spec\<close>), \<open>mvccIter\<close> of \<open>src/engine/memory/mvcc.go\<close>, \<open>badgerIter\<close>, \<open>oshodiIter\<close>, and \<open>errIter\<close>, which stands for
  an iterator that could not be created. A value of the interface is one of them, and a method call dispatches on it.
  The contract is the locale \<open>cursor\<close>; \<open>collectIter\<close> of \<open>src/helpers.go\<close> is its client.
\<close>

subsection \<open>Implementations\<close>

record mvccIter =
  mvPairs :: data_map
  mvPos :: int

definition mvccIter_First :: "mvccIter \<Rightarrow> bool \<times> mvccIter" where
  "mvccIter_First it = (0 < length (mvPairs it), it\<lparr>mvPos := 0\<rparr>)"

definition mvccIter_Next :: "mvccIter \<Rightarrow> bool \<times> mvccIter" where
  "mvccIter_Next it = (mvPos it + 1 < int (length (mvPairs it)), it\<lparr>mvPos := mvPos it + 1\<rparr>)"

definition mvccIter_Prev :: "mvccIter \<Rightarrow> bool \<times> mvccIter" where
  "mvccIter_Prev it = (if mvPos it \<le> 0 then (False, it\<lparr>mvPos := -1\<rparr>) else (True, it\<lparr>mvPos := mvPos it - 1\<rparr>))"

definition mvccIter_Valid :: "mvccIter \<Rightarrow> bool" where
  "mvccIter_Valid it \<longleftrightarrow> mvPos it \<ge> 0 \<and> mvPos it < int (length (mvPairs it))"

definition mvccIter_Key :: "mvccIter \<Rightarrow> bytes" where
  "mvccIter_Key it = (if \<not> mvccIter_Valid it then [] else fst (mvPairs it ! nat (mvPos it)))"

definition mvccIter_Value :: "mvccIter \<Rightarrow> bytes" where
  "mvccIter_Value it = (if \<not> mvccIter_Valid it then [] else snd (mvPairs it ! nat (mvPos it)))"

record badgerIter =
  bgPairs :: data_map
  bgIdx :: int

definition badgerIter_First :: "badgerIter \<Rightarrow> bool \<times> badgerIter" where
  "badgerIter_First it = (0 < length (bgPairs it), it\<lparr>bgIdx := 0\<rparr>)"

definition badgerIter_Next :: "badgerIter \<Rightarrow> bool \<times> badgerIter" where
  "badgerIter_Next it = (bgIdx it + 1 < int (length (bgPairs it)), it\<lparr>bgIdx := bgIdx it + 1\<rparr>)"

definition badgerIter_Prev :: "badgerIter \<Rightarrow> bool \<times> badgerIter" where
  "badgerIter_Prev it = (bgIdx it - 1 \<ge> 0, it\<lparr>bgIdx := bgIdx it - 1\<rparr>)"

definition badgerIter_Valid :: "badgerIter \<Rightarrow> bool" where
  "badgerIter_Valid it \<longleftrightarrow> bgIdx it \<ge> 0 \<and> bgIdx it < int (length (bgPairs it))"

definition badgerIter_Key :: "badgerIter \<Rightarrow> bytes" where
  "badgerIter_Key it = (if \<not> badgerIter_Valid it then [] else fst (bgPairs it ! nat (bgIdx it)))"

definition badgerIter_Value :: "badgerIter \<Rightarrow> bytes" where
  "badgerIter_Value it = (if \<not> badgerIter_Valid it then [] else snd (bgPairs it ! nat (bgIdx it)))"

record oshodiIter =
  oiPairs :: data_map
  oiPos :: int

definition oshodiIter_First :: "oshodiIter \<Rightarrow> bool \<times> oshodiIter" where
  "oshodiIter_First it = (0 < length (oiPairs it), it\<lparr>oiPos := 0\<rparr>)"

definition oshodiIter_Next :: "oshodiIter \<Rightarrow> bool \<times> oshodiIter" where
  "oshodiIter_Next it = (oiPos it + 1 < int (length (oiPairs it)), it\<lparr>oiPos := oiPos it + 1\<rparr>)"

definition oshodiIter_Prev :: "oshodiIter \<Rightarrow> bool \<times> oshodiIter" where
  "oshodiIter_Prev it = (if oiPos it \<le> 0 then (False, it\<lparr>oiPos := -1\<rparr>) else (True, it\<lparr>oiPos := oiPos it - 1\<rparr>))"

definition oshodiIter_Valid :: "oshodiIter \<Rightarrow> bool" where
  "oshodiIter_Valid it \<longleftrightarrow> oiPos it \<ge> 0 \<and> oiPos it < int (length (oiPairs it))"

definition oshodiIter_Key :: "oshodiIter \<Rightarrow> bytes" where
  "oshodiIter_Key it = (if \<not> oshodiIter_Valid it then [] else fst (oiPairs it ! nat (oiPos it)))"

definition oshodiIter_Value :: "oshodiIter \<Rightarrow> bytes" where
  "oshodiIter_Value it = (if \<not> oshodiIter_Valid it then [] else snd (oiPairs it ! nat (oiPos it)))"

subsection \<open>The interface\<close>

datatype engine_iter =
    IterMem memIter
  | IterMvcc mvccIter
  | IterBadger badgerIter
  | IterOshodi oshodiIter
  | IterErr engine_error

fun iter_First :: "engine_iter \<Rightarrow> bool \<times> engine_iter" where
  "iter_First (IterMem it) = apsnd IterMem (it_First it)"
| "iter_First (IterMvcc it) = apsnd IterMvcc (mvccIter_First it)"
| "iter_First (IterBadger it) = apsnd IterBadger (badgerIter_First it)"
| "iter_First (IterOshodi it) = apsnd IterOshodi (oshodiIter_First it)"
| "iter_First (IterErr err) = (False, IterErr err)"

fun iter_Next :: "engine_iter \<Rightarrow> bool \<times> engine_iter" where
  "iter_Next (IterMem it) = apsnd IterMem (it_Next it)"
| "iter_Next (IterMvcc it) = apsnd IterMvcc (mvccIter_Next it)"
| "iter_Next (IterBadger it) = apsnd IterBadger (badgerIter_Next it)"
| "iter_Next (IterOshodi it) = apsnd IterOshodi (oshodiIter_Next it)"
| "iter_Next (IterErr err) = (False, IterErr err)"

fun iter_Prev :: "engine_iter \<Rightarrow> bool \<times> engine_iter" where
  "iter_Prev (IterMem it) = apsnd IterMem (it_Prev it)"
| "iter_Prev (IterMvcc it) = apsnd IterMvcc (mvccIter_Prev it)"
| "iter_Prev (IterBadger it) = apsnd IterBadger (badgerIter_Prev it)"
| "iter_Prev (IterOshodi it) = apsnd IterOshodi (oshodiIter_Prev it)"
| "iter_Prev (IterErr err) = (False, IterErr err)"

fun iter_Valid :: "engine_iter \<Rightarrow> bool" where
  "iter_Valid (IterMem it) = it_Valid it"
| "iter_Valid (IterMvcc it) = mvccIter_Valid it"
| "iter_Valid (IterBadger it) = badgerIter_Valid it"
| "iter_Valid (IterOshodi it) = oshodiIter_Valid it"
| "iter_Valid (IterErr err) = False"

fun iter_Key :: "engine_iter \<Rightarrow> bytes" where
  "iter_Key (IterMem it) = it_Key it"
| "iter_Key (IterMvcc it) = mvccIter_Key it"
| "iter_Key (IterBadger it) = badgerIter_Key it"
| "iter_Key (IterOshodi it) = oshodiIter_Key it"
| "iter_Key (IterErr err) = []"

fun iter_Value :: "engine_iter \<Rightarrow> bytes" where
  "iter_Value (IterMem it) = it_Value it"
| "iter_Value (IterMvcc it) = mvccIter_Value it"
| "iter_Value (IterBadger it) = badgerIter_Value it"
| "iter_Value (IterOshodi it) = oshodiIter_Value it"
| "iter_Value (IterErr err) = []"

fun iter_Error :: "engine_iter \<Rightarrow> engine_error option" where
  "iter_Error (IterErr err) = Some err"
| "iter_Error it = None"

subsection \<open>Collecting\<close>

text \<open>The loop of \<open>collectIter\<close> over any implementation of the interface. It ends only if the iterator does.\<close>

partial_function (option) collect_with ::
  "('it \<Rightarrow> bool \<times> 'it) \<Rightarrow> ('it \<Rightarrow> bool) \<Rightarrow> ('it \<Rightarrow> bytes) \<Rightarrow> ('it \<Rightarrow> bytes) \<Rightarrow> bool \<Rightarrow> 'it \<Rightarrow> int \<Rightarrow> data_map \<Rightarrow> ('it \<times> data_map) option"
  where
  "collect_with nxt valid key val ok it limit pairs =
     (if ok \<and> valid it then
        if limit > 0 \<and> int (length pairs) \<ge> limit then Some (it, pairs)
        else collect_with nxt valid key val (fst (nxt it)) (snd (nxt it)) limit (pairs @ [(key it, val it)])
      else Some (it, pairs))"

definition iface_collectIter :: "engine_iter \<Rightarrow> int \<Rightarrow> bool \<Rightarrow> (engine_error + data_map) option" where
  "iface_collectIter it limit rv =
     (case iter_First it of (ok, it1) \<Rightarrow>
        case collect_with iter_Next iter_Valid iter_Key iter_Value ok it1 limit [] of
          None \<Rightarrow> None
        | Some (it2, pairs) \<Rightarrow> Some (case iter_Error it2 of
              Some err \<Rightarrow> Inl err
            | None \<Rightarrow> Inr (if rv then swap_loop 0 (int (length pairs) - 1) pairs else pairs)))"

subsection \<open>The contract\<close>

text \<open>
  \<open>pairs\<close> is what the iterator goes over and \<open>at\<close> where it stands. The interface promises nothing for \<open>Next\<close> and
  \<open>Prev\<close> of an iterator that is not valid.
\<close>

locale cursor =
  fixes First Next Prev :: "'it \<Rightarrow> bool \<times> 'it"
    and Valid :: "'it \<Rightarrow> bool"
    and Key Value :: "'it \<Rightarrow> bytes"
    and Error :: "'it \<Rightarrow> engine_error option"
    and pairs :: "'it \<Rightarrow> data_map"
    and at :: "'it \<Rightarrow> int"
  assumes first: "First it = (ok, it') \<Longrightarrow> pairs it' = pairs it \<and> Error it' = Error it \<and> (ok \<longleftrightarrow> Valid it') \<and> (pairs it \<noteq> [] \<longrightarrow> at it' = 0)"
    and nxt: "Valid it \<Longrightarrow> Next it = (ok, it') \<Longrightarrow> pairs it' = pairs it \<and> Error it' = Error it \<and> (ok \<longleftrightarrow> Valid it') \<and> at it' = at it + 1"
    and prev: "Valid it \<Longrightarrow> Prev it = (ok, it') \<Longrightarrow> pairs it' = pairs it \<and> Error it' = Error it \<and> (ok \<longleftrightarrow> Valid it') \<and> at it' = at it - 1"
    and valid: "Valid it \<longleftrightarrow> pairs it \<noteq> [] \<and> 0 \<le> at it \<and> at it < int (length (pairs it))"
    and key: "Valid it \<Longrightarrow> Key it = fst (pairs it ! nat (at it))"
    and val: "Valid it \<Longrightarrow> Value it = snd (pairs it ! nat (at it))"
begin

text \<open>\<open>Prev\<close> undoes \<open>Next\<close> while the iterator is valid.\<close>

lemma next_prev:
  assumes "Valid it" "Next it = (True, it1)" "Prev it1 = (ok, it2)"
  shows "ok \<and> Key it2 = Key it \<and> Value it2 = Value it"
proof -
  have 1: "pairs it1 = pairs it" "Valid it1" "at it1 = at it + 1" using nxt [OF assms(1,2)] by simp_all
  have 2: "pairs it2 = pairs it" "at it2 = at it" "ok \<longleftrightarrow> Valid it2" using prev [OF 1(2) assms(3)] 1 by simp_all
  then show ?thesis using assms(1) valid [of it] valid [of it2] key val by simp
qed

lemma collect_from:
  assumes "n \<le> length xs" "pairs it = xs" "xs \<noteq> [] \<longrightarrow> at it = int n" "ok \<longleftrightarrow> Valid it" "limit > 0 \<longrightarrow> int n \<le> limit"
  shows "\<exists>it'. collect_with Next Valid Key Value ok it limit (take n xs) = Some (it', limited limit xs) \<and> Error it' = Error it"
  using assms
proof (induction "length xs - n" arbitrary: n it ok)
  case 0
  then have "\<not> Valid it" using valid [of it] by auto
  with 0 show ?case by (subst collect_with.simps) (auto simp: limited_def)
next
  case (Suc d)
  then have n: "n < length xs" "Valid it" "at it = int n" "ok" using valid [of it] by auto
  show ?case
  proof (cases "limit > 0 \<and> int n \<ge> limit")
    case True
    then show ?thesis using Suc.prems n by (subst collect_with.simps) (auto simp: limited_def)
  next
    case False
    obtain ok1 it1 where N: "Next it = (ok1, it1)" by fastforce
    note L = nxt [OF n(2) N]
    have "d = length xs - Suc n" using Suc.hyps(2) by simp
    from Suc.hyps(1) [OF this, of it1 ok1] L n Suc.prems(2) False
    obtain it' where IH: "collect_with Next Valid Key Value ok1 it1 limit (take (Suc n) xs) = Some (it', limited limit xs)" "Error it' = Error it"
      by auto
    have "take n xs @ [(Key it, Value it)] = take (Suc n) xs"
      using key [OF n(2)] val [OF n(2)] n Suc.prems(2) by (simp add: take_Suc_conv_app_nth)
    moreover have "int (length (take n xs)) = int n" using n(1) by simp
    ultimately show ?thesis using n(2,4) False IH by (subst collect_with.simps) (auto simp: N)
  qed
qed

text \<open>The loop ends after \<open>First\<close>, with the pairs in order up to the limit.\<close>

lemma collect_exact:
  assumes "First it = (ok, it1)"
  shows "\<exists>it'. collect_with Next Valid Key Value ok it1 limit [] = Some (it', limited limit (pairs it)) \<and> Error it' = Error it"
  using collect_from [of 0 "pairs it" it1 ok limit] first [OF assms] by auto

end

subsection \<open>The implementations keep the contract\<close>

lemmas iter_defs =
  it_First_def it_Next_def it_Prev_def it_Valid_def it_Key_def it_Value_def
  mvccIter_First_def mvccIter_Next_def mvccIter_Prev_def mvccIter_Valid_def mvccIter_Key_def mvccIter_Value_def
  badgerIter_First_def badgerIter_Next_def badgerIter_Prev_def badgerIter_Valid_def badgerIter_Key_def badgerIter_Value_def
  oshodiIter_First_def oshodiIter_Next_def oshodiIter_Prev_def oshodiIter_Valid_def oshodiIter_Key_def oshodiIter_Value_def

interpretation memi: cursor it_First it_Next it_Prev it_Valid it_Key it_Value "\<lambda>_. None" it_pairs it_pos
  by unfold_locales (auto simp: iter_defs split: if_splits)

interpretation mvcci: cursor mvccIter_First mvccIter_Next mvccIter_Prev mvccIter_Valid mvccIter_Key mvccIter_Value "\<lambda>_. None" mvPairs mvPos
  by unfold_locales (auto simp: iter_defs split: if_splits)

interpretation bdgi: cursor badgerIter_First badgerIter_Next badgerIter_Prev badgerIter_Valid badgerIter_Key badgerIter_Value "\<lambda>_. None" bgPairs bgIdx
  by unfold_locales (auto simp: iter_defs split: if_splits)

interpretation oshi: cursor oshodiIter_First oshodiIter_Next oshodiIter_Prev oshodiIter_Valid oshodiIter_Key oshodiIter_Value "\<lambda>_. None" oiPairs oiPos
  by unfold_locales (auto simp: iter_defs split: if_splits)

fun iter_pairs :: "engine_iter \<Rightarrow> data_map" where
  "iter_pairs (IterMem it) = it_pairs it"
| "iter_pairs (IterMvcc it) = mvPairs it"
| "iter_pairs (IterBadger it) = bgPairs it"
| "iter_pairs (IterOshodi it) = oiPairs it"
| "iter_pairs (IterErr err) = []"

fun iter_at :: "engine_iter \<Rightarrow> int" where
  "iter_at (IterMem it) = it_pos it"
| "iter_at (IterMvcc it) = mvPos it"
| "iter_at (IterBadger it) = bgIdx it"
| "iter_at (IterOshodi it) = oiPos it"
| "iter_at (IterErr err) = 0"

interpretation itf: cursor iter_First iter_Next iter_Prev iter_Valid iter_Key iter_Value iter_Error iter_pairs iter_at
proof (unfold_locales, goal_cases)
  case (1 it ok it')
  then show ?case by (cases it) (auto simp: iter_defs)
next
  case (2 it ok it')
  then show ?case by (cases it) (auto simp: iter_defs)
next
  case (3 it ok it')
  then show ?case by (cases it) (auto simp: iter_defs split: if_splits)
next
  case (4 it)
  then show ?case by (cases it) (auto simp: iter_defs)
next
  case (5 it)
  then show ?case by (cases it) (auto simp: iter_defs)
next
  case (6 it)
  then show ?case by (cases it) (auto simp: iter_defs)
qed


text \<open>The range scans of the transaction model, which go over \<open>memIter\<close>, are those of the interface.\<close>

lemma iface_collectIter_mem: "iface_collectIter (IterMem it) limit rv = Some (Inr (collectIter it limit rv))"
  using itf.collect_exact [of "IterMem it" "fst (iter_First (IterMem it))" "snd (iter_First (IterMem it))" limit]
  by (auto simp: iface_collectIter_def collectIter_eq swap_loop_rev apsnd_def map_prod_def case_prod_beta split: option.splits)

text \<open>
  Off its ends \<open>badgerIter\<close> behaves differently from the others: it does not stop in front of the first pair, so that
  after one step too many \<open>Next\<close> answers that there is a pair although the iterator stands on none.
\<close>

lemma badgerIter_overshoots:
  "it = IterBadger \<lparr>bgPairs = xs, bgIdx = -1\<rparr> \<Longrightarrow>
   fst (iter_Next (snd (iter_Prev it))) \<and> \<not> iter_Valid (snd (iter_Next (snd (iter_Prev it))))"
  by (simp add: badgerIter_Prev_def badgerIter_Next_def badgerIter_Valid_def)

lemma clamped_Next_valid:
  "-1 \<le> it_pos it \<Longrightarrow> fst (it_Next it) = it_Valid (snd (it_Next it)) \<and> -1 \<le> it_pos (snd (it_Prev it))"
  "-1 \<le> mvPos mi \<Longrightarrow> fst (mvccIter_Next mi) = mvccIter_Valid (snd (mvccIter_Next mi)) \<and> -1 \<le> mvPos (snd (mvccIter_Prev mi))"
  "-1 \<le> oiPos oi \<Longrightarrow> fst (oshodiIter_Next oi) = oshodiIter_Valid (snd (oshodiIter_Next oi)) \<and> -1 \<le> oiPos (snd (oshodiIter_Prev oi))"
  by (auto simp: iter_defs)

end
