(* ===== verification/Report.thy ===== *)
theory Report
  imports Telemetry Runner
begin

text \<open>
  What the program reports: the table of stage timers of \<open>src/shared/telemetry.go\<close> and the boxes of
  \<open>src/workspace/runner.go\<close>. Text is a list of code points, since Go pads by code points but measures in bytes. Durations
  are rounded as the code does; their printed form is left out, so a table is a list of rows.
\<close>

subsection \<open>Durations\<close>

text \<open>\<open>time.Duration.Round\<close>: halves are rounded away from zero, and results out of range are the extreme durations.\<close>

definition maxDuration :: int where "maxDuration = 2 ^ 63 - 1"
definition minDuration :: int where "minDuration = - (2 ^ 63)"

definition duration_Round :: "int \<Rightarrow> int \<Rightarrow> int" where
  "duration_Round d m =
     (if m \<le> 0 then d
      else if d < 0 then
        (let r = (- d) mod m
         in if r + r < m then d + r else if d - m + r \<ge> minDuration then d - m + r else minDuration)
      else
        (let r = d mod m
         in if r + r < m then d - r else if d + m - r \<le> maxDuration then d + m - r else maxDuration))"

definition time_Microsecond :: int where "time_Microsecond = 1000"

subsection \<open>The stage timers\<close>

record Telemetry =
  tGetSnapshot :: StageTimer
  tSpeculate :: StageTimer
  tMarshal :: StageTimer
  tPropose :: StageTimer
  tConflictDetect :: StageTimer
  tApplyProposal :: StageTimer
  tEngineApply :: StageTimer
  tBatcherWait :: StageTimer
  tBatcherFlushSize :: StageTimer
  tDirectSubmit :: StageTimer
  tDirectAccumulate :: StageTimer
  tDirectRoundTrip :: StageTimer
  tEngineSync :: StageTimer
  tSnapshotCreate :: StageTimer
  tIterMaterialise :: StageTimer
  tTxValidate :: StageTimer
  tTxReadSetCopy :: StageTimer
  tRetryBackoff :: StageTimer
  tWatchNotify :: StageTimer
  tWatchChannelSend :: StageTimer
  tEngineOpen :: StageTimer
  tKeyEpochRebuild :: StageTimer
  tRaftBootstrap :: StageTimer
  tShutdownRaft :: StageTimer
  tShutdownEngine :: StageTimer
  tClone :: StageTimer

definition zero_telemetry :: Telemetry where
  "zero_telemetry =
     \<lparr>tGetSnapshot = zero_timer, tSpeculate = zero_timer, tMarshal = zero_timer, tPropose = zero_timer,
      tConflictDetect = zero_timer, tApplyProposal = zero_timer, tEngineApply = zero_timer, tBatcherWait = zero_timer,
      tBatcherFlushSize = zero_timer, tDirectSubmit = zero_timer, tDirectAccumulate = zero_timer,
      tDirectRoundTrip = zero_timer, tEngineSync = zero_timer, tSnapshotCreate = zero_timer, tIterMaterialise = zero_timer,
      tTxValidate = zero_timer, tTxReadSetCopy = zero_timer, tRetryBackoff = zero_timer, tWatchNotify = zero_timer,
      tWatchChannelSend = zero_timer, tEngineOpen = zero_timer, tKeyEpochRebuild = zero_timer, tRaftBootstrap = zero_timer,
      tShutdownRaft = zero_timer, tShutdownEngine = zero_timer, tClone = zero_timer\<rparr>"

definition RecordClone :: "Telemetry \<Rightarrow> int \<Rightarrow> Telemetry" where
  "RecordClone t d = t\<lparr>tClone := Record (tClone t) d\<rparr>"

definition RecordIterMaterialise :: "Telemetry \<Rightarrow> int \<Rightarrow> Telemetry" where
  "RecordIterMaterialise t d = t\<lparr>tIterMaterialise := Record (tIterMaterialise t) d\<rparr>"

record print_row =
  rowName :: string
  rowCount :: int64
  rowMean :: int
  rowMin :: int
  rowMax :: int

definition print_stages :: "Telemetry \<Rightarrow> (string \<times> StageTimer) list" where
  "print_stages t =
     [(''get_snapshot'', tGetSnapshot t), (''speculate_fn'', tSpeculate t), (''marshal'', tMarshal t),
      (''propose_total'', tPropose t), (''  conflict_detect'', tConflictDetect t), (''  apply_proposal'', tApplyProposal t),
      (''  engine_apply'', tEngineApply t), (''    clone_cow'', tClone t), (''iter_materialise'', tIterMaterialise t),
      (''retry_backoff'', tRetryBackoff t), (''tx_validate'', tTxValidate t), (''tx_readset_copy'', tTxReadSetCopy t),
      (''batcher_wait'', tBatcherWait t), (''batcher_flush_size'', tBatcherFlushSize t), (''direct_submit'', tDirectSubmit t),
      (''direct_accumulate'', tDirectAccumulate t), (''direct_roundtrip'', tDirectRoundTrip t), (''engine_sync'', tEngineSync t),
      (''snapshot_create'', tSnapshotCreate t), (''watch_notify'', tWatchNotify t),
      (''watch_channel_send'', tWatchChannelSend t), (''engine_open'', tEngineOpen t),
      (''key_epoch_rebuild'', tKeyEpochRebuild t), (''raft_bootstrap'', tRaftBootstrap t),
      (''shutdown_raft'', tShutdownRaft t), (''shutdown_engine'', tShutdownEngine t)]"

definition stage_row :: "string \<times> StageTimer \<Rightarrow> print_row" where
  "stage_row st =
     \<lparr>rowName = fst st, rowCount = timer_Count (snd st), rowMean = duration_Round (Mean (snd st)) time_Microsecond,
      rowMin = duration_Round (timer_Min (snd st)) time_Microsecond,
      rowMax = duration_Round (timer_Max (snd st)) time_Microsecond\<rparr>"

definition telemetry_Print :: "Telemetry \<Rightarrow> print_row list" where
  "telemetry_Print t = map stage_row (filter (\<lambda>st. timer_Count (snd st) \<noteq> 0) (print_stages t))"

subsection \<open>The summary of the load generator\<close>

text \<open>Name, count and rounded mean; the columns for percentiles are not filled. Two names have tree characters in UTF-8.\<close>

definition tree_mid :: string where
  "tree_mid = [CHR 0xE2, CHR 0x94, CHR 0x9C, CHR 0xE2, CHR 0x94, CHR 0x80]"

definition tree_end :: string where
  "tree_end = [CHR 0xE2, CHR 0x94, CHR 0x94, CHR 0xE2, CHR 0x94, CHR 0x80]"

definition summary_row :: "int \<Rightarrow> string \<times> StageTimer \<Rightarrow> string \<times> int64 \<times> int" where
  "summary_row unit st = (fst st, timer_Count (snd st), duration_Round (Mean (snd st)) unit)"

definition printTelemetrySummary :: "Telemetry option \<Rightarrow> (string \<times> int64 \<times> int) list" where
  "printTelemetrySummary tel =
     (case tel of
        None \<Rightarrow> []
      | Some t \<Rightarrow>
          map (summary_row time_Microsecond) (filter (\<lambda>st. timer_Count (snd st) \<noteq> 0)
            [(''Snapshot (engine)'', tGetSnapshot t), (''Speculate (fn)'', tSpeculate t), (''Propose (total)'', tPropose t),
             (''Engine Apply'', tEngineApply t), (''  '' @ tree_mid @ '' Map Clone (cow)'', tClone t), (''Snapshot Create'', tSnapshotCreate t)])
          @ (if sint (timer_Count (tDirectRoundTrip t)) > 0
             then [summary_row time_Microsecond (''Direct RT (total)'', tDirectRoundTrip t),
                   summary_row 1 (''  '' @ tree_mid @ '' Submit'', tDirectSubmit t),
                   summary_row time_Microsecond (''  '' @ tree_end @ '' Accumulate'', tDirectAccumulate t)]
             else []))"

subsection \<open>Boxes\<close>

type_synonym rune_string = "nat list"

definition utf8_len :: "nat \<Rightarrow> nat" where
  "utf8_len c = (if c < 0x80 then 1 else if c < 0x800 then 2 else if c < 0x10000 then 3 else 4)"

text \<open>\<open>len\<close> of a string, \<open>repeat\<close>, and the verb \<open>%-*s\<close>.\<close>

definition byte_len :: "rune_string \<Rightarrow> nat" where
  "byte_len s = sum_list (map utf8_len s)"

definition repeat_str :: "rune_string \<Rightarrow> nat \<Rightarrow> rune_string" where
  "repeat_str s n = concat (replicate n s)"

definition pad_right :: "nat \<Rightarrow> rune_string \<Rightarrow> rune_string" where
  "pad_right w s = s @ replicate (w - length s) 32"

definition box_widths :: "(rune_string \<times> rune_string) list \<Rightarrow> nat \<times> nat" where
  "box_widths rows =
     foldl (\<lambda>(w0, w1) r. (if byte_len (fst r) > w0 then byte_len (fst r) else w0,
                           if byte_len (snd r) > w1 then byte_len (snd r) else w1)) (0, 0) rows"

text \<open>One row, with the line under the first one; the numbers are the code points of the frame.\<close>

definition box_row :: "nat \<Rightarrow> nat \<Rightarrow> nat \<Rightarrow> rune_string \<times> rune_string \<Rightarrow> rune_string list" where
  "box_row w0 w1 i r =
     ([0x2502, 32, 32] @ pad_right w0 (fst r) @ [32, 32, 0x2502, 32, 32] @ pad_right w1 (snd r) @ [32, 32, 0x2502])
     # (if i = 0 then [[0x251C] @ repeat_str [0x2500] (w0 + 4) @ [0x253C] @ repeat_str [0x2500] (w1 + 4) @ [0x2524]] else [])"

definition printBox :: "(rune_string \<times> rune_string) list \<Rightarrow> rune_string list" where
  "printBox rows =
     (let (w0, w1) = box_widths rows; border = w0 + w1 + 7
      in [[0x250C] @ repeat_str [0x2500] border @ [0x2510]]
         @ concat (map (\<lambda>i. box_row w0 w1 i (rows ! i)) [0..<length rows])
         @ [[0x2514] @ repeat_str [0x2500] border @ [0x2518]])"

end
