(* ===== verification/Assembly.thy ===== *)
theory Assembly
  imports Raft_Node Report Node
begin

text \<open>
  How a node is put together: the constructors of \<open>src/open.go\<close>, which choose an engine, the proposer the conductor then
  chooses for it, the state \<open>Health\<close> reports, and the decisions of \<open>main\<close> and \<open>runBenchmark\<close> of
  \<open>src/workspace/runner.go\<close> from the flags of the load generator.
\<close>

subsection \<open>Engines\<close>

datatype engine_spec = EngMemory | EngMemorySharded | EngMVCCSharded | EngPebble string | EngOshodi string

definition OpenEmbedded_engine :: engine_spec where
  "OpenEmbedded_engine = EngMemory"

definition OpenSharded_engine :: engine_spec where
  "OpenSharded_engine = EngMemorySharded"

definition OpenMVCCSharded_engine :: engine_spec where
  "OpenMVCCSharded_engine = EngMVCCSharded"

definition OpenPebble_engine :: "string \<Rightarrow> engine_spec" where
  "OpenPebble_engine dataDir = EngPebble (if dataDir = [] then ''/tmp/dpx-pebble'' else dataDir)"

definition OpenOshodi_engine :: "string \<Rightarrow> engine_spec" where
  "OpenOshodi_engine dataDir = EngOshodi (if dataDir = [] then ''/tmp/dpx-oshodi'' else dataDir)"

text \<open>The method \<open>IsSharded\<close>, which only the in-process engines have.\<close>

fun engine_IsSharded :: "engine_spec \<Rightarrow> bool option" where
  "engine_IsSharded EngMemory = Some False"
| "engine_IsSharded EngMemorySharded = Some True"
| "engine_IsSharded EngMVCCSharded = Some True"
| "engine_IsSharded (EngPebble dir) = None"
| "engine_IsSharded (EngOshodi dir) = None"

fun is_PDirect :: "'e proposer_of \<Rightarrow> bool" where
  "is_PDirect (PDirect d) = True" | "is_PDirect p = False"

fun is_PSharded :: "'e proposer_of \<Rightarrow> bool" where
  "is_PSharded (PSharded d) = True" | "is_PSharded p = False"

fun is_PRaft :: "'e proposer_of \<Rightarrow> bool" where
  "is_PRaft (PRaft n) = True" | "is_PRaft p = False"

text \<open>
  Without peers the sharded engines get the sharded proposer and the others the direct one; with peers every engine gets
  Raft.
\<close>

lemma conductor_choice:
  assumes "conductor_Open E (engine_IsSharded spec) peers eng policy w env = (Inr p, held)"
  shows "is_PRaft p \<longleftrightarrow> peers \<noteq> 0"
    "is_PSharded p \<longleftrightarrow> peers = 0 \<and> (spec = EngMemorySharded \<or> spec = EngMVCCSharded)"
    "is_PDirect p \<longleftrightarrow> peers = 0 \<and> spec \<noteq> EngMemorySharded \<and> spec \<noteq> EngMVCCSharded"
    "peers = 0 \<Longrightarrow> held = []"
  using assms
  by (cases spec; auto simp: conductor_Open_def isShardedEngine_def map_err_def split: if_splits sum.splits prod.splits)+

subsection \<open>Health\<close>

record HealthStatus =
  Alive :: bool
  hClosed :: bool
  SeqCounter :: uint64
  hTransactions :: uint64
  Conflicts :: uint64
  hConflictExhausted :: uint64

text \<open>The conflict counter is shared with the proposer; without metrics the counters are zero.\<close>

definition Health :: "uint64 option \<Rightarrow> 'e Node \<Rightarrow> HealthStatus" where
  "Health conflictTotal n =
     (let h = \<lparr>Alive = \<not> nodeClosed n, hClosed = nodeClosed n, SeqCounter = seqCounter n, hTransactions = 0, Conflicts = 0,
               hConflictExhausted = 0\<rparr>
      in case conflictTotal of
           None \<Rightarrow> h
         | Some c \<Rightarrow> h\<lparr>hTransactions := TransactionsTotal n, Conflicts := c, hConflictExhausted := ConflictExhausted n\<rparr>)"

subsection \<open>The load generator\<close>

text \<open>The flags that \<open>main\<close> reads, those of the profiles apart; durations are in nanoseconds.\<close>

record runner_flags =
  flagEngine :: string
  flagDir :: string
  flagDuration :: int
  flagWarmup :: int
  flagConcurrency :: int
  flagKeys :: int
  flagWorkload :: string
  flagMode :: string
  flagSync :: string
  flagRaftDir :: string
  flagValueSize :: int
  flagTelemetry :: string
  flagRuns :: int
  flagKeyDist :: string

record runConfig =
  rcEngine :: string
  rcMode :: string
  rcSync :: string
  rcWorkload :: string
  rcKeyDist :: string
  rcTelemetry :: "Telemetry option"
  rcRawEng :: "engine_spec option"
  rcConcurrency :: int
  rcKeys :: int
  rcValueSize :: int
  rcWarmup :: int
  rcDuration :: int
  rcRaftDir :: string
  rcNumRuns :: int

datatype runner_exit =
    ExitTempDir string
  | ExitSync string
  | ExitKeyDist string
  | ExitEngine string
  | ExitFreePort string

text \<open>The checks before the configuration is built, in their order; the result of \<open>os.MkdirTemp\<close> is an argument.\<close>

definition check_flags :: "runner_flags \<Rightarrow> string + string \<Rightarrow> runner_exit + string \<times> SyncPolicy \<times> int" where
  "check_flags fl tempDir =
     (case (if flagRaftDir fl = [] then tempDir else Inr (flagRaftDir fl)) of
        Inl err \<Rightarrow> Inl (ExitTempDir err)
      | Inr raftDir \<Rightarrow>
     (case parse_sync (flagSync fl) of
        None \<Rightarrow> Inl (ExitSync (flagSync fl))
      | Some policy \<Rightarrow>
     (case parse_keydist (flagKeyDist fl) of
        None \<Rightarrow> Inl (ExitKeyDist (flagKeyDist fl))
      | Some striped \<Rightarrow> Inr (raftDir, policy, clamp_runs (flagRuns fl)))))"

definition run_config :: "runner_flags \<Rightarrow> string \<Rightarrow> int \<Rightarrow> runConfig" where
  "run_config fl raftDir numRuns =
     \<lparr>rcEngine = flagEngine fl, rcMode = flagMode fl, rcSync = flagSync fl, rcWorkload = flagWorkload fl,
      rcKeyDist = flagKeyDist fl, rcTelemetry = Some zero_telemetry, rcRawEng = None, rcConcurrency = flagConcurrency fl,
      rcKeys = flagKeys fl, rcValueSize = flagValueSize fl, rcWarmup = flagWarmup fl, rcDuration = flagDuration fl,
      rcRaftDir = raftDir, rcNumRuns = numRuns\<rparr>"

definition parse_engine :: "string \<Rightarrow> string \<Rightarrow> engine_spec option" where
  "parse_engine f dir =
     (if f = ''memory'' then Some EngMemory
      else if f = ''memory-sharded'' then Some EngMemorySharded
      else if f = ''mvcc-sharded'' then Some EngMVCCSharded
      else if f = ''pebble'' then Some (EngPebble dir)
      else None)"

record Metrics =
  mConflictTotal :: uint64
  mConflictExhausted :: uint64

text \<open>What \<open>main\<close> sets of the node's configuration; the field for the metrics is never assigned.\<close>

record lab_config =
  lcEngine :: engine_spec
  lcSyncPolicy :: SyncPolicy
  lcRaftDir :: string
  lcMetrics :: "Metrics option"
  lcListenPort :: "nat option"

definition lab_peers :: "lab_config \<Rightarrow> nat" where
  "lab_peers c = (case lcListenPort c of None \<Rightarrow> 0 | Some port \<Rightarrow> 1)"

text \<open>Both modes hand the raw engine to the run; only the distributed one listens, with itself as its only peer.\<close>

definition lab_network :: "runConfig \<Rightarrow> lab_config \<Rightarrow> string + nat \<Rightarrow> runner_exit + runConfig \<times> lab_config" where
  "lab_network cfg c freePort =
     (if rcMode cfg = ''distributed''
      then case freePort of
             Inl err \<Rightarrow> Inl (ExitFreePort err)
           | Inr port \<Rightarrow> Inr (cfg\<lparr>rcRawEng := Some (lcEngine c)\<rparr>, c\<lparr>lcListenPort := Some port\<rparr>)
      else Inr (cfg\<lparr>rcRawEng := Some (lcEngine c)\<rparr>, c))"

definition runner_plan :: "runner_flags \<Rightarrow> string + string \<Rightarrow> string + nat \<Rightarrow> runner_exit + runConfig \<times> lab_config" where
  "runner_plan fl tempDir freePort =
     (case check_flags fl tempDir of
        Inl e \<Rightarrow> Inl e
      | Inr (raftDir, policy, numRuns) \<Rightarrow>
     (case parse_engine (flagEngine fl) (flagDir fl) of
        None \<Rightarrow> Inl (ExitEngine (flagEngine fl))
      | Some eng \<Rightarrow>
          lab_network (run_config fl raftDir numRuns)
            \<lparr>lcEngine = eng, lcSyncPolicy = policy, lcRaftDir = raftDir, lcMetrics = None, lcListenPort = None\<rparr> freePort))"

text \<open>
  The engines that satisfy the interface \<open>Compacter\<close>, whose method returns an error: Pebble. The method of the same name of
  the multi-version engine returns a count.
\<close>

fun is_Compacter :: "engine_spec \<Rightarrow> bool" where
  "is_Compacter (EngPebble dir) = True"
| "is_Compacter spec = False"

definition raw_compacter :: "runConfig \<Rightarrow> bool" where
  "raw_compacter cfg = (case rcRawEng cfg of None \<Rightarrow> False | Some spec \<Rightarrow> is_Compacter spec)"

definition compacts_first :: "runConfig \<Rightarrow> bool" where
  "compacts_first cfg \<longleftrightarrow> raw_compacter cfg \<and> rcWorkload cfg \<noteq> ''read''"

definition warms_cache :: "runConfig \<Rightarrow> bool" where
  "warms_cache cfg \<longleftrightarrow> raw_compacter cfg \<and> (rcWorkload cfg = ''read'' \<or> rcWorkload cfg = ''mixed'')"

text \<open>The rows of the box of the metrics, none without metrics; the formatting of the numbers is left out.\<close>

definition printMetrics :: "Metrics option \<Rightarrow> (string \<times> uint64) list" where
  "printMetrics m =
     (case m of
        None \<Rightarrow> []
      | Some m \<Rightarrow> [(''Conflict Total'', mConflictTotal m), (''Conflict Exhausted'', mConflictExhausted m)])"

definition metrics_report :: "string \<Rightarrow> lab_config \<Rightarrow> (string \<times> uint64) list" where
  "metrics_report f c = (if f = ''summary'' \<or> f = ''full'' then printMetrics (lcMetrics c) else [])"

subsection \<open>What a plan promises\<close>

lemma runner_plan_cases:
  assumes "runner_plan fl tempDir freePort = Inr (cfg, c)"
  shows "parse_engine (flagEngine fl) (flagDir fl) = Some (lcEngine c)" "rcRawEng cfg = Some (lcEngine c)"
    "lcMetrics c = None" "1 \<le> rcNumRuns cfg" "rcWorkload cfg = flagWorkload fl"
    "lab_peers c = (if flagMode fl = ''distributed'' then 1 else 0)"
    "parse_sync (flagSync fl) = Some (lcSyncPolicy c)" "parse_keydist (flagKeyDist fl) \<noteq> None"
  using assms
  by (auto simp: runner_plan_def check_flags_def lab_network_def run_config_def lab_peers_def clamp_runs_def
      split: sum.splits option.splits if_splits)

lemma metrics_never_reported:
  "runner_plan fl tempDir freePort = Inr (cfg, c) \<Longrightarrow> metrics_report f c = []"
  by (simp add: metrics_report_def printMetrics_def runner_plan_cases(3))

text \<open>The workload is not checked: a plan exists for every name, and for an unknown one there is no function to call.\<close>

lemma workload_unchecked:
  "runner_plan (fl\<lparr>flagWorkload := w\<rparr>) tempDir freePort = Inr (cfg, c)
     \<longleftrightarrow> rcWorkload cfg = w
         \<and> (\<exists>cfg'. runner_plan fl tempDir freePort = Inr (cfg', c) \<and> cfg = cfg'\<lparr>rcWorkload := w\<rparr>)"
  by (auto simp: runner_plan_def check_flags_def lab_network_def run_config_def
      split: sum.splits option.splits if_splits)

end
