(* ===== verification/Spec2Isabelle.thy ===== *)
theory Spec2Isabelle
  imports Node_Runs Sharded_Props Snapshot_Props Pebble_Claims Badger_Claims Oshodi_Claims Telemetry Runner_Claims Raft_Node_Props
    Direct_Pool_Props Daemon MVCC_Life Iterators Report_Props Assembly
begin

text \<open>
  \<^bold>\<open>dpx, a transactional key-value store.\<close>

  \<^bold>\<open>The program.\<close> A node (\<open>dpx.go\<close>) runs transactions optimistically. A transaction (\<open>tx.go\<close>) reads from an
  engine snapshot, records the version of every key it reads, and buffers its writes. The result is a
  proposal (\<open>shared/proposal.go\<close>). A proposer decides on it: it rejects the proposal when a key was
  written after the version read, and otherwise hands its writes, a version record for each key, and the applied
  index to the engine as one batch. There are three proposers: the replicated state machine
  (\<open>conductor/fsm.go\<close>), fed with log entries by Raft; the direct proposer (\<open>conductor/direct.go\<close>), a queue
  and a loop on one node; and the sharded proposer (\<open>conductor/sharded_direct.go\<close>), which applies a
  proposal at once on one of 128 shards. Engines (\<open>engine/\<close>) are behind one interface: the in-memory engine
  (\<open>engine/memory/memory.go\<close>) and the multi-version engine (\<open>engine/memory/mvcc.go\<close>) hold their data themselves, and those
  for Pebble, Badger and Oshodi (\<open>engine/pebble\<close>, \<open>engine/badger\<close>, \<open>engine/oshodi\<close>) adapt a library. Watchers (\<open>watch.go\<close>) are told of committed writes. On a conflict the node
  retries. A daemon (\<open>cmd/dpxd/main.go\<close>) makes backups and a load generator (\<open>workspace/runner.go\<close>) measures a node with
  the stage timers of \<open>shared/telemetry.go\<close>. Paths are relative to \<open>src/\<close>.

  \<^bold>\<open>The theories.\<close>

  \<^item> \<open>Prelude\<close>: the \<open>named_theorems\<close> collections and the lemmas on words, lists and maps that are shared.

  \<^item> \<open>Codec\<close>, \<open>Proposal_Codec\<close>, \<open>Dump\<close>: reserved keys, version records and integers (\<open>helpers.go\<close>,
    \<open>engine/engine.go\<close>), the wire format of proposals, and the dump files of two engines, all as byte
    lists; round trips, rejection of truncated data, and what the 16-bit lengths lose.

  \<^item> \<open>Engine_Spec\<close>: the engine interface as a record of functions, and its contract as the locales
    \<open>storage_engine\<close>, \<open>scanning_engine\<close> and \<open>total_engine\<close> over an abstract store, a map from keys to values. \<open>readable\<close>
    says which keys an engine can hold, since Badger has no empty key.

  \<^item> \<open>Memory_Engine\<close>, \<open>Memory_Props\<close>: the in-memory engine in its legacy and sharded layouts. The B-tree
    package is a parameter with the law \<open>btree_ok\<close>. The interpretations \<open>mem\<close> and \<open>memt\<close> show that it keeps the contract;
    both layouts refine the abstract store, snapshots are isolated, scans are exact, checkpoints reload.

  \<^item> \<open>MVCC_Engine\<close>, \<open>MVCC_Props\<close>, \<open>MVCC_Claims\<close>: the multi-version engine with its three-phase commit
    and its compaction. The interpretation \<open>mvcc\<close> shows the contract for commits that do not overlap; the
    invariant of all runs, binary search against linear search, what compaction keeps, and scenarios in
    which a snapshot is not stable.

  \<^item> \<open>FSM\<close>, \<open>Recovery\<close>: conflict detection, application of log entries and rebuilding the key epochs on
    opening (\<open>newFSM\<close>, \<open>detectConflict\<close>, \<open>applyProposal\<close>, \<open>applyBatch\<close>, \<open>open\<close>).

  \<^item> \<open>Direct\<close>, \<open>OCC\<close>, \<open>Validation\<close>, \<open>Direct_Props\<close>: the direct proposer with its two validation
    paths, and its loop as a step relation. \<open>OCC\<close> states the specification, serial execution of the accepted
    proposals, and proves it inside \<open>total_engine\<close>, so for every engine with the contract. \<open>Validation\<close> shows that
    accepted reads are current and rejections justified, \<open>Direct_Props\<close> that the paths agree and
    that the loop answers everything in order.

  \<^item> \<open>Raft\<close>, \<open>Raft_Props\<close>: the same for log entries in the batches Raft delivers, and how batching
    changes verdicts.

  \<^item> \<open>Sharded\<close>, \<open>Sharded_Props\<close>: the sharded proposer. Within one shard it is the direct proposer; scenarios
    show what is missed between shards and on the multi-version engine.

  \<^item> \<open>Snapshot\<close>, \<open>Snapshot_Props\<close>: Raft snapshots as tar streams of directories (\<open>conductor/snapshot.go\<close>) and
    their restoration.

  \<^item> \<open>Tx\<close>, \<open>Tx_Props\<close>, \<open>Node_Props\<close>: transactions. A body is a value of \<open>txprog\<close>, a tree of calls with
    continuations. One attempt takes the interleaving of other clients as arguments. Serializability of
    successful attempts, the shape of proposals, the outcome of retries, range scans.

  \<^item> \<open>Watch\<close>, \<open>Watch_Props\<close>: the watcher map with its goroutines as interleaved steps, where a panic is a
    value; no run panics.

  \<^item> \<open>Config\<close>, \<open>Node\<close>, \<open>Node_Runs\<close>: defaults, the batcher, and the node that composes all this, with runs
    over all entry points: sequence numbers, delivery to watchers, and the closed node.

  \<^item> \<open>Engine_Serial\<close>, \<open>Engine_Agree\<close>: clients of the engine contract. \<open>Engine_Agree\<close> runs a reference proposer on abstract
    stores; its locale \<open>full_engine\<close>, interpreted by four engines, shows that the direct proposer on an engine follows it.
    The property of this theory draws the conclusion: the engines are interchangeable.

  \<^item> \<open>Backend\<close>, \<open>Pebble\<close>, \<open>Badger\<close>, \<open>Oshodi\<close> with their \<open>_Props\<close> and \<open>_Claims\<close>: the adapters over a library that is a
    parameter. The contract of the engines, the merge operator under any schedule of the library, shared snapshots,
    iterators that skip reserved keys, atomic and partial batches, checkpoints.

  \<^item> \<open>MVCC_Life\<close>: background compaction, \<open>Open\<close> and \<open>Close\<close> of the multi-version engine as interleaved steps on its channels,
    where closing a closed channel is a panic.

  \<^item> \<open>Iterators\<close>: the iterators of the engines, each with its own record, behind the locale \<open>cursor\<close>, and \<open>collectIter\<close> over
    all of them.

  \<^item> \<open>Raft_Node\<close>, \<open>Raft_Node_Props\<close>: the choice of a proposer, opening of the Raft node with what each error path releases,
    admission and shutdown (\<open>conductor/node.go\<close>).

  \<^item> \<open>Direct_Pool\<close>, \<open>Direct_Pool_Props\<close>: the entries that \<open>ProposeDirect\<close> recycles, as interleaved steps: when results reach
    their callers, and a run in which they do not.

  \<^item> \<open>Telemetry\<close>, \<open>Report\<close>, \<open>Report_Props\<close>: the stage timers as atomic operations of concurrent callers, whose runs end
    and count exactly, and the rows of the reports, with the error of their rounding.

  \<^item> \<open>Runner\<close>, \<open>Runner_Props\<close>, \<open>Runner_Claims\<close>, \<open>Assembly\<close>, \<open>Daemon\<close>: keys, seeding, workloads and integer statistics of
    the load generator; the engines that \<open>open.go\<close> and \<open>main\<close> choose, the proposer that follows, and \<open>Health\<close>; and the
    backup command.

  \<^bold>\<open>Conventions.\<close> Bytes are \<open>8 word\<close>, \<open>uint64\<close> and \<open>int64\<close> are \<open>64 word\<close>; indices and sums wrap as in
  Go, and where a property needs that an index does not wrap this is a hypothesis. A Go map that is iterated
  is an association list, one that is only looked up is a HOL map. Errors are values. Code outside the
  repository is a parameter: the B-tree package (\<open>btree_ok\<close>), the retry library (\<open>retry_ok\<close>), the shutdown library
  (\<open>trigger_ok\<close>), the storage libraries (\<open>pebble_ok\<close>, \<open>badger_ok\<close>, \<open>oshodi_ok\<close> and, where no call fails,
  \<open>oshodi_reliable\<close>), Raft, whose answers are arguments, and the hybrid logical clock, whose timestamps are; the
  witnesses instantiate them. Loops are structural recursions or functions with termination proofs; those whose end
  depends on an iterator are \<open>partial_function (option)\<close>, with theorems that they return. There is no fuel. Locks that
  cover a whole operation make it one step; where the code releases them between phases, as in a commit of the
  multi-version engine and in the goroutine of a watcher, the phases are steps of their own.

  \<^bold>\<open>Not modelled.\<close> The insides of the libraries. Floating-point numbers: the moving average of the batcher, whose delay
  is an argument, and the means and deviations of the load generator. The text of numbers and durations in the
  reports, profiles, signals, and the timing of the load generator's goroutines. The clock of the node. Code that
  nothing calls, \<open>pebbleSharedSnapshot\<close> and \<open>ApplyDirect\<close> of the in-memory engine, or only tests call, its \<open>currentKeys\<close>. File access is
  modelled by the bytes that are written, and cannot fail except in unpacking. The runs of \<open>Node\<close> have the in-memory
  engine and the direct proposer; the other engines and proposers have their own theories.
\<close>

subsection \<open>The engines are interchangeable\<close>

text \<open>Running the direct proposer from empty stores on four engines.\<close>

lemma pebble_opened:
  assumes "pebble_ok Int64Merger P" "pb_stored P dir = Map.empty" "pebble_Open P dir = Inr e"
  shows "peb_invar e" "peb_contents e = Map.empty"
  using pebble_Open_invar [OF assms(1,3)] assms(2) by (simp_all add: cells_kv_def)

lemma oshodi_opened:
  assumes "oshodi_ok P" "oshodi_reliable P" "os_stored P f = Map.empty" "oshodi_Open P f = Inr e"
  shows "osh_invar e" "osh_contents e = Map.empty"
  using oshodi_Open_contents [OF assms(1,4)] assms(1-3) by (simp_all add: osh_invar_def)

lemma osh_never_fails: "osh_invar e \<Longrightarrow> fst (eApplyBatch oshodi_engine e b sync) = None"
  using oshodi_ApplyBatch_reliable [of e b sync "fst (oshodi_ApplyBatch e b sync)" "snd (oshodi_ApplyBatch e b sync)"]
  by (simp add: oshodi_engine_def osh_invar_def)

lemma mem_never_fails: "mem_invar e \<Longrightarrow> fst (eApplyBatch memory_engine e b sync) = None"
  by (simp add: memory_engine_def ApplyBatch_def)

text \<open>
  C4. The storage engines are interchangeable behind the direct proposer: opened on empty stores and given the same
  batches of well-formed proposals, the proposers over the Pebble, Badger and Oshodi engines answer exactly as the one
  over the in-memory engine does, conflicts included, unless their library reports a failure, and afterwards every
  key, those of the version records and of the applied index included, reads the same.
\<close>

theorem engines_interchangeable:
  assumes "btree_ok T" "newDirectProposer memory_engine (New T) pol w = Inr dm"
    and "pebble_ok Int64Merger P" "pb_stored P dir = Map.empty" "pebble_Open P dir = Inr ep"
    and "newDirectProposer pebble_engine ep pol w = Inr dp" "undisturbed (run_results pebble_engine dp pss)"
    and "badger_ok B" "bd_stored B (bdFiles bdir) = Map.empty" "badger_Open B bdir = Inr eb"
    and "newDirectProposer badger_engine eb pol w = Inr db" "undisturbed (run_results badger_engine db pss)"
    and "oshodi_ok Q" "oshodi_reliable Q" "os_stored Q f = Map.empty" "oshodi_Open Q f = Inr eo"
    and "newDirectProposer oshodi_engine eo pol w = Inr do" "list_all (list_all clean) pss"
  shows "run_results pebble_engine dp pss = run_results memory_engine dm pss
    \<and> run_results badger_engine db pss = run_results memory_engine dm pss
    \<and> run_results oshodi_engine do pss = run_results memory_engine dm pss
    \<and> pebble_Get (engine (fsm (run_direct pebble_engine dp pss))) k
        = engine_Get (engine (fsm (run_direct memory_engine dm pss))) k
    \<and> oshodi_Get (engine (fsm (run_direct oshodi_engine do pss))) k
        = engine_Get (engine (fsm (run_direct memory_engine dm pss))) k
    \<and> (k \<noteq> [] \<longrightarrow> badger_Get (engine (fsm (run_direct badger_engine db pss))) k
        = engine_Get (engine (fsm (run_direct memory_engine dm pss))) k)"
proof -
  note M0 = mem_New(1,2) [OF assms(1)] and B0 = badger_Open_contents [OF assms(8,10)]
  note P0 = pebble_opened [OF assms(3-5)] and O0 = oshodi_opened [OF assms(13-16)]
  have B1: "bdg_contents eb = Map.empty" using B0(2) assms(9) by simp
  note um = memf.opened_undisturbed [OF M0 assms(2,18) mem_never_fails]
  note uo = oshf.opened_undisturbed [OF O0 assms(17,18) osh_never_fails]
  note M = memf.opened_follows [OF M0 assms(2,18) um] and P = pebf.opened_follows [OF P0 assms(6,18,7)]
  note B = bdgf.opened_follows [OF B0(1) B1 assms(11,18,12)] and O = oshf.opened_follows [OF O0 assms(17,18) uo]
  show ?thesis
    using M P B O by (simp add: memory_engine_def pebble_engine_def badger_engine_def oshodi_engine_def)
qed

text \<open>Two batches on each engine: a write, then a second one next to a stale update, which all of them refuse.\<close>

definition agree_batches :: "Proposal list list" where
  "agree_batches = [[op_p [] OpSet [1] [7]], [op_p [] OpSet [3] [3], op_p [read_e [1] 0 False] OpSet [2] [8]]]"

definition bdg_direct0 :: "(badger_ref, nat, data_map) badgerEngine directProposer" where
  "bdg_direct0 = projr (newDirectProposer badger_engine (bdg0 []) SyncNone False)"

definition osh_direct0 :: "(data_map, data_map) oshodiEngine directProposer" where
  "osh_direct0 = projr (newDirectProposer oshodi_engine (osh0 (\<lambda>k. False) []) SyncNone False)"

lemma agree_opened:
  "newDirectProposer pebble_engine (peb0 []) SyncNone False = Inr peb_direct0"
  "newDirectProposer badger_engine (bdg0 []) SyncNone False = Inr bdg_direct0"
  "newDirectProposer oshodi_engine (osh0 (\<lambda>k. False) []) SyncNone False = Inr osh_direct0"
proof -
  have "\<not> isl (newDirectProposer pebble_engine (peb0 []) SyncNone False)" by code_simp
  then show "newDirectProposer pebble_engine (peb0 []) SyncNone False = Inr peb_direct0" by (simp add: peb_direct0_def)
  have "\<not> isl (newDirectProposer badger_engine (bdg0 []) SyncNone False)" by code_simp
  then show "newDirectProposer badger_engine (bdg0 []) SyncNone False = Inr bdg_direct0" by (simp add: bdg_direct0_def)
  have "\<not> isl (newDirectProposer oshodi_engine (osh0 (\<lambda>k. False) []) SyncNone False)" by code_simp
  then show "newDirectProposer oshodi_engine (osh0 (\<lambda>k. False) []) SyncNone False = Inr osh_direct0" by (simp add: osh_direct0_def)
qed

theorem engines_interchangeable_witness:
  "run_results pebble_engine peb_direct0 agree_batches = [[result_ok], [result_ok, result_conflict]]
   \<and> run_results badger_engine bdg_direct0 agree_batches = [[result_ok], [result_ok, result_conflict]]
   \<and> oshodi_Get (engine (fsm (run_direct oshodi_engine osh_direct0 agree_batches))) [1] = Inr [7]"
proof -
  have st: "pb_stored ref_pkg [] = Map.empty" "os_stored (ref_oshodi (\<lambda>k. False)) [] = Map.empty"
    "bd_stored ref_badger (bdFiles \<lparr>bdFiles = [], bdDump = None\<rparr>) = Map.empty"
    by (simp_all add: ref_pkg_def ref_cells_def ref_oshodi_def ref_badger_def fun_eq_iff)
  have oo: "oshodi_Open (ref_oshodi (\<lambda>k. False)) [] = Inr (osh0 (\<lambda>k. False) [])"
    by (simp add: oshodi_Open_def osh0_def ref_oshodi_def readApplied_def)
  have rel: "oshodi_reliable (ref_oshodi (\<lambda>k. False))" by (simp add: oshodi_reliable_def ref_oshodi_def)
  have u: "undisturbed (run_results pebble_engine peb_direct0 agree_batches)"
    "undisturbed (run_results badger_engine bdg_direct0 agree_batches)" by code_simp+
  have cl: "list_all (list_all clean) agree_batches" by code_simp
  have m: "run_results memory_engine direct0 agree_batches = [[result_ok], [result_ok, result_conflict]]"
    "engine_Get (engine (fsm (run_direct memory_engine direct0 agree_batches))) [1] = Inr [7]" by code_simp+
  from engines_interchangeable [OF btree_ok_alist_pkg newDirectProposer_direct0 ref_ok st(1) peb0_open agree_opened(1) u(1)
      ref_badger_ok st(3) bdg0_open agree_opened(2) u(2) ref_oshodi_ok rel st(2) oo agree_opened(3) cl, of "[1]"]
  show ?thesis by (simp add: m)
qed

end
